(* ===== verification/Prelude.thy ===== *)
theory Prelude
  imports Main "HOL-Library.Word"
begin

text \<open>
  Shared vocabulary of the development. A Python function that reads or changes state, or
  that may raise, is an \<^emph>\<open>action\<close>: it takes the state and returns either the raised
  exception (\<open>Inl\<close>) or the returned value (\<open>Inr\<close>), together with the state it leaves
  behind. The combinators below are the control flow of the source: sequencing, \<open>raise\<close>,
  \<open>try/except\<close> and \<open>try/finally\<close>. The collections \<open>act\<close> and \<open>run\<close> gather the
  unfolding equations that component proofs share.
\<close>

named_theorems act \<open>definitions of the action combinators\<close>
named_theorems run \<open>evaluation equations of actions and operations\<close>

type_synonym byte = "8 word"
type_synonym bytes = "byte list"

type_synonym ('s, 'e, 'a) action = "'s \<Rightarrow> ('e + 'a) \<times> 's"

section \<open>Actions\<close>

definition returning :: "'a \<Rightarrow> ('s, 'e, 'a) action" where
  [act]: "returning a = (\<lambda>s. (Inr a, s))"

definition raising :: "'e \<Rightarrow> ('s, 'e, 'a) action" where
  [act]: "raising e = (\<lambda>s. (Inl e, s))"

definition and_then :: "('s, 'e, 'a) action \<Rightarrow> ('a \<Rightarrow> ('s, 'e, 'b) action) \<Rightarrow> ('s, 'e, 'b) action" where
  [act]: "and_then m f = (\<lambda>s. case m s of (Inl e, s') \<Rightarrow> (Inl e, s') | (Inr a, s') \<Rightarrow> f a s')"

definition trying :: "('s, 'e, 'a) action \<Rightarrow> ('e \<Rightarrow> ('s, 'e, 'a) action) \<Rightarrow> ('s, 'e, 'a) action" where
  [act]: "trying m h = (\<lambda>s. case m s of (Inl e, s') \<Rightarrow> h e s' | (Inr a, s') \<Rightarrow> (Inr a, s'))"

text \<open>
  \<open>try: m finally: f\<close>. The clean-up always runs; an exception it raises replaces the
  outcome of the body.
\<close>

definition finally_do :: "('s, 'e, 'a) action \<Rightarrow> ('s, 'e, unit) action \<Rightarrow> ('s, 'e, 'a) action" where
  [act]: "finally_do m f = (\<lambda>s. case m s of (r, s') \<Rightarrow>
     (case f s' of (Inl e, s'') \<Rightarrow> (Inl e, s'') | (Inr _, s'') \<Rightarrow> (r, s'')))"

text \<open>Turn an action on a part of a larger state into an action on the whole.\<close>

definition lifting :: "('w \<Rightarrow> 's) \<Rightarrow> ('s \<Rightarrow> 'w \<Rightarrow> 'w) \<Rightarrow> ('s, 'e, 'a) action \<Rightarrow> ('w, 'e, 'a) action" where
  [act]: "lifting get put m = (\<lambda>w. case m (get w) of (r, s') \<Rightarrow> (r, put s' w))"

lemma and_then_Inr [run]: "m s = (Inr a, s') \<Longrightarrow> and_then m f s = f a s'"
  by (simp add: and_then_def)

lemma and_then_Inl [run]: "m s = (Inl e, s') \<Longrightarrow> and_then m f s = (Inl e, s')"
  by (simp add: and_then_def)

lemma trying_Inr [run]: "m s = (Inr a, s') \<Longrightarrow> trying m h s = (Inr a, s')"
  by (simp add: trying_def)

lemma trying_Inl [run]: "m s = (Inl e, s') \<Longrightarrow> trying m h s = h e s'"
  by (simp add: trying_def)

lemma returning_run [simp, run]: "returning a s = (Inr a, s)"
  by (simp add: returning_def)

lemma raising_run [simp, run]: "raising e s = (Inl e, s)"
  by (simp add: raising_def)

lemma and_then_InrE:
  assumes "and_then m f s = (Inr b, s')"
  obtains a s1 where "m s = (Inr a, s1)" and "f a s1 = (Inr b, s')"
  using assms by (auto simp: and_then_def split: prod.splits sum.splits)

lemma and_then_InlE:
  assumes "and_then m f s = (Inl e, s')"
  obtains (first) "m s = (Inl e, s')"
  | (second) a s1 where "m s = (Inr a, s1)" and "f a s1 = (Inl e, s')"
  using assms by (auto simp: and_then_def split: prod.splits sum.splits)

text \<open>A property of the state that an action keeps, whatever its outcome.\<close>

definition keeps :: "('s \<Rightarrow> bool) \<Rightarrow> ('s, 'e, 'a) action \<Rightarrow> bool" where
  "keeps P m \<longleftrightarrow> (\<forall>s. P s \<longrightarrow> P (snd (m s)))"

lemma keepsI: "(\<And>s. P s \<Longrightarrow> P (snd (m s))) \<Longrightarrow> keeps P m"
  by (simp add: keeps_def)

lemma keepsD: "keeps P m \<Longrightarrow> P s \<Longrightarrow> P (snd (m s))"
  by (simp add: keeps_def)

lemma keeps_returning [intro!]: "keeps P (returning a)"
  by (simp add: keeps_def)

lemma keeps_raising [intro!]: "keeps P (raising e)"
  by (simp add: keeps_def)

lemma keeps_step:
  assumes "keeps P m" and "P s"
  obtains r s' where "m s = (r, s')" and "P s'"
  using keepsD [OF assms] by (cases "m s") auto

lemma keeps_and_then [intro]:
  assumes "keeps P m" and "\<And>a. keeps P (f a)"
  shows "keeps P (and_then m f)"
proof (rule keepsI)
  fix s assume "P s"
  with assms(1) obtain r s' where "m s = (r, s')" and "P s'" by (rule keeps_step)
  then show "P (snd (and_then m f s))"
    using keepsD [OF assms(2)] by (cases r) (simp_all add: and_then_def)
qed

lemma keeps_trying [intro]:
  assumes "keeps P m" and "\<And>e. keeps P (h e)"
  shows "keeps P (trying m h)"
proof (rule keepsI)
  fix s assume "P s"
  with assms(1) obtain r s' where "m s = (r, s')" and "P s'" by (rule keeps_step)
  then show "P (snd (trying m h s))"
    using keepsD [OF assms(2)] by (cases r) (simp_all add: trying_def)
qed

lemma keeps_finally [intro]:
  assumes "keeps P m" and "keeps P f"
  shows "keeps P (finally_do m f)"
proof (rule keepsI)
  fix s assume "P s"
  with assms(1) obtain r s' where m: "m s = (r, s')" and "P s'" by (rule keeps_step)
  from assms(2) this(2) obtain q s'' where "f s' = (q, s'')" and "P s''" by (rule keeps_step)
  with m show "P (snd (finally_do m f s))"
    by (cases q) (simp_all add: finally_do_def)
qed

section \<open>Triples\<close>

text \<open>
  From a state in \<open>P\<close>, the action ends normally in \<open>Q\<close> of its result or exceptionally in
  \<open>E\<close> of its exception. There is one rule for each combinator.
\<close>

definition triple ::
  "('s \<Rightarrow> bool) \<Rightarrow> ('s, 'e, 'a) action \<Rightarrow> ('a \<Rightarrow> 's \<Rightarrow> bool) \<Rightarrow> ('e \<Rightarrow> 's \<Rightarrow> bool) \<Rightarrow> bool" where
  "triple P m Q E \<longleftrightarrow> (\<forall>s. P s \<longrightarrow>
     (case m s of (Inl e, s') \<Rightarrow> E e s' | (Inr a, s') \<Rightarrow> Q a s'))"

lemma tripleI:
  assumes "\<And>s a s'. P s \<Longrightarrow> m s = (Inr a, s') \<Longrightarrow> Q a s'"
    and "\<And>s e s'. P s \<Longrightarrow> m s = (Inl e, s') \<Longrightarrow> E e s'"
  shows "triple P m Q E"
  using assms by (auto simp: triple_def split: prod.split sum.split)

lemma tripleD:
  "triple P m Q E \<Longrightarrow> P s \<Longrightarrow> case m s of (Inl e, s') \<Rightarrow> E e s' | (Inr a, s') \<Rightarrow> Q a s'"
  by (simp add: triple_def)

lemma triple_Inr: "triple P m Q E \<Longrightarrow> P s \<Longrightarrow> m s = (Inr a, s') \<Longrightarrow> Q a s'"
  by (auto simp: triple_def split: prod.splits sum.splits)

lemma triple_Inl: "triple P m Q E \<Longrightarrow> P s \<Longrightarrow> m s = (Inl e, s') \<Longrightarrow> E e s'"
  by (auto simp: triple_def split: prod.splits sum.splits)

lemma keeps_triple: "keeps P m \<Longrightarrow> triple P m (\<lambda>_. P) (\<lambda>_. P)"
  by (auto simp: keeps_def triple_def split: prod.splits sum.splits)

lemma triple_returning: "(\<And>s. P s \<Longrightarrow> Q a s) \<Longrightarrow> triple P (returning a) Q E"
  by (simp add: triple_def)

lemma triple_raising: "(\<And>s. P s \<Longrightarrow> E e s) \<Longrightarrow> triple P (raising e) Q E"
  by (simp add: triple_def)

lemma triple_and_then:
  assumes "triple P m R E" and "\<And>a. triple (R a) (f a) Q E"
  shows "triple P (and_then m f) Q E"
proof (rule tripleI)
  fix s a s' assume "P s" and "and_then m f s = (Inr a, s')"
  with assms show "Q a s'" by (blast elim: and_then_InrE dest: triple_Inr)
next
  fix s e s' assume "P s" and "and_then m f s = (Inl e, s')"
  with assms show "E e s'" by (blast elim: and_then_InlE dest: triple_Inr triple_Inl)
qed

lemma triple_trying:
  assumes "triple P m Q R" and "\<And>e. triple (R e) (h e) Q E"
  shows "triple P (trying m h) Q E"
  unfolding triple_def
proof (intro allI impI)
  fix s assume "P s"
  obtain r s' where m: "m s = (r, s')" by fastforce
  show "case trying m h s of (Inl e, s') \<Rightarrow> E e s' | (Inr a, s') \<Rightarrow> Q a s'"
  proof (cases r)
    case (Inl e)
    have "R e s'" by (rule triple_Inl [OF assms(1) \<open>P s\<close>]) (simp add: m Inl)
    from tripleD [OF assms(2) this] Inl m show ?thesis by (simp add: trying_def)
  next
    case (Inr a)
    have "Q a s'" by (rule triple_Inr [OF assms(1) \<open>P s\<close>]) (simp add: m Inr)
    with Inr m show ?thesis by (simp add: trying_def)
  qed
qed

lemma triple_finally:
  assumes "triple P m Q' E'"
    and "\<And>a. triple (Q' a) f (\<lambda>_. Q a) E" and "\<And>e. triple (E' e) f (\<lambda>_. E e) E"
  shows "triple P (finally_do m f) Q E"
  unfolding triple_def
proof (intro allI impI)
  fix s assume "P s"
  obtain r s' where m: "m s = (r, s')" by fastforce
  obtain q s'' where f: "f s' = (q, s'')" by fastforce
  show "case finally_do m f s of (Inl e, s') \<Rightarrow> E e s' | (Inr a, s') \<Rightarrow> Q a s'"
  proof (cases r)
    case (Inl e)
    have "E' e s'" by (rule triple_Inl [OF assms(1) \<open>P s\<close>]) (simp add: m Inl)
    from tripleD [OF assms(3) this] Inl m f show ?thesis
      by (cases q) (simp_all add: finally_do_def)
  next
    case (Inr a)
    have "Q' a s'" by (rule triple_Inr [OF assms(1) \<open>P s\<close>]) (simp add: m Inr)
    from tripleD [OF assms(2) this] Inr m f show ?thesis
      by (cases q) (simp_all add: finally_do_def)
  qed
qed

lemma triple_ex:
  assumes "\<And>x. triple (P x) m Q E"
  shows "triple (\<lambda>s. \<exists>x. P x s) m Q E"
  by (rule tripleI) (blast intro: triple_Inr [OF assms] triple_Inl [OF assms])+

lemma triple_fact: "(A \<Longrightarrow> triple P m Q E) \<Longrightarrow> triple (\<lambda>s. A \<and> P s) m Q E"
  by (cases A) (simp_all add: triple_def)

lemma triple_weaken:
  assumes "triple P m Q E"
    and "\<And>s. P' s \<Longrightarrow> P s" and "\<And>a s. Q a s \<Longrightarrow> Q' a s" and "\<And>e s. E e s \<Longrightarrow> E' e s"
  shows "triple P' m Q' E'"
  using assms unfolding triple_def by (fastforce split: prod.splits sum.splits)

text \<open>Whatever the state, the action raises only exceptions in \<open>R\<close>.\<close>

definition raises_only :: "('e \<Rightarrow> bool) \<Rightarrow> ('s, 'e, 'a) action \<Rightarrow> bool" where
  "raises_only R m \<longleftrightarrow> (\<forall>s e s'. m s = (Inl e, s') \<longrightarrow> R e)"

lemma raises_onlyI: "(\<And>s e s'. m s = (Inl e, s') \<Longrightarrow> R e) \<Longrightarrow> raises_only R m"
  by (simp add: raises_only_def)

lemma raises_onlyD: "raises_only R m \<Longrightarrow> m s = (Inl e, s') \<Longrightarrow> R e"
  unfolding raises_only_def by blast

lemma raises_only_returning [intro!]: "raises_only R (returning a)"
  by (simp add: raises_only_def)

lemma raises_only_raising: "R e \<Longrightarrow> raises_only R (raising e)"
  by (simp add: raises_only_def)

lemma raises_only_and_then:
  assumes "raises_only R m" and "\<And>a. raises_only R (f a)"
  shows "raises_only R (and_then m f)"
  by (rule raises_onlyI) (blast elim: and_then_InlE intro: raises_onlyD [OF assms(1)] raises_onlyD [OF assms(2)])

lemma raises_only_trying:
  assumes "raises_only R' m" and "\<And>e. R' e \<Longrightarrow> raises_only R (h e)"
  shows "raises_only R (trying m h)"
proof (rule raises_onlyI)
  fix s e s' assume "trying m h s = (Inl e, s')"
  then obtain e1 s1 where "m s = (Inl e1, s1)" and "h e1 s1 = (Inl e, s')"
    by (auto simp: trying_def split: prod.splits sum.splits)
  then show "R e" using raises_onlyD [OF assms(1)] raises_onlyD [OF assms(2)] by blast
qed

lemma raises_only_finally:
  assumes "raises_only R m" and "raises_only R f"
  shows "raises_only R (finally_do m f)"
proof (rule raises_onlyI)
  fix s e s' assume "finally_do m f s = (Inl e, s')"
  then consider e1 s1 where "m s = (Inl e, s1)" | s1 where "f s1 = (Inl e, s')"
    by (auto simp: finally_do_def split: prod.splits sum.splits)
  then show "R e" using raises_onlyD [OF assms(1)] raises_onlyD [OF assms(2)] by cases blast+
qed

section \<open>Reading a sequence in bounded chunks\<close>

text \<open>
  The loop \<open>while chunk := read(n): yield chunk\<close> over a source holding \<open>bs\<close>: each read
  takes at most \<open>n\<close> items and an empty read ends the loop. A read size of zero would
  return nothing at once.
\<close>

function chunks_of :: "nat \<Rightarrow> 'a list \<Rightarrow> 'a list list" where
  "chunks_of n bs = (if n = 0 \<or> bs = [] then [] else take n bs # chunks_of n (drop n bs))"
  by pat_completeness auto
termination
  by (relation "measure (\<lambda>(n, bs). length bs)") auto

declare chunks_of.simps [simp del]

lemma chunks_of_Nil [simp]: "chunks_of n [] = []"
  by (simp add: chunks_of.simps)

lemma chunks_of_step: "0 < n \<Longrightarrow> bs \<noteq> [] \<Longrightarrow> chunks_of n bs = take n bs # chunks_of n (drop n bs)"
  by (simp add: chunks_of.simps [of n bs])

lemma concat_chunks_of: "0 < n \<Longrightarrow> concat (chunks_of n bs) = bs"
  by (induction n bs rule: chunks_of.induct) (metis append_take_drop_id chunks_of_Nil
      chunks_of_step concat.simps bot_nat_0.not_eq_extremum)

lemma chunks_of_bounds:
  assumes "c \<in> set (chunks_of n bs)"
  shows "c \<noteq> [] \<and> length c \<le> n"
  using assms
proof (induction n bs rule: chunks_of.induct)
  case (1 n bs)
  show ?case
  proof (cases "n = 0 \<or> bs = []")
    case True
    with "1.prems" show ?thesis by (simp add: chunks_of.simps [of n bs])
  next
    case False
    with "1.prems" consider "c = take n bs" | "c \<in> set (chunks_of n (drop n bs))"
      by (auto simp: chunks_of.simps [of n bs])
    then show ?thesis
      using False "1.IH" by cases auto
  qed
qed

lemma length_chunks_of: "0 < n \<Longrightarrow> length (chunks_of n bs) = (length bs + n - 1) div n"
proof (induction n bs rule: chunks_of.induct)
  case (1 n bs)
  show ?case
  proof (cases "bs = []")
    case True
    with "1.prems" show ?thesis by simp
  next
    case False
    with "1" have "length (chunks_of n bs) = Suc ((length bs - n + n - 1) div n)"
      by (simp add: chunks_of_step)
    also have "\<dots> = (length bs + n - 1) div n"
    proof (cases "length bs \<le> n")
      case True
      from \<open>bs \<noteq> []\<close> have "0 < length bs" by simp
      with True have split: "length bs + n - 1 = n + (length bs - 1)" and "length bs - 1 < n"
        by linarith+
      then have "(length bs + n - 1) div n = 1"
        unfolding split using "1.prems" by (simp add: div_add_self1)
      with True "1.prems" show ?thesis by simp
    next
      case False
      then have split: "length bs + n - 1 = (length bs - n + n - 1) + n" using "1.prems" by simp
      show ?thesis
        unfolding split using "1.prems" by (simp only: div_add_self2)
    qed
    finally show ?thesis .
  qed
qed

section \<open>Lists\<close>

lemma find_append_Some: "find P xs = None \<Longrightarrow> P y \<Longrightarrow> find P (xs @ [y]) = Some y"
  by (induction xs) (auto split: if_splits)

lemma butlast_append_singleton [simp]: "butlast (xs @ [x]) = xs"
  by simp

lemma take_append_drop_eq: "take n xs @ drop n xs = xs"
  by simp

end
