(* ===== verification/Py_Strings.thy ===== *)
theory Py_Strings
  imports Prelude
begin

text \<open>
  The part of Python's \<open>str\<close>, \<open>bytes\<close> and \<open>int\<close> that the program uses. A \<open>str\<close> is its
  list of code points, so \<open>length\<close> is Python's \<open>len\<close>, in characters and not in bytes.
  The Unicode tables beyond ASCII (which characters print, how they change case) are data of
  the interpreter: they are the record \<open>unicode_data\<close>, an argument of the functions that
  consult it.
\<close>

type_synonym pystr = "nat list"

definition lit :: "string \<Rightarrow> pystr" where
  "lit cs = map of_char cs"

lemma lit_simps:
  "lit [] = []"
  "lit (c # cs) = of_char c # lit cs"
  by (simp_all add: lit_def)

lemma length_lit [simp]: "length (lit cs) = length cs"
  by (simp add: lit_def)

record unicode_data =
  printable :: "nat \<Rightarrow> bool"
  upper_of :: "nat \<Rightarrow> pystr"
  lower_of :: "nat \<Rightarrow> pystr"

text \<open>Character tables that know the ASCII letters only.\<close>

definition plain_unicode :: unicode_data where
  "plain_unicode = \<lparr>printable = (\<lambda>_. False), upper_of = (\<lambda>c. [c]), lower_of = (\<lambda>c. [c])\<rparr>"

section \<open>Stripping, prefixes, splitting\<close>

text \<open>\<open>str.isspace\<close> of one character: the whole Unicode list, as \<open>str.strip\<close> uses it.\<close>

definition is_space :: "nat \<Rightarrow> bool" where
  "is_space c \<longleftrightarrow>
     (9 \<le> c \<and> c \<le> 13) \<or> (28 \<le> c \<and> c \<le> 32) \<or> c = 133 \<or> c = 160 \<or> c = 5760
     \<or> (8192 \<le> c \<and> c \<le> 8202) \<or> c = 8232 \<or> c = 8233 \<or> c = 8239 \<or> c = 8287 \<or> c = 12288"

definition strip_by :: "(nat \<Rightarrow> bool) \<Rightarrow> pystr \<Rightarrow> pystr" where
  "strip_by p s = rev (dropWhile p (rev (dropWhile p s)))"

definition strip :: "pystr \<Rightarrow> pystr" where
  "strip s = strip_by is_space s"

definition starts_with :: "pystr \<Rightarrow> pystr \<Rightarrow> bool" where
  "starts_with s p \<longleftrightarrow> take (length p) s = p"

definition remove_prefix :: "pystr \<Rightarrow> pystr \<Rightarrow> pystr" where
  "remove_prefix s p = (if starts_with s p then drop (length p) s else s)"

fun split_on :: "nat \<Rightarrow> pystr \<Rightarrow> pystr list" where
  "split_on sep [] = [[]]"
| "split_on sep (c # cs) =
     (if c = sep then [] # split_on sep cs
      else (case split_on sep cs of [] \<Rightarrow> [[c]] | w # ws \<Rightarrow> (c # w) # ws))"

fun join_with :: "nat \<Rightarrow> pystr list \<Rightarrow> pystr" where
  "join_with sep [] = []"
| "join_with sep [w] = w"
| "join_with sep (w # ws) = w @ sep # join_with sep ws"

lemma dropWhile_rev_no_hit: "\<forall>c\<in>set s. \<not> p c \<Longrightarrow> dropWhile p s = s"
  by (cases s) auto

lemma strip_by_id: "\<forall>c\<in>set s. \<not> p c \<Longrightarrow> strip_by p s = s"
  by (simp add: strip_by_def dropWhile_rev_no_hit)

lemma set_dropWhile_subset: "set (dropWhile p s) \<subseteq> set s"
  by (auto dest: set_dropWhileD)

lemma set_strip_by: "set (strip_by p s) \<subseteq> set s"
  unfolding strip_by_def by (metis set_dropWhile_subset set_rev subset_trans)

lemma length_strip_by: "length (strip_by p s) \<le> length s"
  unfolding strip_by_def
  by (metis length_dropWhile_le length_rev order_trans)

lemma last_strip_by: "strip_by p s \<noteq> [] \<Longrightarrow> \<not> p (last (strip_by p s))"
  unfolding strip_by_def by (simp add: last_rev hd_dropWhile)

lemma hd_strip_by:
  assumes "strip_by p s \<noteq> []"
  shows "\<not> p (hd (strip_by p s))"
proof -
  let ?t = "dropWhile p s"
  from assms have t: "?t \<noteq> []" by (auto simp only: strip_by_def rev.simps dropWhile.simps)
  then have "\<not> p (hd ?t)" by (rule hd_dropWhile)
  obtain us where us: "?t = strip_by p s @ us"
    unfolding strip_by_def
    by (metis rev_append rev_rev_ident takeWhile_dropWhile_id)
  then have "hd ?t = hd (strip_by p s)" using assms by (metis hd_append2)
  then show ?thesis using \<open>\<not> p (hd ?t)\<close> by simp
qed

lemma strip_by_idem: "strip_by p (strip_by p s) = strip_by p s"
proof (cases "strip_by p s = []")
  case True
  then show ?thesis by (simp only:) (simp add: strip_by_def)
next
  case False
  let ?t = "strip_by p s"
  have "dropWhile p ?t = ?t"
    using hd_strip_by [OF False] False by (cases ?t) auto
  moreover have "dropWhile p (rev ?t) = rev ?t"
    using last_strip_by [OF False] False by (metis dropWhile_eq_self_iff hd_rev)
  ultimately show ?thesis by (simp add: strip_by_def [of p ?t])
qed

lemma split_on_not_Nil [simp]: "split_on sep s \<noteq> []"
  by (induction s) (auto split: list.splits)

lemma join_split_on [simp]: "join_with sep (split_on sep s) = s"
proof (induction s)
  case Nil
  then show ?case by simp
next
  case (Cons c s)
  obtain w ws where "split_on sep s = w # ws" by (meson list.exhaust split_on_not_Nil)
  with Cons show ?case by (cases ws) auto
qed

lemma split_on_no_sep: "w \<in> set (split_on sep s) \<Longrightarrow> sep \<notin> set w"
proof (induction s arbitrary: w)
  case Nil
  then show ?case by simp
next
  case (Cons c s)
  obtain v vs where v: "split_on sep s = v # vs" by (meson list.exhaust split_on_not_Nil)
  with Cons.IH have "sep \<notin> set v" and "\<forall>u\<in>set vs. sep \<notin> set u" by auto
  with v Cons.prems show ?case by (auto split: if_splits)
qed

lemma split_on_append:
  "sep \<notin> set w \<Longrightarrow> split_on sep (w @ sep # s) = w # split_on sep s"
  by (induction w) auto

lemma split_on_word: "sep \<notin> set w \<Longrightarrow> split_on sep w = [w]"
  by (induction w) auto

lemma split_on_join:
  "ws \<noteq> [] \<Longrightarrow> \<forall>w\<in>set ws. sep \<notin> set w \<Longrightarrow> split_on sep (join_with sep ws) = ws"
  by (induction sep ws rule: join_with.induct) (auto simp: split_on_append split_on_word)

lemma in_split_on: "c \<in> set s \<Longrightarrow> c \<noteq> sep \<Longrightarrow> \<exists>w\<in>set (split_on sep s). c \<in> set w"
  by (induction s) (auto split: list.splits)

lemma split_on_subset: "w \<in> set (split_on sep s) \<Longrightarrow> set w \<subseteq> set s"
proof (induction s arbitrary: w)
  case Nil
  then show ?case by simp
next
  case (Cons c s)
  obtain v vs where v: "split_on sep s = v # vs" by (meson list.exhaust split_on_not_Nil)
  with Cons.IH have "set v \<subseteq> set s" and "\<forall>u\<in>set vs. set u \<subseteq> set s" by auto
  with v Cons.prems show ?case by (auto split: if_splits)
qed

section \<open>Bounding a value before it is echoed\<close>

text \<open>\<open>value if len(value) <= limit else f"{value[:limit]}...[{len(value)}]"\<close>\<close>

fun nat_dec :: "nat \<Rightarrow> pystr" where
  "nat_dec n = (if n < 10 then [48 + n] else nat_dec (n div 10) @ [48 + n mod 10])"

declare nat_dec.simps [simp del]

definition is_digit :: "nat \<Rightarrow> bool" where
  "is_digit c \<longleftrightarrow> 48 \<le> c \<and> c \<le> 57"

lemma nat_dec_digits: "\<forall>c\<in>set (nat_dec n). is_digit c"
proof (induction n rule: nat_dec.induct)
  case (1 n)
  show ?case
  proof (cases "n < 10")
    case True
    then show ?thesis by (subst nat_dec.simps) (simp add: is_digit_def)
  next
    case False
    have "n mod 10 < 10" by simp
    then have "is_digit (48 + n mod 10)" unfolding is_digit_def by linarith
    with False "1" show ?thesis by (subst nat_dec.simps) auto
  qed
qed

lemma nat_dec_not_Nil [simp]: "nat_dec n \<noteq> []"
  by (subst nat_dec.simps) simp

section \<open>Hexadecimal\<close>

definition hex_digit :: "nat \<Rightarrow> nat" where
  "hex_digit d = (if d < 10 then 48 + d else 87 + d)"

fun hex_pad :: "nat \<Rightarrow> nat \<Rightarrow> pystr" where
  "hex_pad 0 n = []"
| "hex_pad (Suc w) n = hex_pad w (n div 16) @ [hex_digit (n mod 16)]"

definition is_hex :: "nat \<Rightarrow> bool" where
  "is_hex c \<longleftrightarrow> is_digit c \<or> (97 \<le> c \<and> c \<le> 102)"

lemma length_hex_pad [simp]: "length (hex_pad w n) = w"
  by (induction w arbitrary: n) auto

lemma is_hex_hex_digit: "d < 16 \<Longrightarrow> is_hex (hex_digit d)"
  by (auto simp: is_hex_def is_digit_def hex_digit_def)

lemma hex_pad_hex: "\<forall>c\<in>set (hex_pad w n). is_hex c"
  by (induction w arbitrary: n) (auto simp: is_hex_hex_digit)

lemma hex_digit_inj: "a < 16 \<Longrightarrow> b < 16 \<Longrightarrow> hex_digit a = hex_digit b \<Longrightarrow> a = b"
  by (auto simp: hex_digit_def split: if_splits)

lemma hex_pad_inj: "a < 16 ^ w \<Longrightarrow> b < 16 ^ w \<Longrightarrow> hex_pad w a = hex_pad w b \<Longrightarrow> a = b"
proof (induction w arbitrary: a b)
  case 0
  then show ?case by simp
next
  case (Suc w)
  from Suc.prems(3) have h: "hex_pad w (a div 16) = hex_pad w (b div 16)"
    and d: "hex_digit (a mod 16) = hex_digit (b mod 16)" by auto
  have "a div 16 < 16 ^ w" "b div 16 < 16 ^ w"
    using Suc.prems(1,2) by (simp_all add: less_mult_imp_div_less mult.commute)
  then have "a div 16 = b div 16" using h by (rule Suc.IH)
  moreover have "a mod 16 = b mod 16" by (rule hex_digit_inj [OF _ _ d]) simp_all
  ultimately show ?case by (metis div_mult_mod_eq)
qed

section \<open>\<open>repr\<close> of a string\<close>

text \<open>
  \<open>repr\<close> quotes with \<open>'\<close> unless the text has a \<open>'\<close> and no \<open>"\<close>; it escapes the quote, the
  backslash, and everything that does not print.
\<close>

definition repr_quote :: "pystr \<Rightarrow> nat" where
  "repr_quote s = (if 39 \<in> set s \<and> 34 \<notin> set s then 34 else 39)"

definition repr_char :: "unicode_data \<Rightarrow> nat \<Rightarrow> nat \<Rightarrow> pystr" where
  "repr_char u q c =
     (if c = q \<or> c = 92 then [92, c]
      else if c = 9 then [92, 116]
      else if c = 10 then [92, 110]
      else if c = 13 then [92, 114]
      else if c < 32 \<or> c = 127 then [92, 120] @ hex_pad 2 c
      else if c < 127 then [c]
      else if printable u c then [c]
      else if c < 256 then [92, 120] @ hex_pad 2 c
      else if c < 65536 then [92, 117] @ hex_pad 4 c
      else [92, 85] @ hex_pad 8 c)"

definition repr_str :: "unicode_data \<Rightarrow> pystr \<Rightarrow> pystr" where
  "repr_str u s = [repr_quote s] @ concat (map (repr_char u (repr_quote s)) s) @ [repr_quote s]"

lemma length_repr_char: "length (repr_char u q c) \<le> 10"
  by (simp add: repr_char_def)

lemma length_concat_repr: "length (concat (map (repr_char u q) s)) \<le> 10 * length s"
proof (induction s)
  case Nil
  then show ?case by simp
next
  case (Cons c s)
  then show ?case using length_repr_char [of u q c] by simp
qed

lemma length_repr_str: "length (repr_str u s) \<le> 10 * length s + 2"
  using length_concat_repr [of u "repr_quote s" s] by (simp add: repr_str_def)

text \<open>
  A character a log line or a JSON body can carry verbatim: an ASCII printing character, or
  one that the interpreter's table calls printable.
\<close>

definition safe_char :: "unicode_data \<Rightarrow> nat \<Rightarrow> bool" where
  "safe_char u c \<longleftrightarrow> (32 \<le> c \<and> c < 127) \<or> (127 < c \<and> printable u c)"

lemma safe_char_hex: "is_hex c \<Longrightarrow> safe_char u c"
  by (auto simp: safe_char_def is_hex_def is_digit_def)

lemma safe_char_hex_pad: "c \<in> set (hex_pad w n) \<Longrightarrow> safe_char u c"
  using hex_pad_hex safe_char_hex by blast

lemma set_repr_char:
  "set (repr_char u q c) \<subseteq> {92, 116, 110, 114, 120, 117, 85}
     \<union> (set (hex_pad 2 c) \<union> set (hex_pad 4 c) \<union> set (hex_pad 8 c))
     \<union> (if c = q \<or> c = 92 \<or> safe_char u c then {c} else {})"
  unfolding repr_char_def safe_char_def by auto

lemma repr_char_safe:
  assumes "q = 34 \<or> q = 39" and "x \<in> set (repr_char u q c)"
  shows "safe_char u x"
proof -
  have ascii: "safe_char u y" if "y \<in> {92, 116, 110, 114, 120, 117, 85, 34, 39}" for y
    using that by (auto simp: safe_char_def)
  have "x \<in> {92, 116, 110, 114, 120, 117, 85}
      \<or> x \<in> set (hex_pad 2 c) \<or> x \<in> set (hex_pad 4 c) \<or> x \<in> set (hex_pad 8 c)
      \<or> (x = c \<and> (c = q \<or> c = 92 \<or> safe_char u c))"
    using subsetD [OF set_repr_char assms(2)] by (simp split: if_splits)
  then show ?thesis
    using assms(1) by (elim disjE conjE) (blast intro: ascii safe_char_hex_pad)+
qed

lemma repr_quote_cases: "repr_quote s = 34 \<or> repr_quote s = 39"
  by (simp add: repr_quote_def)

lemma repr_str_safe: "x \<in> set (repr_str u s) \<Longrightarrow> safe_char u x"
  using repr_char_safe [OF repr_quote_cases] repr_quote_cases [of s]
  unfolding repr_str_def by (auto simp: safe_char_def)

section \<open>Case\<close>

text \<open>
  \<open>str.upper\<close> and \<open>str.lower\<close>: ASCII letters are converted here, other characters by the
  interpreter's tables, where one character may become several.
\<close>

definition upper_char :: "unicode_data \<Rightarrow> nat \<Rightarrow> pystr" where
  "upper_char u c = (if c < 128 then [if 97 \<le> c \<and> c \<le> 122 then c - 32 else c] else upper_of u c)"

definition lower_char :: "unicode_data \<Rightarrow> nat \<Rightarrow> pystr" where
  "lower_char u c = (if c < 128 then [if 65 \<le> c \<and> c \<le> 90 then c + 32 else c] else lower_of u c)"

definition str_upper :: "unicode_data \<Rightarrow> pystr \<Rightarrow> pystr" where
  "str_upper u s = concat (map (upper_char u) s)"

definition str_lower :: "unicode_data \<Rightarrow> pystr \<Rightarrow> pystr" where
  "str_lower u s = concat (map (lower_char u) s)"

section \<open>Bytes and text\<close>

definition latin1_decode :: "bytes \<Rightarrow> pystr" where
  "latin1_decode bs = map unat bs"

text \<open>\<open>str.encode("ascii")\<close>: \<open>None\<close> is its \<open>UnicodeEncodeError\<close>.\<close>

definition ascii_encode :: "pystr \<Rightarrow> bytes option" where
  "ascii_encode s = (if \<forall>c\<in>set s. c < 128 then Some (map of_nat s) else None)"

definition bytes_lower :: "bytes \<Rightarrow> bytes" where
  "bytes_lower bs = map (\<lambda>b. if 65 \<le> b \<and> b \<le> 90 then b + 32 else b) bs"

definition bytes_lit :: "string \<Rightarrow> bytes" where
  "bytes_lit cs = map of_char cs"

lemma bytes_lit_simps:
  "bytes_lit [] = []"
  "bytes_lit (c # cs) = of_char c # bytes_lit cs"
  by (simp_all add: bytes_lit_def)

lemma latin1_ascii_roundtrip: "ascii_encode s = Some bs \<Longrightarrow> latin1_decode bs = s"
proof -
  assume a: "ascii_encode s = Some bs"
  then have "\<forall>c\<in>set s. c < 128" and bs: "bs = map of_nat s"
    by (auto simp: ascii_encode_def split: if_splits)
  then have "\<forall>c\<in>set s. unat (of_nat c :: byte) = c"
    by (auto simp: unat_of_nat)
  then show ?thesis by (simp add: bs latin1_decode_def map_idI)
qed

section \<open>\<open>int(text)\<close>\<close>

text \<open>
  Parsing of a Latin-1 text: surrounding whitespace, one optional sign, decimal digits with
  single underscores between them. \<open>None\<close> is the \<open>ValueError\<close>, which is also what a number
  of more than 4300 digits gives (the interpreter's default limit).
\<close>

definition int_space :: "nat \<Rightarrow> bool" where
  "int_space c \<longleftrightarrow> (9 \<le> c \<and> c \<le> 13) \<or> c = 32 \<or> c = 133 \<or> c = 160"

definition max_str_digits :: nat where
  "max_str_digits = 4300"

fun scan_digits :: "bool \<Rightarrow> nat \<Rightarrow> nat \<Rightarrow> pystr \<Rightarrow> (nat \<times> nat) option" where
  "scan_digits after k acc [] = (if after then Some (k, acc) else None)"
| "scan_digits after k acc (c # cs) =
     (if is_digit c then scan_digits True (Suc k) (10 * acc + (c - 48)) cs
      else if c = 95 \<and> after then scan_digits False k acc cs
      else None)"

definition unsigned_int :: "pystr \<Rightarrow> nat option" where
  "unsigned_int s = (case scan_digits False 0 0 s of None \<Rightarrow> None
     | Some (k, v) \<Rightarrow> if max_str_digits < k then None else Some v)"

definition latin1_int :: "pystr \<Rightarrow> int option" where
  "latin1_int s = (case strip_by int_space s of
       [] \<Rightarrow> None
     | c # cs \<Rightarrow>
         (if c = 45 then map_option (\<lambda>v. - int v) (unsigned_int cs)
          else if c = 43 then map_option int (unsigned_int cs)
          else map_option int (unsigned_int (c # cs))))"

lemma scan_digits_append_digit:
  "\<forall>c\<in>set s. is_digit c \<Longrightarrow> is_digit d \<Longrightarrow>
   scan_digits b k acc (s @ [d]) =
     (case scan_digits True k acc s of Some (k', v) \<Rightarrow> Some (Suc k', 10 * v + (d - 48)) | None \<Rightarrow> None)"
  by (induction s arbitrary: b k acc) auto

lemma scan_nat_dec:
  "scan_digits True k 0 (nat_dec n) = Some (k + length (nat_dec n), n)"
proof (induction n rule: nat_dec.induct)
  case (1 n)
  show ?case
  proof (cases "n < 10")
    case True
    then show ?thesis by (subst (1 2) nat_dec.simps) (simp add: is_digit_def)
  next
    case False
    have d: "is_digit (48 + n mod 10)" unfolding is_digit_def using mod_less_divisor [of 10 n] by linarith
    from False have n: "nat_dec n = nat_dec (n div 10) @ [48 + n mod 10]"
      by (subst nat_dec.simps) simp
    show ?thesis
      unfolding n scan_digits_append_digit [OF nat_dec_digits d] "1" [OF False] by simp
  qed
qed

lemma scan_digits_start: "s \<noteq> [] \<Longrightarrow> \<forall>c\<in>set s. is_digit c \<Longrightarrow> scan_digits b k acc s = scan_digits True k acc s"
  by (cases s) auto

text \<open>Reading back what \<open>str(n)\<close> printed.\<close>

lemma latin1_int_nat_dec:
  assumes "length (nat_dec n) \<le> max_str_digits"
  shows "latin1_int (nat_dec n) = Some (int n)"
proof -
  obtain c cs where s: "nat_dec n = c # cs" by (meson list.exhaust nat_dec_not_Nil)
  have c: "is_digit c" using nat_dec_digits [of n] s by simp
  have "strip_by int_space (nat_dec n) = nat_dec n"
    using nat_dec_digits [of n] by (intro strip_by_id) (auto simp: is_digit_def int_space_def)
  moreover have "unsigned_int (nat_dec n) = Some n"
    using assms scan_nat_dec [of 0 n] scan_digits_start [OF nat_dec_not_Nil nat_dec_digits, of False 0 0 n]
    by (simp add: unsigned_int_def)
  ultimately show ?thesis
    using c s by (simp add: latin1_int_def is_digit_def)
qed

section \<open>UUIDs\<close>

type_synonym uuid = "128 word"

text \<open>\<open>str(uuid)\<close>: 32 hexadecimal digits in groups of 8, 4, 4, 4 and 12.\<close>

definition uuid_str :: "uuid \<Rightarrow> pystr" where
  "uuid_str i = (let h = hex_pad 32 (unat i) in
     take 8 h @ [45] @ take 4 (drop 8 h) @ [45] @ take 4 (drop 12 h) @ [45] @ take 4 (drop 16 h)
     @ [45] @ drop 20 h)"

lemma length_uuid_str [simp]: "length (uuid_str i) = 36"
  by (simp add: uuid_str_def Let_def)

lemma uuid_str_chars: "c \<in> set (uuid_str i) \<Longrightarrow> is_hex c \<or> c = 45"
  using hex_pad_hex [of 32 "unat i"]
  by (auto simp: uuid_str_def Let_def dest!: in_set_takeD in_set_dropD)

end
