(* ===== verification/Exceptions.thy ===== *)
theory Exceptions
  imports Py_Strings
begin

text \<open>
  The exceptions that reach the modelled code, as one type of values: the program's own
  hierarchies, the operating system's errors by \<open>errno\<close>, the database driver's errors, and
  every other exception by a number. \<open>is_exception\<close> tells the subclasses of \<open>Exception\<close>
  from the bare \<open>BaseException\<close>s, which \<open>except Exception\<close> does not catch.
\<close>

datatype errno =
    ENOENT | ENOTDIR | EEXIST | EISDIR | ELOOP | EMLINK | EACCES | EIO | ENOSPC | EINVAL
  | EOther nat

text \<open>\<open>NotARegularFile\<close> is the adapter's own subclass of \<open>OSError\<close>, raised with \<open>EINVAL\<close>.\<close>

datatype os_error = OSError errno | NotARegularFile

fun errno_of :: "os_error \<Rightarrow> errno" where
  "errno_of (OSError e) = e"
| "errno_of NotARegularFile = EINVAL"

text \<open>The \<open>message\<close> attribute of each is \<open>None\<close> when the raiser gave no detail.\<close>

datatype storage_exn =
    StorageException "pystr option"
  | BlobNotFound "pystr option"
  | BlobAlreadyExists "pystr option"

datatype repository_exn =
    RepositoryError "pystr option"
  | InvalidRepositoryName "pystr option"
  | RepositoryAlreadyExists "pystr option"
  | RepositoryNotFound "pystr option"

text \<open>A class of the API hierarchy, or a subclass of one (a chain of single inheritance).\<close>

datatype wooloo_class =
    WoolooException
  | ValidationException
  | NotFoundException
  | ConflictException
  | Subclass nat wooloo_class

datatype wooloo_exn = Wooloo_Exn wooloo_class "pystr option"

text \<open>
  What the database driver attached to a failed statement: its SQLSTATE, if it has one, and
  its cause, if it has one, with the name of the violated constraint, if the cause has one.
\<close>

record driver_error =
  sqlstate :: "pystr option"
  cause :: "pystr option option"

datatype db_exn =
    IntegrityError "driver_error option"
  | OtherDBAPIError nat
  | MultipleResultsFound

datatype exn =
    Storage storage_exn
  | Repo repository_exn
  | Wooloo wooloo_exn
  | OSErr os_error
  | Db db_exn
  | TimeoutError
  | ValueError pystr
  | NotImplementedError pystr
  | KeyError
  | Other_Exception nat
  | BodyTooLarge
  | CancelledError
  | Other_BaseException nat

fun is_exception :: "exn \<Rightarrow> bool" where
  "is_exception BodyTooLarge = False"
| "is_exception CancelledError = False"
| "is_exception (Other_BaseException n) = False"
| "is_exception _ = True"

fun is_os_error :: "exn \<Rightarrow> bool" where
  "is_os_error (OSErr e) = True"
| "is_os_error TimeoutError = True"
| "is_os_error _ = False"

definition file_not_found :: "exn \<Rightarrow> bool" where
  "file_not_found e \<longleftrightarrow> e = OSErr (OSError ENOENT)"

definition not_a_directory :: "exn \<Rightarrow> bool" where
  "not_a_directory e \<longleftrightarrow> e = OSErr (OSError ENOTDIR)"

definition file_exists_error :: "exn \<Rightarrow> bool" where
  "file_exists_error e \<longleftrightarrow> e = OSErr (OSError EEXIST)"

text \<open>The \<open>message\<close> attribute, and \<open>str(exc)\<close>, which is empty when there is no message.\<close>

fun storage_message :: "storage_exn \<Rightarrow> pystr option" where
  "storage_message (StorageException m) = m"
| "storage_message (BlobNotFound m) = m"
| "storage_message (BlobAlreadyExists m) = m"

fun repository_message :: "repository_exn \<Rightarrow> pystr option" where
  "repository_message (RepositoryError m) = m"
| "repository_message (InvalidRepositoryName m) = m"
| "repository_message (RepositoryAlreadyExists m) = m"
| "repository_message (RepositoryNotFound m) = m"

fun wooloo_message :: "wooloo_exn \<Rightarrow> pystr option" where
  "wooloo_message (Wooloo_Exn c m) = m"

definition str_of_message :: "pystr option \<Rightarrow> pystr" where
  "str_of_message m = (case m of None \<Rightarrow> [] | Some t \<Rightarrow> t)"

end
