(* ===== verification/OS_Files.thy ===== *)
theory OS_Files
  imports Exceptions
begin

text \<open>
  The file operations of \<open>os\<close>, \<open>pathlib\<close> and \<open>tempfile\<close> that the storage adapter calls,
  on a tree of files. A path is its list of components from the root of the file system; a
  symbolic link is followed in every component but the last, at most forty times, and in
  the last one only by the calls that follow links.

  Each system call is one atomic step. Before it, the other processes of the machine may
  have changed the tree (\<open>others\<close>), and it may fail for any reason the machine has
  (\<open>fault\<close>), and the task may be cancelled while it waits for a call made in a thread
  (\<open>cancels\<close>), all functions of the number of calls made so far. A state with none of
  these is \<open>quiet\<close>.
\<close>

type_synonym path = "pystr list"

text \<open>A regular file has its inode number, its content and its modification time.\<close>

datatype node =
    Regular nat bytes nat
  | Directory
  | Symlink path
  | Special

text \<open>
  How a cancelled \<open>await asyncio.to_thread(f)\<close> leaves the call: still waiting in the queue of
  the executor, where cancelling removes it, or running, where nothing can stop it.
\<close>

datatype abandonment = Never_Started | Left_Running

type_synonym fs_tree = "path \<Rightarrow> node option"

record os_state =
  tree :: fs_tree
  calls :: nat
  wall :: "nat \<Rightarrow> nat"
  fault :: "nat \<Rightarrow> errno option"
  others :: "nat \<Rightarrow> fs_tree \<Rightarrow> fs_tree"
  temp_names :: "nat \<Rightarrow> pystr"
  next_temp :: nat
  open_fds :: nat
  cancels :: "nat \<Rightarrow> abandonment option"

definition quiet :: "os_state \<Rightarrow> bool" where
  "quiet s \<longleftrightarrow> fault s = (\<lambda>_. None) \<and> others s = (\<lambda>_ t. t) \<and> cancels s = (\<lambda>_. None)"

type_synonym 'a os = "(os_state, exn, 'a) action"

section \<open>Finding a path\<close>

definition max_symlinks :: nat where
  "max_symlinks = 40"

definition is_dir_at :: "fs_tree \<Rightarrow> path \<Rightarrow> bool" where
  "is_dir_at t q \<longleftrightarrow> q = [] \<or> t q = Some Directory"

text \<open>
  Walk the components \<open>rest\<close> from the directory \<open>cur\<close>, following every link, to a path
  without links. The first argument is the number of links that may still be followed.
\<close>

fun resolve :: "nat \<Rightarrow> fs_tree \<Rightarrow> path \<Rightarrow> path \<Rightarrow> errno + path" where
  "resolve fuel t cur [] = Inr cur"
| "resolve fuel t cur (c # cs) =
     (case t (cur @ [c]) of
        None \<Rightarrow> Inl ENOENT
      | Some Directory \<Rightarrow> resolve fuel t (cur @ [c]) cs
      | Some (Symlink target) \<Rightarrow>
          (case fuel of 0 \<Rightarrow> Inl ELOOP | Suc f \<Rightarrow> resolve f t [] (target @ cs))
      | Some _ \<Rightarrow> if cs = [] then Inr (cur @ [c]) else Inl ENOTDIR)"

text \<open>Resolve all components but the last, which need not exist.\<close>

definition locate :: "fs_tree \<Rightarrow> path \<Rightarrow> errno + path" where
  "locate t p =
     (if p = [] then Inr []
      else case resolve max_symlinks t [] (butlast p) of
             Inl e \<Rightarrow> Inl e
           | Inr d \<Rightarrow> if is_dir_at t d then Inr (d @ [last p]) else Inl ENOTDIR)"

definition node_at :: "fs_tree \<Rightarrow> path \<Rightarrow> node option" where
  "node_at t q = (if q = [] then Some Directory else t q)"

definition lookup :: "fs_tree \<Rightarrow> path \<Rightarrow> errno + node" where
  "lookup t p = (case locate t p of Inl e \<Rightarrow> Inl e
     | Inr q \<Rightarrow> (case node_at t q of None \<Rightarrow> Inl ENOENT | Some n \<Rightarrow> Inr n))"

text \<open>The path a call that follows links in the last component ends at.\<close>

primrec locate_follow :: "nat \<Rightarrow> fs_tree \<Rightarrow> path \<Rightarrow> errno + path" where
  "locate_follow 0 t p = (case locate t p of Inl e \<Rightarrow> Inl e
     | Inr q \<Rightarrow> (case node_at t q of Some (Symlink _) \<Rightarrow> Inl ELOOP | _ \<Rightarrow> Inr q))"
| "locate_follow (Suc f) t p = (case locate t p of Inl e \<Rightarrow> Inl e
     | Inr q \<Rightarrow> (case node_at t q of Some (Symlink target) \<Rightarrow> locate_follow f t target | _ \<Rightarrow> Inr q))"

section \<open>System calls\<close>

text \<open>
  One system call: the others act, then either the call fails or \<open>f\<close> is applied to the
  clock and the tree.
\<close>

definition syscall :: "(nat \<Rightarrow> fs_tree \<Rightarrow> errno + 'a \<times> fs_tree) \<Rightarrow> 'a os" where
  "syscall f s =
     (let t = others s (calls s) (tree s);
          s' = s\<lparr>tree := t, calls := Suc (calls s)\<rparr>
      in case fault s (calls s) of
           Some e \<Rightarrow> (Inl (OSErr (OSError e)), s')
         | None \<Rightarrow> (case f (wall s (calls s)) t of
               Inl e \<Rightarrow> (Inl (OSErr (OSError e)), s')
             | Inr (a, t') \<Rightarrow> (Inr a, s'\<lparr>tree := t'\<rparr>)))"

datatype file_kind = Reg | Dir | Lnk | Oth

record stat_result =
  st_mode :: file_kind
  st_size :: nat
  st_mtime :: nat

text \<open>Size and time are read by the program for regular files only.\<close>

fun stat_of :: "node \<Rightarrow> stat_result" where
  "stat_of (Regular i c m) = \<lparr>st_mode = Reg, st_size = length c, st_mtime = m\<rparr>"
| "stat_of Directory = \<lparr>st_mode = Dir, st_size = 0, st_mtime = 0\<rparr>"
| "stat_of (Symlink p) = \<lparr>st_mode = Lnk, st_size = 0, st_mtime = 0\<rparr>"
| "stat_of Special = \<lparr>st_mode = Oth, st_size = 0, st_mtime = 0\<rparr>"

definition s_isreg :: "file_kind \<Rightarrow> bool" where
  "s_isreg m \<longleftrightarrow> m = Reg"

definition os_lstat :: "path \<Rightarrow> stat_result os" where
  "os_lstat p = syscall (\<lambda>_ t. case lookup t p of Inl e \<Rightarrow> Inl e | Inr n \<Rightarrow> Inr (stat_of n, t))"

definition os_unlink :: "path \<Rightarrow> unit os" where
  "os_unlink p = syscall (\<lambda>_ t. case locate t p of Inl e \<Rightarrow> Inl e
     | Inr q \<Rightarrow> (case node_at t q of
         None \<Rightarrow> Inl ENOENT
       | Some Directory \<Rightarrow> Inl EISDIR
       | Some _ \<Rightarrow> Inr ((), t(q := None))))"

definition os_mkdir :: "path \<Rightarrow> unit os" where
  "os_mkdir p = syscall (\<lambda>_ t. case locate t p of Inl e \<Rightarrow> Inl e
     | Inr q \<Rightarrow> (case node_at t q of
         None \<Rightarrow> Inr ((), t(q \<mapsto> Directory))
       | Some _ \<Rightarrow> Inl EEXIST))"

text \<open>
  \<open>os.rename\<close> of a file onto a path: whatever file is there is replaced. The program
  renames regular files only; a directory as the source is outside the model and fails.
\<close>

definition os_rename :: "path \<Rightarrow> path \<Rightarrow> unit os" where
  "os_rename src dst = syscall (\<lambda>_ t. case locate t src of Inl e \<Rightarrow> Inl e
     | Inr a \<Rightarrow> (case node_at t a of
         None \<Rightarrow> Inl ENOENT
       | Some Directory \<Rightarrow> Inl EINVAL
       | Some n \<Rightarrow> (case locate t dst of Inl e \<Rightarrow> Inl e
           | Inr b \<Rightarrow> if node_at t b = Some Directory then Inl EISDIR
                      else Inr ((), (t(a := None))(b \<mapsto> n)))))"

text \<open>
  \<open>os.open\<close> for reading, with a set of flags: under \<open>O_NOFOLLOW\<close> a link is refused, without it
  its target is opened; anything else that exists is opened, also a pipe, for which \<open>O_NONBLOCK\<close>
  spares the wait for a writer. The descriptor stands for the file that was there at that moment.
\<close>

datatype open_flag = O_RDONLY | O_NOFOLLOW | O_NONBLOCK

definition open_target :: "open_flag set \<Rightarrow> fs_tree \<Rightarrow> path \<Rightarrow> errno + node" where
  "open_target flags t p =
     (if O_NOFOLLOW \<in> flags
      then (case lookup t p of Inl e \<Rightarrow> Inl e | Inr (Symlink _) \<Rightarrow> Inl ELOOP | Inr n \<Rightarrow> Inr n)
      else (case locate_follow max_symlinks t p of Inl e \<Rightarrow> Inl e
        | Inr q \<Rightarrow> (case node_at t q of None \<Rightarrow> Inl ENOENT | Some n \<Rightarrow> Inr n)))"

definition os_open_read :: "path \<Rightarrow> open_flag set \<Rightarrow> node os" where
  "os_open_read p flags = and_then
     (syscall (\<lambda>_ t. case open_target flags t p of Inl e \<Rightarrow> Inl e | Inr n \<Rightarrow> Inr (n, t)))
     (\<lambda>n s. (Inr n, s\<lparr>open_fds := Suc (open_fds s)\<rparr>))"

text \<open>
  Calls on an open descriptor that change no file: \<open>fstat\<close>, \<open>fdopen\<close>, \<open>flush\<close>, \<open>fsync\<close>.
\<close>

definition os_touch :: "unit os" where
  "os_touch = syscall (\<lambda>_ t. Inr ((), t))"

definition os_fstat :: "node \<Rightarrow> stat_result os" where
  "os_fstat n = syscall (\<lambda>_ t. Inr (stat_of n, t))"

text \<open>Closing releases the descriptor, even when the call reports an error.\<close>

definition os_close :: "unit os" where
  "os_close s = os_touch (s\<lparr>open_fds := open_fds s - 1\<rparr>)"

text \<open>Append to the file with this inode number, wherever its name now is.\<close>

definition write_inode :: "nat \<Rightarrow> bytes \<Rightarrow> nat \<Rightarrow> fs_tree \<Rightarrow> fs_tree" where
  "write_inode ino bs time t = (\<lambda>p. case t p of
       Some (Regular i c m) \<Rightarrow> if i = ino then Some (Regular i (c @ bs) time) else t p
     | _ \<Rightarrow> t p)"

definition os_write :: "nat \<Rightarrow> bytes \<Rightarrow> unit os" where
  "os_write ino bs = syscall (\<lambda>time t. Inr ((), write_inode ino bs time t))"

text \<open>\<open>open(O_CREAT | O_EXCL)\<close>: the new file's inode number is the number of the call.\<close>

definition os_create_excl :: "path \<Rightarrow> nat os" where
  "os_create_excl p s =
     and_then
       (syscall (\<lambda>time t. case locate t p of Inl e \<Rightarrow> Inl e
          | Inr q \<Rightarrow> (case node_at t q of
              Some _ \<Rightarrow> Inl EEXIST
            | None \<Rightarrow> Inr (calls s, t(q \<mapsto> Regular (calls s) [] time)))))
       (\<lambda>ino s. (Inr ino, s\<lparr>open_fds := Suc (open_fds s)\<rparr>)) s"

section \<open>Calls in a thread\<close>

text \<open>
  \<open>await asyncio.to_thread(f)\<close>. When the task is cancelled in the wait, \<open>CancelledError\<close> is
  raised and what \<open>f\<close> returned or raised is lost; a call that was running still has its whole
  effect. The state is the one after that effect: it comes before those of the later calls
  of the task, which either need the result, or use the same file, whose lock the call
  holds, or do not meet it.
\<close>

definition to_thread :: "'a os \<Rightarrow> 'a os" where
  "to_thread f s = (case cancels s (calls s) of
       None \<Rightarrow> f s
     | Some Never_Started \<Rightarrow> (Inl CancelledError, s\<lparr>calls := Suc (calls s)\<rparr>)
     | Some Left_Running \<Rightarrow> (Inl CancelledError, snd (f s)))"

section \<open>Library functions over the calls\<close>

text \<open>\<open>os.path.exists\<close> and \<open>os.path.isdir\<close> follow links and turn every \<open>OSError\<close> into \<open>False\<close>.\<close>

definition stat_follow :: "path \<Rightarrow> stat_result os" where
  "stat_follow p = syscall (\<lambda>_ t. case locate_follow max_symlinks t p of Inl e \<Rightarrow> Inl e
     | Inr q \<Rightarrow> (case node_at t q of None \<Rightarrow> Inl ENOENT | Some n \<Rightarrow> Inr (stat_of n, t)))"

definition path_exists :: "path \<Rightarrow> bool os" where
  "path_exists p = trying (and_then (stat_follow p) (\<lambda>_. returning True)) (\<lambda>e. returning False)"

definition path_is_dir :: "path \<Rightarrow> bool os" where
  "path_is_dir p =
     trying (and_then (stat_follow p) (\<lambda>st. returning (st_mode st = Dir))) (\<lambda>e. returning False)"

text \<open>
  \<open>os.makedirs(path, exist_ok=True)\<close>, by recursion on the reversed path: make the missing
  parents, then the directory itself, and accept an error if a directory is there after all.
\<close>

primrec makedirs_rev :: "path \<Rightarrow> unit os" where
  "makedirs_rev [] =
     trying (os_mkdir [])
       (\<lambda>e. and_then (path_is_dir []) (\<lambda>d. if d then returning () else raising e))"
| "makedirs_rev (c # parent) =
     and_then
       (and_then (path_exists (rev parent)) (\<lambda>there.
          if there then returning ()
          else trying (makedirs_rev parent)
                 (\<lambda>e. if file_exists_error e then returning () else raising e)))
       (\<lambda>_. trying (os_mkdir (rev (c # parent)))
          (\<lambda>e. and_then (path_is_dir (rev (c # parent)))
                 (\<lambda>d. if d then returning () else raising e)))"

definition makedirs :: "path \<Rightarrow> unit os" where
  "makedirs p = makedirs_rev (rev p)"

text \<open>\<open>tempfile.mkstemp\<close>: try candidate names until one is free, at most \<open>TMP_MAX\<close> times.\<close>

definition tmp_max :: nat where
  "tmp_max = 10000"

definition take_temp_name :: "pystr os" where
  "take_temp_name s = (Inr (temp_names s (next_temp s)), s\<lparr>next_temp := Suc (next_temp s)\<rparr>)"

primrec mkstemp_try :: "nat \<Rightarrow> path \<Rightarrow> pystr \<Rightarrow> (nat \<times> path) os" where
  "mkstemp_try 0 dir suffix = raising (OSErr (OSError EEXIST))"
| "mkstemp_try (Suc n) dir suffix =
     and_then take_temp_name (\<lambda>name.
       let file = dir @ [lit ''tmp'' @ name @ suffix]
       in trying (and_then (os_create_excl file) (\<lambda>ino. returning (ino, file)))
            (\<lambda>e. if file_exists_error e then mkstemp_try n dir suffix else raising e))"

definition mkstemp :: "path \<Rightarrow> pystr \<Rightarrow> (nat \<times> path) os" where
  "mkstemp dir suffix = mkstemp_try tmp_max dir suffix"

text \<open>\<open>Path.unlink(missing_ok=True)\<close>.\<close>

definition unlink_missing_ok :: "path \<Rightarrow> unit os" where
  "unlink_missing_ok p =
     trying (os_unlink p) (\<lambda>e. if file_not_found e then returning () else raising e)"

text \<open>
  \<open>Path.write_bytes\<close>: open for writing (following a link, creating or truncating), write,
  close. A device or pipe takes the bytes without holding them.
\<close>

definition os_open_write :: "path \<Rightarrow> nat os" where
  "os_open_write p s =
     and_then
       (syscall (\<lambda>time t. case locate_follow max_symlinks t p of Inl e \<Rightarrow> Inl e
          | Inr q \<Rightarrow> (case node_at t q of
              None \<Rightarrow> Inr (calls s, t(q \<mapsto> Regular (calls s) [] time))
            | Some (Regular i c m) \<Rightarrow> Inr (i, t(q \<mapsto> Regular i [] time))
            | Some Directory \<Rightarrow> Inl EISDIR
            | Some _ \<Rightarrow> Inr (calls s, t))))
       (\<lambda>ino s. (Inr ino, s\<lparr>open_fds := Suc (open_fds s)\<rparr>)) s"

definition write_bytes :: "path \<Rightarrow> bytes \<Rightarrow> unit os" where
  "write_bytes p bs = and_then (os_open_write p) (\<lambda>ino. finally_do (os_write ino bs) os_close)"

end
