(* ===== verification/Regex.thy ===== *)
theory Regex
  imports Py_Strings
begin

text \<open>
  The regular expressions of the program. Each pattern of the source is a pure regular
  expression (no look-around, no back-references) used with \<open>fullmatch\<close> only, so matching
  is membership of the whole text in the pattern's language. The language is the inductive
  relation \<open>matches\<close>; \<open>fullmatch\<close> computes it with derivatives, and \<open>fullmatch_iff\<close>
  says that the two agree.
\<close>

datatype regex =
    Nothing
  | Eps
  | Cls "(nat \<times> nat) list"   \<comment> \<open>a character class, as inclusive ranges\<close>
  | Seq regex regex
  | Alt regex regex
  | Star regex

definition in_class :: "(nat \<times> nat) list \<Rightarrow> nat \<Rightarrow> bool" where
  "in_class rs c \<longleftrightarrow> list_ex (\<lambda>(lo, hi). lo \<le> c \<and> c \<le> hi) rs"

inductive matches :: "regex \<Rightarrow> pystr \<Rightarrow> bool" where
  Eps: "matches Eps []"
| Cls: "in_class rs c \<Longrightarrow> matches (Cls rs) [c]"
| Seq: "matches r s \<Longrightarrow> matches q t \<Longrightarrow> matches (Seq r q) (s @ t)"
| AltL: "matches r s \<Longrightarrow> matches (Alt r q) s"
| AltR: "matches q s \<Longrightarrow> matches (Alt r q) s"
| StarNil: "matches (Star r) []"
| StarCons: "matches r s \<Longrightarrow> matches (Star r) t \<Longrightarrow> matches (Star r) (s @ t)"

inductive_cases matches_NothingE [elim!]: "matches Nothing s"
inductive_cases matches_EpsE [elim!]: "matches Eps s"
inductive_cases matches_ClsE [elim!]: "matches (Cls rs) s"
inductive_cases matches_SeqE [elim]: "matches (Seq r q) s"
inductive_cases matches_AltE [elim!]: "matches (Alt r q) s"
inductive_cases matches_StarE: "matches (Star r) s"

inductive_simps matches_Eps_iff [simp]: "matches Eps s"
inductive_simps matches_Cls_iff [simp]: "matches (Cls rs) s"
inductive_simps matches_Alt_iff: "matches (Alt r q) s"

lemma matches_Alt [simp]: "matches (Alt r q) s \<longleftrightarrow> matches r s \<or> matches q s"
  by (auto intro: matches.intros)

lemma matches_Nothing [simp]: "\<not> matches Nothing s"
  by auto

lemma matches_Seq: "matches (Seq r q) s \<longleftrightarrow> (\<exists>u v. s = u @ v \<and> matches r u \<and> matches q v)"
  by (metis matches_SeqE matches.Seq)

lemma matches_Seq_Cls:
  "matches (Seq (Cls rs) q) s \<longleftrightarrow> (\<exists>c t. s = c # t \<and> in_class rs c \<and> matches q t)"
proof
  assume "matches (Seq (Cls rs) q) s"
  then show "\<exists>c t. s = c # t \<and> in_class rs c \<and> matches q t" by (auto simp: matches_Seq)
next
  assume "\<exists>c t. s = c # t \<and> in_class rs c \<and> matches q t"
  then obtain c t where s: "s = [c] @ t" and "in_class rs c" and "matches q t" by auto
  then show "matches (Seq (Cls rs) q) s" unfolding s by (intro matches.intros)
qed

section \<open>Matching by derivatives\<close>

fun nullable :: "regex \<Rightarrow> bool" where
  "nullable Nothing = False"
| "nullable Eps = True"
| "nullable (Cls rs) = False"
| "nullable (Seq r q) = (nullable r \<and> nullable q)"
| "nullable (Alt r q) = (nullable r \<or> nullable q)"
| "nullable (Star r) = True"

fun deriv :: "nat \<Rightarrow> regex \<Rightarrow> regex" where
  "deriv c Nothing = Nothing"
| "deriv c Eps = Nothing"
| "deriv c (Cls rs) = (if in_class rs c then Eps else Nothing)"
| "deriv c (Seq r q) =
     (if nullable r then Alt (Seq (deriv c r) q) (deriv c q) else Seq (deriv c r) q)"
| "deriv c (Alt r q) = Alt (deriv c r) (deriv c q)"
| "deriv c (Star r) = Seq (deriv c r) (Star r)"

fun fullmatch :: "regex \<Rightarrow> pystr \<Rightarrow> bool" where
  "fullmatch r [] = nullable r"
| "fullmatch r (c # cs) = fullmatch (deriv c r) cs"

lemma nullable_iff: "nullable r \<longleftrightarrow> matches r []"
  by (induction r) (auto simp: matches_Seq intro: matches.intros)

lemma Star_head:
  "matches r' s \<Longrightarrow> r' = Star r \<Longrightarrow> s = c # t \<Longrightarrow>
   \<exists>u v. t = u @ v \<and> matches r (c # u) \<and> matches (Star r) v"
proof (induction arbitrary: t rule: matches.induct)
  case (StarCons r1 s1 t1)
  show ?case
  proof (cases s1)
    case Nil
    with StarCons show ?thesis by simp
  next
    case (Cons a u)
    with StarCons.prems StarCons.hyps show ?thesis by auto
  qed
qed auto

lemma matches_Star_Cons:
  "matches (Star r) (c # t) \<longleftrightarrow> (\<exists>u v. t = u @ v \<and> matches r (c # u) \<and> matches (Star r) v)"
  using Star_head [of "Star r" "c # t"] matches.StarCons [of r "c # _"] by fastforce

lemma matches_Seq_Cons:
  "matches (Seq r q) (c # t) \<longleftrightarrow>
     (\<exists>u v. t = u @ v \<and> matches r (c # u) \<and> matches q v) \<or> (matches r [] \<and> matches q (c # t))"
  unfolding matches_Seq Cons_eq_append_conv by (simp add: ex_disj_distrib conj_disj_distribR) blast

lemma deriv_iff: "matches (deriv c r) s \<longleftrightarrow> matches r (c # s)"
proof (induction r arbitrary: s)
  case (Seq r q)
  then show ?case by (simp add: matches_Seq_Cons matches_Seq [of "deriv c r" q] nullable_iff)
next
  case (Star r)
  then show ?case by (simp add: matches_Star_Cons matches_Seq)
qed auto

theorem fullmatch_iff: "fullmatch r s \<longleftrightarrow> matches r s"
  by (induction s arbitrary: r) (simp_all add: nullable_iff deriv_iff)

section \<open>Repetition\<close>

text \<open>\<open>r+\<close>, \<open>r{n}\<close> and \<open>r{lo,hi}\<close>.\<close>

definition plus_of :: "regex \<Rightarrow> regex" where
  "plus_of r = Seq r (Star r)"

primrec times :: "nat \<Rightarrow> regex \<Rightarrow> regex" where
  "times 0 r = Eps"
| "times (Suc n) r = Seq r (times n r)"

primrec up_to :: "nat \<Rightarrow> regex \<Rightarrow> regex" where
  "up_to 0 r = Eps"
| "up_to (Suc n) r = Alt Eps (Seq r (up_to n r))"

definition between :: "nat \<Rightarrow> nat \<Rightarrow> regex \<Rightarrow> regex" where
  "between lo hi r = Seq (times lo r) (up_to (hi - lo) r)"

text \<open>The pattern of one character, as a sequence of code points.\<close>

definition chr :: "char \<Rightarrow> regex" where
  "chr c = Cls [(of_char c, of_char c)]"

lemma matches_Star_Cls: "matches (Star (Cls rs)) s \<longleftrightarrow> (\<forall>c\<in>set s. in_class rs c)"
proof (induction s)
  case Nil
  then show ?case by (simp add: matches.StarNil)
next
  case (Cons c s)
  then show ?case by (auto simp: matches_Star_Cons)
qed

lemma matches_plus_Cls:
  "matches (plus_of (Cls rs)) s \<longleftrightarrow> s \<noteq> [] \<and> (\<forall>c\<in>set s. in_class rs c)"
  by (cases s) (auto simp: plus_of_def matches_Seq_Cls matches_Star_Cls)

lemma matches_times_Cls:
  "matches (times n (Cls rs)) s \<longleftrightarrow> length s = n \<and> (\<forall>c\<in>set s. in_class rs c)"
proof (induction n arbitrary: s)
  case (Suc n)
  then show ?case by (cases s) (auto simp: matches_Seq_Cls)
qed auto

lemma matches_up_to_Cls:
  "matches (up_to n (Cls rs)) s \<longleftrightarrow> length s \<le> n \<and> (\<forall>c\<in>set s. in_class rs c)"
proof (induction n arbitrary: s)
  case (Suc n)
  then show ?case by (cases s) (auto simp: matches_Seq_Cls)
qed auto

lemma matches_between_Cls:
  assumes "lo \<le> hi"
  shows "matches (between lo hi (Cls rs)) s \<longleftrightarrow>
    lo \<le> length s \<and> length s \<le> hi \<and> (\<forall>c\<in>set s. in_class rs c)" (is "?l \<longleftrightarrow> ?r")
proof
  assume ?l
  with assms show ?r
    by (auto simp: between_def matches_Seq matches_times_Cls matches_up_to_Cls)
next
  assume r: ?r
  then have "matches (times lo (Cls rs)) (take lo s)" and "matches (up_to (hi - lo) (Cls rs)) (drop lo s)"
    by (auto simp: matches_times_Cls matches_up_to_Cls dest: in_set_takeD in_set_dropD)
  then have "matches (between lo hi (Cls rs)) (take lo s @ drop lo s)"
    unfolding between_def by (rule matches.Seq)
  then show ?l by simp
qed

end
