(* ===== verification/Sha256.thy ===== *)
theory Sha256
  imports Py_Strings
begin

unbundle bit_operations_syntax

text \<open>
  \<open>hashlib.sha256\<close> of the standard library (FIPS 180-4), as the storage adapter uses it:
  \<open>update\<close> extends the hashed text, \<open>hexdigest\<close> prints the digest of the whole text in 64
  lower-case hexadecimal digits.
\<close>

type_synonym w32 = "32 word"

definition rotr :: "nat \<Rightarrow> w32 \<Rightarrow> w32" where
  "rotr n x = (drop_bit n x) OR (push_bit (32 - n) x)"

definition ch_fn :: "w32 \<Rightarrow> w32 \<Rightarrow> w32 \<Rightarrow> w32" where
  "ch_fn x y z = (x AND y) XOR (NOT x AND z)"

definition maj_fn :: "w32 \<Rightarrow> w32 \<Rightarrow> w32 \<Rightarrow> w32" where
  "maj_fn x y z = (x AND y) XOR (x AND z) XOR (y AND z)"

definition big_sigma0 :: "w32 \<Rightarrow> w32" where
  "big_sigma0 x = rotr 2 x XOR rotr 13 x XOR rotr 22 x"

definition big_sigma1 :: "w32 \<Rightarrow> w32" where
  "big_sigma1 x = rotr 6 x XOR rotr 11 x XOR rotr 25 x"

definition small_sigma0 :: "w32 \<Rightarrow> w32" where
  "small_sigma0 x = rotr 7 x XOR rotr 18 x XOR drop_bit 3 x"

definition small_sigma1 :: "w32 \<Rightarrow> w32" where
  "small_sigma1 x = rotr 17 x XOR rotr 19 x XOR drop_bit 10 x"

definition sha_k :: "w32 list" where
  "sha_k = [
    1116352408, 1899447441, 3049323471, 3921009573,
    961987163, 1508970993, 2453635748, 2870763221,
    3624381080, 310598401, 607225278, 1426881987,
    1925078388, 2162078206, 2614888103, 3248222580,
    3835390401, 4022224774, 264347078, 604807628,
    770255983, 1249150122, 1555081692, 1996064986,
    2554220882, 2821834349, 2952996808, 3210313671,
    3336571891, 3584528711, 113926993, 338241895,
    666307205, 773529912, 1294757372, 1396182291,
    1695183700, 1986661051, 2177026350, 2456956037,
    2730485921, 2820302411, 3259730800, 3345764771,
    3516065817, 3600352804, 4094571909, 275423344,
    430227734, 506948616, 659060556, 883997877,
    958139571, 1322822218, 1537002063, 1747873779,
    1955562222, 2024104815, 2227730452, 2361852424,
    2428436474, 2756734187, 3204031479, 3329325298]"

definition sha_init :: "w32 list" where
  "sha_init = [1779033703, 3144134277, 1013904242, 2773480762,
    1359893119, 2600822924, 528734635, 1541459225]"

definition pad_message :: "bytes \<Rightarrow> bytes" where
  "pad_message bs =
     bs @ [128] @ replicate ((119 - length bs mod 64) mod 64) 0
     @ map (\<lambda>i. ucast (drop_bit (56 - 8 * i) (of_nat (8 * length bs) :: 64 word))) [0..<8]"

fun words_of :: "bytes \<Rightarrow> w32 list" where
  "words_of (a # b # c # d # rest) =
     (push_bit 24 (ucast a) OR push_bit 16 (ucast b) OR push_bit 8 (ucast c) OR ucast d)
     # words_of rest"
| "words_of _ = []"

text \<open>
  The message schedule keeps the last sixteen words; each step produces one round's word.
\<close>

fun schedule :: "nat \<Rightarrow> w32 list \<Rightarrow> w32 list" where
  "schedule 0 ws = []"
| "schedule (Suc n) [] = []"
| "schedule (Suc n) (w # ws) =
     w # schedule n (ws @ [small_sigma1 (ws ! 13) + ws ! 8 + small_sigma0 (ws ! 0) + w])"

definition round_step :: "w32 list \<Rightarrow> w32 \<times> w32 \<Rightarrow> w32 list" where
  "round_step st kw = (case st of
      [a, b, c, d, e, f, g, h] \<Rightarrow>
        let t1 = h + big_sigma1 e + ch_fn e f g + fst kw + snd kw;
            t2 = big_sigma0 a + maj_fn a b c
        in [t1 + t2, a, b, c, d + t1, e, f, g]
    | _ \<Rightarrow> st)"

definition compress :: "w32 list \<Rightarrow> w32 list \<Rightarrow> w32 list" where
  "compress hs block = map2 (+) hs (foldl round_step hs (zip sha_k (schedule 64 block)))"

definition sha256_words :: "bytes \<Rightarrow> w32 list" where
  "sha256_words bs = foldl compress sha_init (chunks_of 16 (words_of (pad_message bs)))"

definition sha256_hexdigest :: "bytes \<Rightarrow> pystr" where
  "sha256_hexdigest bs = concat (map (\<lambda>w. hex_pad 8 (unat w)) (sha256_words bs))"

text \<open>The first round on the standard's example text \<open>abc\<close>, as FIPS 180-4 tabulates it.\<close>

lemma sha256_first_round:
  "round_step sha_init (hd sha_k, hd (words_of (pad_message (bytes_lit ''abc'')))) =
     [1567288269, 1779033703, 3144134277, 1013904242,
      4197074466, 1359893119, 2600822924, 528734635]"
  by code_simp

section \<open>The shape of a digest\<close>

lemma length_round_step: "length (round_step st kw) = length st"
  by (auto simp: round_step_def Let_def split: list.splits)

lemma length_rounds: "length (foldl round_step st kws) = length st"
  by (induction kws arbitrary: st) (simp_all add: length_round_step)

lemma length_compress: "length (compress hs block) = length hs"
  by (simp add: compress_def length_rounds)

lemma length_sha256_words: "length (sha256_words bs) = 8"
proof -
  have "length (foldl compress hs blocks) = length hs" for hs blocks
    by (induction blocks arbitrary: hs) (simp_all add: length_compress)
  then show ?thesis by (simp add: sha256_words_def sha_init_def)
qed

lemma length_sha256_hexdigest: "length (sha256_hexdigest bs) = 64"
proof -
  have "length (concat (map (\<lambda>w. hex_pad 8 (unat w)) ws)) = 8 * length ws" for ws :: "w32 list"
    by (induction ws) simp_all
  then show ?thesis by (simp add: sha256_hexdigest_def length_sha256_words)
qed

lemma sha256_hexdigest_hex: "\<forall>c\<in>set (sha256_hexdigest bs). is_hex c"
  using hex_pad_hex by (auto simp: sha256_hexdigest_def simp del: hex_pad.simps)

end
