(* ===== verification/Blob_Port.thy ===== *)
theory Blob_Port
  imports Exceptions
begin

text \<open>
  The blob storage port (\<open>domain/storage\<close>): the value a stored blob is described by, the
  operations every backend offers, and the contract they keep as a locale. A client of the
  port is verified once, inside the locale; a backend interprets it on its own operations.
\<close>

text \<open>An instant, as the clock reads it. All times of the program are in UTC.\<close>

type_synonym datetime = nat

record stored_blob =
  blob_key :: pystr
  blob_size :: nat
  blob_content_type :: "pystr option"
  blob_created_at :: datetime

text \<open>
  An incoming stream of bytes, as \<open>async for\<close> sees it: its chunks in order, and then either
  its end or an exception raised by the source.
\<close>

record byte_stream =
  stream_chunks :: "bytes list"
  stream_error :: "exn option"

definition stream_data :: "byte_stream \<Rightarrow> bytes" where
  "stream_data c = concat (stream_chunks c)"

text \<open>The operations of the port, over a state \<open>'s\<close> and a type \<open>'g\<close> of outgoing iterators.\<close>

record ('s, 'g) blob_storage =
  blob_put :: "byte_stream \<Rightarrow> pystr option \<Rightarrow> ('s, exn, stored_blob) action"
  blob_get :: "pystr \<Rightarrow> ('s, exn, 'g) action"
  blob_exists :: "pystr \<Rightarrow> ('s, exn, bool) action"
  blob_size_of :: "pystr \<Rightarrow> ('s, exn, nat) action"
  blob_delete :: "pystr \<Rightarrow> ('s, exn, unit) action"
  blob_check_health :: "('s, exn, bool) action"

definition blob_missing :: "exn \<Rightarrow> bool" where
  "blob_missing e \<longleftrightarrow> (\<exists>m. e = Storage (BlobNotFound m))"

text \<open>
  The contract. In a state that is \<open>ready\<close>, \<open>stored\<close> is the map from keys to contents that
  the backend holds. A key is computed from the content; storing content whose key is taken
  changes nothing; a failing source stores nothing; reads do not change the map; absence is
  an exception of \<open>get\<close>, \<open>size\<close> and \<open>delete\<close> and a value of \<open>exists\<close>.
\<close>

locale blob_contract =
  fixes st :: "('s, 'g) blob_storage"
    and ready :: "'s \<Rightarrow> bool"
    and stored :: "'s \<Rightarrow> pystr \<Rightarrow> bytes option"
    and delivers :: "'g \<Rightarrow> bytes"
    and key_of :: "bytes \<Rightarrow> pystr"
  assumes put_law: "ready s \<Longrightarrow> stream_error c = None \<Longrightarrow>
      \<exists>b s'. blob_put st c ct s = (Inr b, s') \<and> ready s'
        \<and> blob_key b = key_of (stream_data c) \<and> blob_content_type b = ct
        \<and> stored s' = (if stored s (blob_key b) = None
                       then (stored s)(blob_key b \<mapsto> stream_data c) else stored s)
        \<and> (\<exists>d. stored s' (blob_key b) = Some d \<and> blob_size b = length d)"
    and put_error_law: "ready s \<Longrightarrow> stream_error c = Some e \<Longrightarrow>
      \<exists>s'. blob_put st c ct s = (Inl e, s') \<and> ready s' \<and> stored s' = stored s"
    and get_law: "ready s \<Longrightarrow> stored s k = Some d \<Longrightarrow>
      \<exists>g s'. blob_get st k s = (Inr g, s') \<and> ready s' \<and> stored s' = stored s \<and> delivers g = d"
    and get_missing_law: "ready s \<Longrightarrow> stored s k = None \<Longrightarrow>
      \<exists>e s'. blob_get st k s = (Inl e, s') \<and> blob_missing e \<and> ready s' \<and> stored s' = stored s"
    and exists_law: "ready s \<Longrightarrow>
      \<exists>s'. blob_exists st k s = (Inr (stored s k \<noteq> None), s') \<and> ready s' \<and> stored s' = stored s"
    and size_law: "ready s \<Longrightarrow> stored s k = Some d \<Longrightarrow>
      \<exists>s'. blob_size_of st k s = (Inr (length d), s') \<and> ready s' \<and> stored s' = stored s"
    and size_missing_law: "ready s \<Longrightarrow> stored s k = None \<Longrightarrow>
      \<exists>e s'. blob_size_of st k s = (Inl e, s') \<and> blob_missing e \<and> ready s' \<and> stored s' = stored s"
    and delete_law: "ready s \<Longrightarrow> stored s k = Some d \<Longrightarrow>
      \<exists>s'. blob_delete st k s = (Inr (), s') \<and> ready s' \<and> stored s' = (stored s)(k := None)"
    and delete_missing_law: "ready s \<Longrightarrow> stored s k = None \<Longrightarrow>
      \<exists>e s'. blob_delete st k s = (Inl e, s') \<and> blob_missing e \<and> ready s' \<and> stored s' = stored s"
begin

text \<open>Content that was absent before a \<open>put\<close> is what a later \<open>get\<close> of its key delivers.\<close>

lemma put_then_get:
  assumes "ready s" and "stream_error c = None" and "stored s (key_of (stream_data c)) = None"
  obtains b s' g s'' where "blob_put st c ct s = (Inr b, s')"
    and "blob_get st (blob_key b) s' = (Inr g, s'')" and "delivers g = stream_data c"
proof -
  from put_law [OF assms(1,2)] assms(3) obtain b s' where
    b: "blob_put st c ct s = (Inr b, s')" "ready s'" and "stored s' (blob_key b) = Some (stream_data c)"
    by force
  from get_law [OF b(2) this(3)] that b(1) show ?thesis by blast
qed

text \<open>Putting the same content twice returns the same key and leaves the map as it was.\<close>

lemma put_idempotent:
  assumes "ready s" and "stream_error c = None" and "stream_error c' = None"
    and "stream_data c' = stream_data c"
  obtains b s' b' s'' where "blob_put st c ct s = (Inr b, s')"
    and "blob_put st c' ct' s' = (Inr b', s'')" and "blob_key b' = blob_key b"
    and "blob_size b' = blob_size b" and "stored s'' = stored s'"
proof -
  from put_law [OF assms(1,2)] obtain b s' d where
    b: "blob_put st c ct s = (Inr b, s')" "ready s'" "blob_key b = key_of (stream_data c)"
    and d: "stored s' (blob_key b) = Some d" "blob_size b = length d" by blast
  from put_law [OF b(2) assms(3)] obtain b' s'' where
    b': "blob_put st c' ct' s' = (Inr b', s'')" "blob_key b' = key_of (stream_data c')"
    and s'': "stored s'' = (if stored s' (blob_key b') = None
       then (stored s')(blob_key b' \<mapsto> stream_data c') else stored s')"
    and "\<exists>d. stored s'' (blob_key b') = Some d \<and> blob_size b' = length d" by blast
  with b d assms(4) that show ?thesis by (metis option.distinct(1) option.inject)
qed

text \<open>After a successful \<open>delete\<close> the key is unknown to every other operation.\<close>

lemma delete_then_delete:
  assumes "ready s" and "stored s k = Some d"
  obtains s' e s'' where "blob_delete st k s = (Inr (), s')"
    and "blob_delete st k s' = (Inl e, s'')" and "blob_missing e"
proof -
  from delete_law [OF assms] obtain s' where
    s': "blob_delete st k s = (Inr (), s')" "ready s'" "stored s' k = None" by force
  from delete_missing_law [OF s'(2,3)] that s'(1) show ?thesis by blast
qed

end

end
