(* ===== verification/Filesystem_Blobs.thy ===== *)
theory Filesystem_Blobs
  imports OS_Files Regex Sha256 Blob_Port
begin

text \<open>
  The file system adapter (\<open>infrastructure/storage/filesystem.py\<close>): blobs are files under
  \<open>root/aa/bb/rest\<close>, where \<open>aabbrest\<close> is the SHA-256 of the content in hexadecimal, written
  first to a scratch file under \<open>root/tmp\<close> and moved into place.
\<close>

section \<open>Constants and messages\<close>

definition KEY_PREFIX :: pystr where
  "KEY_PREFIX = lit ''sha256:''"

definition DIGEST_PATTERN :: regex where
  "DIGEST_PATTERN = times 64 (Cls [(48, 57), (97, 102)])"

definition TMP_DIRECTORY_NAME :: pystr where
  "TMP_DIRECTORY_NAME = lit ''tmp''"

definition READ_CHUNK_SIZE :: nat where
  "READ_CHUNK_SIZE = 1024 * 1024"

definition HEALTH_PROBE_PAYLOAD :: bytes where
  "HEALTH_PROBE_PAYLOAD = bytes_lit ''wooloo''"

definition KEY_ECHO_LIMIT :: nat where
  "KEY_ECHO_LIMIT = 80"

definition BLOB_OPEN_FLAGS :: "open_flag set" where
  "BLOB_OPEN_FLAGS = {O_RDONLY, O_NOFOLLOW, O_NONBLOCK}"

definition SYMLINK_OPEN_ERRNOS :: "errno list" where
  "SYMLINK_OPEN_ERRNOS = [ELOOP, EMLINK]"

definition unknown_key_message :: "unicode_data \<Rightarrow> pystr \<Rightarrow> pystr" where
  "unknown_key_message u key =
     (if length key \<le> KEY_ECHO_LIMIT
      then lit ''unknown key: '' @ repr_str u key
      else lit ''unknown key: '' @ repr_str u (take KEY_ECHO_LIMIT key) @ lit '' (truncated)'')"

fun is_absent_blob :: "exn \<Rightarrow> bool" where
  "is_absent_blob (OSErr e) =
     (e = OSError ENOENT \<or> e = OSError ENOTDIR \<or> e = NotARegularFile
      \<or> errno_of e \<in> set SYMLINK_OPEN_ERRNOS)"
| "is_absent_blob _ = False"

section \<open>Helpers on paths\<close>

definition open_stored_blob :: "path \<Rightarrow> node os" where
  "open_stored_blob path =
     and_then (os_open_read path BLOB_OPEN_FLAGS) (\<lambda>descriptor.
     and_then
       (trying
         (and_then (os_fstat descriptor) (\<lambda>st.
            if \<not> s_isreg (st_mode st) then raising (OSErr NotARegularFile) else returning ()))
         (\<lambda>e. and_then os_close (\<lambda>_. raising e)))
     (\<lambda>_. and_then os_touch (\<lambda>_. returning descriptor)))"

definition lstat_or_none :: "path \<Rightarrow> stat_result option os" where
  "lstat_or_none path =
     trying (and_then (os_lstat path) (\<lambda>st. returning (Some st)))
       (\<lambda>e. if file_not_found e \<or> not_a_directory e then returning None else raising e)"

definition is_stored_blob :: "path \<Rightarrow> bool os" where
  "is_stored_blob path =
     trying (and_then (os_lstat path) (\<lambda>st. returning (s_isreg (st_mode st))))
       (\<lambda>e. if is_os_error e then returning False else raising e)"

definition write_and_remove_probe :: "path \<Rightarrow> unit os" where
  "write_and_remove_probe probe =
     finally_do (write_bytes probe HEALTH_PROBE_PAYLOAD) (unlink_missing_ok probe)"

section \<open>The outgoing iterator\<close>

text \<open>
  \<open>_stream_handle\<close> is an asynchronous generator over an open file: not started yet, paused
  after a chunk, or finished. The content of an open blob does not change, so the handle is
  the bytes it has still to read.
\<close>

datatype generator = Fresh bytes | Suspended bytes | Finished

definition file_bytes :: "node \<Rightarrow> bytes" where
  "file_bytes n = (case n of Regular i c m \<Rightarrow> c | _ \<Rightarrow> [])"

text \<open>
  Resume the generator: one read; the \<open>finally\<close> block closes the file when the read fails
  or returns nothing. \<open>None\<close> is \<open>StopAsyncIteration\<close>.
\<close>

definition resume_read :: "bytes \<Rightarrow> os_state \<Rightarrow> (exn + bytes option) \<times> generator \<times> os_state" where
  "resume_read rest s = (case to_thread os_touch s of
       (Inl e, s1) \<Rightarrow> (case os_close s1 of
           (Inl e', s2) \<Rightarrow> (Inl e', Finished, s2)
         | (Inr _, s2) \<Rightarrow> (Inl e, Finished, s2))
     | (Inr _, s1) \<Rightarrow>
         (let chunk = take READ_CHUNK_SIZE rest
          in if chunk \<noteq> [] then (Inr (Some chunk), Suspended (drop READ_CHUNK_SIZE rest), s1)
             else (case os_close s1 of
                 (Inl e', s2) \<Rightarrow> (Inl e', Finished, s2)
               | (Inr _, s2) \<Rightarrow> (Inr None, Finished, s2))))"

fun stream_next :: "generator \<Rightarrow> os_state \<Rightarrow> (exn + bytes option) \<times> generator \<times> os_state" where
  "stream_next (Fresh rest) s = resume_read rest s"
| "stream_next (Suspended rest) s = resume_read rest s"
| "stream_next Finished s = (Inr None, Finished, s)"

text \<open>
  \<open>aclose\<close>: a paused generator runs its \<open>finally\<close> block; one that never started has no
  frame to unwind, so its body, the \<open>finally\<close> included, does not run.
\<close>

fun stream_aclose :: "generator \<Rightarrow> os_state \<Rightarrow> (exn + unit) \<times> generator \<times> os_state" where
  "stream_aclose (Fresh rest) s = (Inr (), Finished, s)"
| "stream_aclose (Suspended rest) s = (case os_close s of (r, s1) \<Rightarrow> (r, Finished, s1))"
| "stream_aclose Finished s = (Inr (), Finished, s)"

text \<open>Iterate to the end: the chunks yielded, and how the iteration ended.\<close>

function stream_drain :: "bytes \<Rightarrow> os_state \<Rightarrow> bytes list \<times> (exn + unit) \<times> os_state" where
  "stream_drain rest s = (case resume_read rest s of
       (Inl e, g, s1) \<Rightarrow> ([], Inl e, s1)
     | (Inr None, g, s1) \<Rightarrow> ([], Inr (), s1)
     | (Inr (Some chunk), g, s1) \<Rightarrow>
         (case stream_drain (drop READ_CHUNK_SIZE rest) s1 of (cs, r, s2) \<Rightarrow> (chunk # cs, r, s2)))"
  by pat_completeness auto
termination
  by (relation "measure (\<lambda>(rest, s). length rest)")
    (auto simp: resume_read_def Let_def READ_CHUNK_SIZE_def split: prod.splits sum.splits if_splits)

declare stream_drain.simps [simp del]

section \<open>The adapter\<close>

record fs_storage =
  storage_root :: path
  tmp_directory :: path

definition filesystem_blob_storage :: "path \<Rightarrow> fs_storage" where
  "filesystem_blob_storage root =
     \<lparr>storage_root = root, tmp_directory = root @ [TMP_DIRECTORY_NAME]\<rparr>"

definition shard_path :: "fs_storage \<Rightarrow> pystr \<Rightarrow> path" where
  "shard_path self digest =
     storage_root self @ [take 2 digest, take 2 (drop 2 digest), drop 4 digest]"

definition resolve_key :: "fs_storage \<Rightarrow> pystr \<Rightarrow> path option" where
  "resolve_key self key =
     (if \<not> starts_with key KEY_PREFIX then None
      else let digest = remove_prefix key KEY_PREFIX
           in if \<not> fullmatch DIGEST_PATTERN digest then None
              else Some (shard_path self digest))"

text \<open>
  The body of the \<open>async for\<close> of \<open>_spool\<close>: hash each chunk and write it. The hasher is the
  text hashed so far. A source that fails raises in the loop's header.
\<close>

fun spool_chunks :: "nat \<Rightarrow> bytes list \<Rightarrow> exn option \<Rightarrow> bytes \<Rightarrow> bytes os" where
  "spool_chunks handle [] None digest = returning digest"
| "spool_chunks handle [] (Some e) digest = raising e"
| "spool_chunks handle (chunk # rest) err digest =
     and_then (to_thread (os_write handle chunk)) (\<lambda>_. spool_chunks handle rest err (digest @ chunk))"

definition spool :: "fs_storage \<Rightarrow> byte_stream \<Rightarrow> (path \<times> pystr) os" where
  "spool self content =
     and_then (to_thread (makedirs (tmp_directory self))) (\<lambda>_.
     and_then (to_thread (mkstemp (tmp_directory self) (lit ''.part''))) (\<lambda>(descriptor, tmp_path).
     trying
       (and_then (to_thread os_touch) (\<lambda>_.
          finally_do
            (and_then (spool_chunks descriptor (stream_chunks content) (stream_error content) [])
               (\<lambda>digest. and_then (to_thread os_touch) (\<lambda>_. and_then (to_thread os_touch) (\<lambda>_.
                 returning (tmp_path, sha256_hexdigest digest)))))
            (to_thread os_close)))
       (\<lambda>e. and_then (to_thread (unlink_missing_ok tmp_path)) (\<lambda>_. raising e))))"

definition path_str :: "path \<Rightarrow> pystr" where
  "path_str p = (if p = [] then [47] else concat (map (\<lambda>c. 47 # c) p))"

definition fs_put :: "fs_storage \<Rightarrow> byte_stream \<Rightarrow> pystr option \<Rightarrow> stored_blob os" where
  "fs_put self content content_type =
     and_then (spool self content) (\<lambda>(tmp_path, digest).
     let target = shard_path self digest in
     and_then (to_thread (lstat_or_none target)) (\<lambda>existing.
     and_then
       (case existing of
          None \<Rightarrow>
            and_then (to_thread (makedirs (butlast target))) (\<lambda>_.
            and_then (to_thread (os_lstat tmp_path)) (\<lambda>published.
            and_then (to_thread (os_rename tmp_path target)) (\<lambda>_. returning published)))
        | Some st \<Rightarrow>
            if \<not> s_isreg (st_mode st)
            then raising (Storage (StorageException (Some
                   (lit ''corrupt storage tree: '' @ path_str target
                    @ lit '' exists and is not a regular file''))))
            else and_then (to_thread (os_unlink tmp_path)) (\<lambda>_. returning st))
     (\<lambda>published. returning
        \<lparr>blob_key = KEY_PREFIX @ digest,
         blob_size = st_size published,
         blob_content_type = content_type,
         blob_created_at = st_mtime published\<rparr>)))"

definition fs_get :: "unicode_data \<Rightarrow> fs_storage \<Rightarrow> pystr \<Rightarrow> generator os" where
  "fs_get u self key = (case resolve_key self key of
       None \<Rightarrow> raising (Storage (BlobNotFound (Some (unknown_key_message u key))))
     | Some path \<Rightarrow>
         and_then
           (trying (to_thread (open_stored_blob path))
              (\<lambda>e. if is_os_error e
                   then (if \<not> is_absent_blob e then raising e
                         else raising (Storage (BlobNotFound (Some (unknown_key_message u key)))))
                   else raising e))
           (\<lambda>handle. returning (Fresh (file_bytes handle))))"

definition fs_exists :: "fs_storage \<Rightarrow> pystr \<Rightarrow> bool os" where
  "fs_exists self key = (case resolve_key self key of
       None \<Rightarrow> returning False
     | Some path \<Rightarrow> to_thread (is_stored_blob path))"

definition fs_size :: "unicode_data \<Rightarrow> fs_storage \<Rightarrow> pystr \<Rightarrow> nat os" where
  "fs_size u self key = (case resolve_key self key of
       None \<Rightarrow> raising (Storage (BlobNotFound (Some (unknown_key_message u key))))
     | Some path \<Rightarrow>
         and_then
           (trying (to_thread (os_lstat path))
              (\<lambda>e. if file_not_found e \<or> not_a_directory e
                   then raising (Storage (BlobNotFound (Some (unknown_key_message u key))))
                   else raising e))
           (\<lambda>entry. if \<not> s_isreg (st_mode entry)
                    then raising (Storage (BlobNotFound (Some (unknown_key_message u key))))
                    else returning (st_size entry)))"

definition fs_delete :: "unicode_data \<Rightarrow> fs_storage \<Rightarrow> pystr \<Rightarrow> unit os" where
  "fs_delete u self key = (case resolve_key self key of
       None \<Rightarrow> raising (Storage (BlobNotFound (Some (unknown_key_message u key))))
     | Some path \<Rightarrow>
         trying (to_thread (os_unlink path))
           (\<lambda>e. if file_not_found e \<or> not_a_directory e
                then raising (Storage (BlobNotFound (Some (unknown_key_message u key))))
                else raising e))"

text \<open>The probe's name holds a fresh \<open>uuid4().hex\<close>, an argument here.\<close>

definition fs_check_health :: "pystr \<Rightarrow> fs_storage \<Rightarrow> bool os" where
  "fs_check_health uuid_hex self =
     (let probe = storage_root self @ [lit ''.health-'' @ uuid_hex] in
      trying
        (and_then (to_thread (path_is_dir (storage_root self))) (\<lambda>d.
           if \<not> d then returning False
           else and_then (to_thread (write_and_remove_probe probe)) (\<lambda>_. returning True)))
        (\<lambda>e. if is_os_error e then returning False else raising e))"

end
