(* ===== verification/OS_Quiet.thy ===== *)
theory OS_Quiet
  imports OS_Files "HOL-Library.Sublist"
begin

text \<open>
  How the file operations behave when nothing interferes: no fault is injected, no other
  process acts, and the directories on the way to a path are real directories where they
  exist. Every lemma gives the exact result and the exact state left behind.
\<close>

lemma quiet_upd [simp]:
  "quiet (s\<lparr>tree := t\<rparr>) = quiet s"
  "quiet (s\<lparr>calls := n\<rparr>) = quiet s"
  "quiet (s\<lparr>next_temp := n\<rparr>) = quiet s"
  "quiet (s\<lparr>open_fds := n\<rparr>) = quiet s"
  by (simp_all add: quiet_def)

abbreviation ticked :: "os_state \<Rightarrow> os_state" where
  "ticked s \<equiv> s\<lparr>calls := Suc (calls s)\<rparr>"

lemma syscall_quiet [run]:
  "quiet s \<Longrightarrow> syscall f s = (case f (wall s (calls s)) (tree s) of
      Inl e \<Rightarrow> (Inl (OSErr (OSError e)), ticked s)
    | Inr (a, t') \<Rightarrow> (Inr a, (ticked s)\<lparr>tree := t'\<rparr>))"
  by (auto simp: syscall_def quiet_def Let_def split: sum.splits)

lemma to_thread_quiet [simp]: "quiet s \<Longrightarrow> to_thread f s = f s"
  by (simp add: to_thread_def quiet_def)

section \<open>Trees whose directories are real\<close>

text \<open>Whatever exists is in a directory.\<close>

definition closed :: "fs_tree \<Rightarrow> bool" where
  "closed t \<longleftrightarrow> (\<forall>p. p \<noteq> [] \<longrightarrow> t p \<noteq> None \<longrightarrow> is_dir_at t (butlast p))"

definition dirs_plain :: "fs_tree \<Rightarrow> path \<Rightarrow> bool" where
  "dirs_plain t p \<longleftrightarrow> (\<forall>q. q \<noteq> [] \<longrightarrow> prefix q p \<longrightarrow> t q = None \<or> t q = Some Directory)"

definition add_dirs :: "path \<Rightarrow> fs_tree \<Rightarrow> fs_tree" where
  "add_dirs p t = (\<lambda>q. if q \<noteq> [] \<and> prefix q p then Some Directory else t q)"

lemma closedD: "closed t \<Longrightarrow> t (p @ [c]) = Some n \<Longrightarrow> is_dir_at t p"
  unfolding closed_def by (metis butlast_append_singleton option.distinct(1) snoc_eq_iff_butlast)

lemma closed_prefixes:
  "closed t \<Longrightarrow> is_dir_at t p \<Longrightarrow> prefix q p \<Longrightarrow> is_dir_at t q"
proof (induction p rule: rev_induct)
  case Nil
  then show ?case by simp
next
  case (snoc c p)
  then have "t (p @ [c]) = Some Directory" by (simp add: is_dir_at_def)
  with snoc.prems(1) have "is_dir_at t p" by (rule closedD)
  with snoc show ?case by (auto simp: prefix_snoc)
qed

lemma dirs_plain_prefix: "dirs_plain t p \<Longrightarrow> prefix q p \<Longrightarrow> dirs_plain t q"
  unfolding dirs_plain_def using prefix_order.trans by blast

lemma dirs_plain_butlast: "dirs_plain t p \<Longrightarrow> dirs_plain t (butlast p)"
  by (erule dirs_plain_prefix) (rule prefixeq_butlast)

lemma dirs_plain_here: "dirs_plain t p \<Longrightarrow> is_dir_at t p \<or> t p = None"
  by (cases "p = []") (auto simp: dirs_plain_def is_dir_at_def)

lemma resolve_dirs:
  "(\<And>q. q \<noteq> [] \<Longrightarrow> prefix q rest \<Longrightarrow> t (cur @ q) = Some Directory) \<Longrightarrow>
   resolve f t cur rest = Inr (cur @ rest)"
proof (induction rest arbitrary: cur)
  case Nil
  then show ?case by simp
next
  case (Cons c cs)
  from Cons.prems [of "[c]"] have "t (cur @ [c]) = Some Directory" by simp
  moreover have "resolve f t (cur @ [c]) cs = Inr ((cur @ [c]) @ cs)"
  proof (rule Cons.IH)
    fix q assume "q \<noteq> []" and "prefix q cs"
    then show "t ((cur @ [c]) @ q) = Some Directory" using Cons.prems [of "c # q"] by simp
  qed
  ultimately show ?case by simp
qed

lemma resolve_missing:
  "(\<And>q. q \<noteq> [] \<Longrightarrow> prefix q rest \<Longrightarrow> t (cur @ q) = None \<or> t (cur @ q) = Some Directory) \<Longrightarrow>
   rest \<noteq> [] \<Longrightarrow> t (cur @ rest) = None \<Longrightarrow> resolve f t cur rest = Inl ENOENT"
proof (induction rest arbitrary: cur)
  case Nil
  then show ?case by simp
next
  case (Cons c cs)
  from Cons.prems(1) [of "[c]"] consider "t (cur @ [c]) = None" | "t (cur @ [c]) = Some Directory"
    by auto
  then show ?case
  proof cases
    case 1
    then show ?thesis by simp
  next
    case 2
    with Cons.prems(3) have "cs \<noteq> []" by auto
    moreover have "t ((cur @ [c]) @ q) = None \<or> t ((cur @ [c]) @ q) = Some Directory"
      if "q \<noteq> []" "prefix q cs" for q
      using that Cons.prems(1) [of "c # q"] by simp
    ultimately show ?thesis using 2 Cons.IH [of "cur @ [c]"] Cons.prems(3) by simp
  qed
qed

lemma resolve_plain:
  assumes "closed t" and "dirs_plain t p"
  shows "resolve f t [] p = (if is_dir_at t p then Inr p else Inl ENOENT)"
proof (cases "is_dir_at t p")
  case True
  have "t q = Some Directory" if "q \<noteq> []" "prefix q p" for q
    using closed_prefixes [OF assms(1) True that(2)] that(1) by (simp add: is_dir_at_def)
  then show ?thesis using True resolve_dirs [of p t "[]" f] by simp
next
  case False
  with assms(2) have "t p = None" and "p \<noteq> []"
    using dirs_plain_here by (auto simp: is_dir_at_def)
  with False assms(2) show ?thesis
    using resolve_missing [of p t "[]" f] by (simp add: dirs_plain_def)
qed

lemma locate_plain:
  assumes "closed t" and "dirs_plain t (butlast p)" and "p \<noteq> []"
  shows "locate t p = (if is_dir_at t (butlast p) then Inr p else Inl ENOENT)"
  using resolve_plain [OF assms(1,2), of max_symlinks] assms(3) by (simp add: locate_def)

lemma locate_root [simp]: "locate t [] = Inr []"
  by (simp add: locate_def)

lemma lookup_plain:
  assumes "closed t" and "dirs_plain t (butlast p)" and "p \<noteq> []"
  shows "lookup t p = (case t p of None \<Rightarrow> Inl ENOENT | Some n \<Rightarrow> Inr n)"
proof (cases "is_dir_at t (butlast p)")
  case True
  with locate_plain [OF assms] assms(3) show ?thesis
    by (simp add: lookup_def node_at_def)
next
  case False
  with assms have "t p = None" by (metis closed_def)
  with False locate_plain [OF assms] show ?thesis by (simp add: lookup_def)
qed

lemma locate_follow_plain:
  assumes "closed t" and "dirs_plain t p"
  shows "locate_follow f t p = (if p = [] \<or> is_dir_at t (butlast p) then Inr p else Inl ENOENT)"
proof (cases "p = []")
  case True
  then show ?thesis by (cases f) (simp_all add: node_at_def)
next
  case False
  then have "\<nexists>l. t p = Some (Symlink l)"
    using dirs_plain_here [OF assms(2)] by (auto simp: is_dir_at_def)
  with False locate_plain [OF assms(1) dirs_plain_butlast [OF assms(2)] False] show ?thesis
    by (cases f) (auto simp: node_at_def split: option.splits node.splits)
qed

section \<open>Making directories\<close>

lemma add_dirs_Nil [simp]: "add_dirs [] t = t"
  by (auto simp: add_dirs_def)

lemma add_dirs_other: "\<not> prefix q p \<Longrightarrow> add_dirs p t q = t q"
  by (simp add: add_dirs_def)

lemma add_dirs_same: "closed t \<Longrightarrow> is_dir_at t p \<Longrightarrow> add_dirs p t = t"
  using closed_prefixes by (fastforce simp: add_dirs_def is_dir_at_def)

lemma is_dir_at_add_dirs [simp]: "is_dir_at (add_dirs p t) p"
  by (simp add: is_dir_at_def add_dirs_def)

lemma is_dir_at_add_dirs_mono: "is_dir_at t q \<Longrightarrow> is_dir_at (add_dirs p t) q"
  by (simp add: is_dir_at_def add_dirs_def)

lemma add_dirs_snoc: "add_dirs (p @ [c]) t = (add_dirs p t)(p @ [c] \<mapsto> Directory)"
  by (auto simp: add_dirs_def prefix_snoc)

lemma add_dirs_Regular:
  "dirs_plain t p \<Longrightarrow> add_dirs p t q = Some (Regular i c m) \<longleftrightarrow> t q = Some (Regular i c m)"
  by (auto simp: add_dirs_def dirs_plain_def)

lemma dirs_plain_add_dirs: "dirs_plain t q \<Longrightarrow> dirs_plain (add_dirs p t) q"
  by (simp add: dirs_plain_def add_dirs_def)

lemma closed_add_dirs:
  assumes "closed t"
  shows "closed (add_dirs p t)"
  unfolding closed_def
proof (intro allI impI)
  fix q assume q: "q \<noteq> []" "add_dirs p t q \<noteq> None"
  show "is_dir_at (add_dirs p t) (butlast q)"
  proof (cases "prefix q p")
    case True
    then have "prefix (butlast q) p" by (meson prefix_order.trans prefixeq_butlast)
    then show ?thesis by (simp add: is_dir_at_def add_dirs_def)
  next
    case False
    with q assms have "is_dir_at t (butlast q)" by (simp add: add_dirs_def closed_def)
    then show ?thesis by (rule is_dir_at_add_dirs_mono)
  qed
qed

lemma path_exists_quiet:
  assumes "quiet s" and "closed (tree s)" and "dirs_plain (tree s) p"
  shows "path_exists p s = (Inr (is_dir_at (tree s) p), ticked s)"
proof (cases "p = []")
  case True
  with assms show ?thesis
    by (simp add: path_exists_def stat_follow_def trying_def and_then_def syscall_quiet
        locate_follow_plain node_at_def is_dir_at_def)
next
  case False
  have "is_dir_at (tree s) (butlast p)" if "tree s p \<noteq> None"
    using that False assms(2) by (simp add: closed_def)
  then show ?thesis
    using False assms dirs_plain_here [OF assms(3)]
    by (auto simp: path_exists_def stat_follow_def trying_def and_then_def syscall_quiet
        locate_follow_plain node_at_def is_dir_at_def split: option.splits)
qed

lemma path_is_dir_quiet:
  assumes "quiet s" and "closed (tree s)" and "dirs_plain (tree s) p"
  shows "path_is_dir p s = (Inr (is_dir_at (tree s) p), ticked s)"
proof (cases "p = []")
  case True
  with assms show ?thesis
    by (simp add: path_is_dir_def stat_follow_def trying_def and_then_def syscall_quiet
        locate_follow_plain node_at_def is_dir_at_def)
next
  case False
  have "is_dir_at (tree s) (butlast p)" if "tree s p \<noteq> None"
    using that False assms(2) by (simp add: closed_def)
  then show ?thesis
    using False assms dirs_plain_here [OF assms(3)]
    by (auto simp: path_is_dir_def stat_follow_def trying_def and_then_def syscall_quiet
        locate_follow_plain node_at_def is_dir_at_def split: option.splits)
qed

text \<open>\<open>mkdir\<close>, and what \<open>makedirs\<close> does with its error, once the parent is there.\<close>

definition mkdir_or_there :: "path \<Rightarrow> unit os" where
  "mkdir_or_there p = trying (os_mkdir p)
     (\<lambda>e. and_then (path_is_dir p) (\<lambda>d. if d then returning () else raising e))"

lemma mkdir_or_there_quiet:
  assumes "quiet s" and "closed (tree s)" and "dirs_plain (tree s) p" and "is_dir_at (tree s) (butlast p)"
  shows "\<exists>n\<ge>calls s. mkdir_or_there p s =
    (Inr (), s\<lparr>tree := if is_dir_at (tree s) p then tree s else (tree s)(p \<mapsto> Directory), calls := n\<rparr>)"
proof (cases "is_dir_at (tree s) p")
  case True
  have "locate (tree s) p = Inr p"
    using assms locate_plain [of "tree s" p] dirs_plain_butlast by (cases "p = []") auto
  moreover have "node_at (tree s) p = Some Directory"
    using True by (auto simp: node_at_def is_dir_at_def)
  ultimately have "os_mkdir p s = (Inl (OSErr (OSError EEXIST)), ticked s)"
    by (simp add: os_mkdir_def syscall_quiet assms(1))
  moreover have "path_is_dir p (ticked s) = (Inr True, ticked (ticked s))"
    using path_is_dir_quiet [of "ticked s" p] assms True by simp
  ultimately have "mkdir_or_there p s = (Inr (), s\<lparr>tree := tree s, calls := Suc (Suc (calls s))\<rparr>)"
    by (simp add: mkdir_or_there_def trying_def and_then_def)
  with True show ?thesis by (intro exI [of _ "Suc (Suc (calls s))"]) simp
next
  case False
  then have p: "p \<noteq> []" by (auto simp: is_dir_at_def)
  have "locate (tree s) p = Inr p"
    using assms p locate_plain [of "tree s" p] dirs_plain_butlast by auto
  moreover have "node_at (tree s) p = None"
    using False p dirs_plain_here [OF assms(3)] by (auto simp: node_at_def)
  ultimately have "os_mkdir p s = (Inr (), s\<lparr>tree := (tree s)(p \<mapsto> Directory), calls := Suc (calls s)\<rparr>)"
    by (simp add: os_mkdir_def syscall_quiet assms(1))
  with False show ?thesis
    by (intro exI [of _ "Suc (calls s)"]) (simp add: mkdir_or_there_def trying_def)
qed

lemma makedirs_rev_quiet:
  "quiet s \<Longrightarrow> closed (tree s) \<Longrightarrow> dirs_plain (tree s) (rev rs) \<Longrightarrow>
   \<exists>n\<ge>calls s. makedirs_rev rs s = (Inr (), s\<lparr>tree := add_dirs (rev rs) (tree s), calls := n\<rparr>)"
proof (induction rs arbitrary: s)
  case Nil
  then show ?case
    using mkdir_or_there_quiet [of s "[]"] by (simp add: is_dir_at_def mkdir_or_there_def)
next
  case (Cons c rs)
  let ?parent = "rev rs" and ?p = "rev rs @ [c]" and ?t = "add_dirs (rev rs) (tree s)"
  from Cons.prems have parent: "dirs_plain (tree s) ?parent"
    using dirs_plain_prefix by fastforce
  have ex: "path_exists ?parent s = (Inr (is_dir_at (tree s) ?parent), ticked s)"
    using Cons.prems parent by (intro path_exists_quiet)
  have "\<exists>n\<ge>calls s. and_then (path_exists ?parent) (\<lambda>there.
      if there then returning ()
      else trying (makedirs_rev rs)
             (\<lambda>e. if file_exists_error e then returning () else raising e)) s
    = (Inr (), s\<lparr>tree := ?t, calls := n\<rparr>)"
  proof (cases "is_dir_at (tree s) ?parent")
    case True
    then have "?t = tree s" using Cons.prems add_dirs_same by blast
    with True ex show ?thesis by (intro exI [of _ "Suc (calls s)"]) (simp add: and_then_def)
  next
    case False
    from Cons.IH [of "ticked s"] Cons.prems parent obtain n where
      "n \<ge> Suc (calls s)" and "makedirs_rev rs (ticked s) = (Inr (), s\<lparr>tree := ?t, calls := n\<rparr>)"
      by auto
    with False ex show ?thesis by (intro exI [of _ n]) (simp add: and_then_def trying_def)
  qed
  then obtain n where n: "n \<ge> calls s" and first: "and_then (path_exists ?parent) (\<lambda>there.
      if there then returning ()
      else trying (makedirs_rev rs)
             (\<lambda>e. if file_exists_error e then returning () else raising e)) s
    = (Inr (), s\<lparr>tree := ?t, calls := n\<rparr>)" by blast
  have closed: "closed ?t" and plain: "dirs_plain ?t ?p"
    using Cons.prems by (auto intro: closed_add_dirs dirs_plain_add_dirs)
  from mkdir_or_there_quiet [of "s\<lparr>tree := ?t, calls := n\<rparr>" ?p] Cons.prems(1) closed plain
  obtain m where m: "m \<ge> n" and second: "mkdir_or_there ?p (s\<lparr>tree := ?t, calls := n\<rparr>) =
      (Inr (), s\<lparr>tree := if is_dir_at ?t ?p then ?t else ?t(?p \<mapsto> Directory), calls := m\<rparr>)"
    by auto
  have "(if is_dir_at ?t ?p then ?t else ?t(?p \<mapsto> Directory)) = add_dirs ?p (tree s)"
    by (auto simp: add_dirs_snoc is_dir_at_def)
  with first second n m show ?case
    by (intro exI [of _ m]) (simp add: mkdir_or_there_def and_then_def)
qed

lemma makedirs_quiet:
  assumes "quiet s" and "closed (tree s)" and "dirs_plain (tree s) p"
  obtains n where "n \<ge> calls s" and "makedirs p s = (Inr (), s\<lparr>tree := add_dirs p (tree s), calls := n\<rparr>)"
  using makedirs_rev_quiet [of s "rev p"] assms by (auto simp: makedirs_def)

section \<open>Scratch files\<close>

definition temp_file :: "pystr \<Rightarrow> pystr \<Rightarrow> pystr" where
  "temp_file name suf = lit ''tmp'' @ name @ suf"

lemma mkstemp_try_first:
  "os_create_excl (dir @ [temp_file (temp_names s (next_temp s)) suf])
     (s\<lparr>next_temp := Suc (next_temp s)\<rparr>) = (Inr ino, s') \<Longrightarrow>
   mkstemp dir suf s = (Inr (ino, dir @ [temp_file (temp_names s (next_temp s)) suf]), s')"
  by (simp add: mkstemp_def tmp_max_def eval_nat_numeral and_then_def take_temp_name_def
      trying_def temp_file_def Let_def)

lemma mkstemp_quiet:
  assumes "quiet s" and "closed (tree s)" and "dirs_plain (tree s) dir" and "is_dir_at (tree s) dir"
    and fresh: "tree s (dir @ [temp_file (temp_names s (next_temp s)) suf]) = None"
  shows "mkstemp dir suf s =
    (let file = dir @ [temp_file (temp_names s (next_temp s)) suf]
     in (Inr (calls s, file),
         s\<lparr>tree := (tree s)(file \<mapsto> Regular (calls s) [] (wall s (calls s))), calls := Suc (calls s),
           next_temp := Suc (next_temp s), open_fds := Suc (open_fds s)\<rparr>))"
proof -
  let ?file = "dir @ [temp_file (temp_names s (next_temp s)) suf]"
  have loc: "locate (tree s) ?file = Inr ?file"
    using assms locate_plain [of "tree s" ?file] by simp
  have "os_create_excl ?file (s\<lparr>next_temp := Suc (next_temp s)\<rparr>) =
      (Inr (calls s), s\<lparr>tree := (tree s)(?file \<mapsto> Regular (calls s) [] (wall s (calls s))),
         calls := Suc (calls s), next_temp := Suc (next_temp s), open_fds := Suc (open_fds s)\<rparr>)"
    using loc fresh assms(1) by (simp add: os_create_excl_def and_then_def syscall_quiet node_at_def)
  then show ?thesis
    unfolding Let_def by (rule mkstemp_try_first)
qed

text \<open>No other name has the file's inode.\<close>

definition sole_inode :: "fs_tree \<Rightarrow> path \<Rightarrow> nat \<Rightarrow> bool" where
  "sole_inode t p ino \<longleftrightarrow> (\<forall>q c m. t q = Some (Regular ino c m) \<longrightarrow> q = p)"

lemma write_inode_sole:
  "sole_inode t p ino \<Longrightarrow> t p = Some (Regular ino c m) \<Longrightarrow>
   write_inode ino bs time t = t(p \<mapsto> Regular ino (c @ bs) time)"
  by (auto simp: write_inode_def sole_inode_def fun_eq_iff split: option.splits node.splits)

lemma sole_inode_upd: "sole_inode t p ino \<Longrightarrow> sole_inode (t(p \<mapsto> n)) p ino"
  by (simp add: sole_inode_def)

lemma os_unlink_quiet:
  assumes "quiet s" and "closed (tree s)" and "dirs_plain (tree s) (butlast p)"
    and "tree s p = Some n" and "n \<noteq> Directory" and "p \<noteq> []"
  shows "os_unlink p s = (Inr (), s\<lparr>tree := (tree s)(p := None), calls := Suc (calls s)\<rparr>)"
proof -
  have "is_dir_at (tree s) (butlast p)" using assms(2,4,6) by (simp add: closed_def)
  then have "locate (tree s) p = Inr p" using assms locate_plain by auto
  then show ?thesis
    using assms by (cases n) (simp_all add: os_unlink_def syscall_quiet node_at_def)
qed

lemma os_unlink_missing_quiet:
  assumes "quiet s" and "closed (tree s)" and "dirs_plain (tree s) (butlast p)"
    and "tree s p = None" and "p \<noteq> []"
  shows "os_unlink p s = (Inl (OSErr (OSError ENOENT)), ticked s)"
  using assms locate_plain [of "tree s" p]
  by (auto simp: os_unlink_def syscall_quiet node_at_def)

lemma os_lstat_quiet:
  assumes "quiet s" and "closed (tree s)" and "dirs_plain (tree s) (butlast p)" and "p \<noteq> []"
  shows "os_lstat p s = (case tree s p of
      None \<Rightarrow> (Inl (OSErr (OSError ENOENT)), ticked s)
    | Some n \<Rightarrow> (Inr (stat_of n), ticked s))"
  using assms lookup_plain [of "tree s" p]
  by (simp add: os_lstat_def syscall_quiet split: option.splits)

lemma os_rename_quiet:
  assumes "quiet s" and "closed (tree s)" and "dirs_plain (tree s) (butlast src)"
    and "dirs_plain (tree s) (butlast dst)" and "src \<noteq> []" and "dst \<noteq> []"
    and "tree s src = Some (Regular i c m)" and "is_dir_at (tree s) (butlast dst)"
    and "tree s dst \<noteq> Some Directory"
  shows "os_rename src dst s =
    (Inr (), s\<lparr>tree := ((tree s)(src := None))(dst \<mapsto> Regular i c m), calls := Suc (calls s)\<rparr>)"
proof -
  have "is_dir_at (tree s) (butlast src)" using assms(2,5,7) by (simp add: closed_def)
  then have "locate (tree s) src = Inr src" and "locate (tree s) dst = Inr dst"
    using assms locate_plain by auto
  then show ?thesis
    using assms by (simp add: os_rename_def syscall_quiet node_at_def)
qed

lemma os_touch_quiet: "quiet s \<Longrightarrow> os_touch s = (Inr (), ticked s)"
  by (simp add: os_touch_def syscall_quiet)

lemma os_close_quiet:
  "quiet s \<Longrightarrow> os_close s = (Inr (), s\<lparr>calls := Suc (calls s), open_fds := open_fds s - 1\<rparr>)"
  by (simp add: os_close_def os_touch_quiet)

lemma os_fstat_quiet: "quiet s \<Longrightarrow> os_fstat n s = (Inr (stat_of n), ticked s)"
  by (simp add: os_fstat_def syscall_quiet)

lemma os_open_read_quiet:
  assumes "quiet s" and "closed (tree s)" and "dirs_plain (tree s) (butlast p)" and "p \<noteq> []" and "O_NOFOLLOW \<in> flags"
  shows "os_open_read p flags s = (case tree s p of
      None \<Rightarrow> (Inl (OSErr (OSError ENOENT)), ticked s)
    | Some (Symlink l) \<Rightarrow> (Inl (OSErr (OSError ELOOP)), ticked s)
    | Some n \<Rightarrow> (Inr n, s\<lparr>calls := Suc (calls s), open_fds := Suc (open_fds s)\<rparr>))"
  using assms lookup_plain [of "tree s" p]
  by (simp add: os_open_read_def open_target_def and_then_def syscall_quiet split: option.splits node.splits)

end
