(* ===== verification/Filesystem_Laws.thy ===== *)
theory Filesystem_Laws
  imports Filesystem_Blobs OS_Quiet
begin

text \<open>
  The adapter keeps its tree intact and implements the port's contract: the invariant of the
  blob tree, its preservation by every step of the operations, and the interpretation of
  \<open>blob_contract\<close> on the adapter.
\<close>

section \<open>Keys and shard paths\<close>

definition hex64 :: "pystr \<Rightarrow> bool" where
  "hex64 d \<longleftrightarrow> length d = 64 \<and> (\<forall>c\<in>set d. is_hex c)"

lemma hex64_sha256 [simp]: "hex64 (sha256_hexdigest bs)"
  by (simp add: hex64_def length_sha256_hexdigest sha256_hexdigest_hex)

lemma fullmatch_DIGEST [simp]: "fullmatch DIGEST_PATTERN d \<longleftrightarrow> hex64 d"
  by (auto simp: DIGEST_PATTERN_def fullmatch_iff matches_times_Cls hex64_def in_class_def
      is_hex_def is_digit_def)

abbreviation adapter :: "path \<Rightarrow> fs_storage" where
  "adapter root \<equiv> filesystem_blob_storage root"

lemma adapter_simps [simp]:
  "storage_root (adapter root) = root"
  "tmp_directory (adapter root) = root @ [TMP_DIRECTORY_NAME]"
  by (simp_all add: filesystem_blob_storage_def)

lemma starts_with_append [simp]: "starts_with (p @ s) p"
  by (simp add: starts_with_def)

lemma remove_prefix_append [simp]: "remove_prefix (p @ s) p = s"
  by (simp add: remove_prefix_def)

lemma starts_withE: "starts_with k p \<Longrightarrow> k = p @ remove_prefix k p"
  unfolding starts_with_def remove_prefix_def by (metis append_take_drop_id)

lemma resolve_key_digest [simp]:
  "resolve_key (adapter root) (KEY_PREFIX @ d) =
     (if hex64 d then Some (shard_path (adapter root) d) else None)"
  by (simp add: resolve_key_def Let_def)

lemma resolve_key_Some:
  "resolve_key (adapter root) k = Some p \<Longrightarrow>
   \<exists>d. k = KEY_PREFIX @ d \<and> hex64 d \<and> p = shard_path (adapter root) d"
  by (auto simp: resolve_key_def Let_def split: if_splits dest: starts_withE)

lemma shard_path_root:
  "shard_path (adapter root) d = root @ [take 2 d, take 2 (drop 2 d), drop 4 d]"
  by (simp add: shard_path_def)

lemma shard_path_inj:
  assumes "shard_path (adapter root) d = shard_path (adapter root) d'"
  shows "d = d'"
proof -
  have d: "take 2 e @ take 2 (drop 2 e) @ drop 4 e = e" for e :: pystr
    by (metis append_take_drop_id drop_drop numeral_Bit0)
  from assms have "take 2 d = take 2 d'" "take 2 (drop 2 d) = take 2 (drop 2 d')" "drop 4 d = drop 4 d'"
    by (simp_all add: shard_path_root)
  then show ?thesis by (metis d)
qed

lemma shard_path_not_Nil [simp]: "shard_path (adapter root) d \<noteq> []"
  by (simp add: shard_path_root)

definition shard_dir :: "path \<Rightarrow> pystr \<Rightarrow> path" where
  "shard_dir root d = root @ [take 2 d, take 2 (drop 2 d)]"

lemma butlast_shard_path [simp]: "butlast (shard_path (adapter root) d) = shard_dir root d"
  by (simp add: shard_path_root shard_dir_def butlast_append)

definition tmp_dir :: "path \<Rightarrow> path" where
  "tmp_dir root = root @ [TMP_DIRECTORY_NAME]"

definition scratch :: "path \<Rightarrow> os_state \<Rightarrow> nat \<Rightarrow> path" where
  "scratch root s n = tmp_dir root @ [temp_file (temp_names s n) (lit ''.part'')]"

lemma length_tmp_name [simp]: "length TMP_DIRECTORY_NAME = 3"
  by (simp add: TMP_DIRECTORY_NAME_def)

lemma tmp_child_not_shard_dir [simp]:
  "hex64 d \<Longrightarrow> shard_dir root d \<noteq> tmp_dir root @ [x]"
  by (auto simp: shard_dir_def tmp_dir_def hex64_def dest: arg_cong [of _ _ length])

lemma tmp_child_not_shard [simp]:
  "shard_path (adapter root) d \<noteq> tmp_dir root @ [x]" "tmp_dir root @ [x] \<noteq> shard_path (adapter root) d"
  by (simp_all add: shard_path_root tmp_dir_def)

text \<open>A path one step below \<open>p\<close> is on the way to \<open>q\<close> only if it is \<open>q\<close> or longer.\<close>

lemma tmp_child_not_prefix:
  "\<not> prefix (tmp_dir root @ [x]) (tmp_dir root)"
  "hex64 d \<Longrightarrow> \<not> prefix (tmp_dir root @ [x]) (shard_dir root d)"
  using prefix_length_le [of "tmp_dir root @ [x]"] tmp_child_not_shard_dir [of d root x]
  by (force simp: tmp_dir_def shard_dir_def prefix_def)+

lemma shard_not_prefix:
  "\<not> prefix (shard_path (adapter root) d) (tmp_dir root)"
  "\<not> prefix (shard_path (adapter root) d) (shard_dir root d')"
  using prefix_length_le [of "shard_path (adapter root) d"]
  by (force simp: tmp_dir_def shard_dir_def shard_path_root)+

lemma tmp_child_not_prefix_of_parent:
  "\<not> prefix (tmp_dir root @ [x]) (tmp_dir root)" "tmp_dir root \<noteq> []"
  using tmp_child_not_prefix by (simp_all add: tmp_dir_def)

section \<open>The invariant of the tree\<close>

text \<open>
  The directories the adapter uses are real directories where they exist, and at a digest's
  path there is nothing or a regular file whose content has that digest.
\<close>

definition blob_ok :: "node option \<Rightarrow> pystr \<Rightarrow> bool" where
  "blob_ok n d = (case n of None \<Rightarrow> True | Some (Regular i c m) \<Rightarrow> sha256_hexdigest c = d | _ \<Rightarrow> False)"

definition tree_ok :: "path \<Rightarrow> fs_tree \<Rightarrow> bool" where
  "tree_ok root t \<longleftrightarrow> closed t \<and> dirs_plain t (tmp_dir root)
     \<and> (\<forall>d. hex64 d \<longrightarrow> dirs_plain t (shard_dir root d) \<and> blob_ok (t (shard_path (adapter root) d)) d)"

lemma tree_okD:
  assumes "tree_ok root t"
  shows "closed t" and "dirs_plain t (tmp_dir root)"
    and "hex64 d \<Longrightarrow> dirs_plain t (shard_dir root d)"
    and "hex64 d \<Longrightarrow> blob_ok (t (shard_path (adapter root) d)) d"
  using assms by (simp_all add: tree_ok_def)

lemma closed_upd:
  assumes "closed t" and "p \<noteq> []" and "t p \<noteq> Some Directory" and "n = None \<or> is_dir_at t (butlast p)"
  shows "closed (t(p := n))"
  unfolding closed_def
proof (intro allI impI)
  fix q assume q: "q \<noteq> []" "(t(p := n)) q \<noteq> None"
  have other: "is_dir_at (t(p := n)) r" if "is_dir_at t r" for r
    using that assms(3) by (auto simp: is_dir_at_def)
  show "is_dir_at (t(p := n)) (butlast q)"
    using q assms by (cases "q = p") (auto simp: closed_def intro!: other)
qed

lemma dirs_plain_upd: "dirs_plain t q \<Longrightarrow> \<not> prefix p q \<Longrightarrow> dirs_plain (t(p := n)) q"
  by (auto simp: dirs_plain_def)

lemma tree_ok_add_dirs:
  assumes "tree_ok root t" and "p = tmp_dir root \<or> (\<exists>d. hex64 d \<and> p = shard_dir root d)"
  shows "tree_ok root (add_dirs p t)"
proof -
  have "add_dirs p t (shard_path (adapter root) d) = t (shard_path (adapter root) d)" for d
    using assms(2) shard_not_prefix by (auto intro: add_dirs_other)
  with assms(1) show ?thesis
    by (simp add: tree_ok_def closed_add_dirs dirs_plain_add_dirs)
qed

lemma tree_ok_scratch:
  assumes "tree_ok root t" and "t (tmp_dir root @ [x]) \<noteq> Some Directory"
    and "n = None \<or> is_dir_at t (tmp_dir root)"
  shows "tree_ok root (t(tmp_dir root @ [x] := n))"
  using assms tmp_child_not_prefix [where root = root and x = x]
  by (auto simp: tree_ok_def intro!: closed_upd dirs_plain_upd)

lemma tree_ok_blob:
  assumes "tree_ok root t" and "hex64 d" and "blob_ok n d" and "n = None \<or> is_dir_at t (shard_dir root d)"
  shows "tree_ok root (t(shard_path (adapter root) d := n))"
proof -
  have "t (shard_path (adapter root) d) \<noteq> Some Directory"
    using assms(1,2) by (auto simp: tree_ok_def blob_ok_def)
  with assms shard_not_prefix [where root = root and d = d] shard_path_inj [where root = root] show ?thesis
    by (auto simp: tree_ok_def intro!: closed_upd dirs_plain_upd)
qed

section \<open>The states the adapter is specified on\<close>

definition fs_ready :: "path \<Rightarrow> os_state \<Rightarrow> bool" where
  "fs_ready root s \<longleftrightarrow> quiet s \<and> tree_ok root (tree s)
     \<and> (\<forall>n\<ge>next_temp s. tree s (scratch root s n) = None)
     \<and> (\<forall>p i c m. tree s p = Some (Regular i c m) \<longrightarrow> i < calls s)"

definition tree_stored :: "path \<Rightarrow> fs_tree \<Rightarrow> pystr \<Rightarrow> bytes option" where
  "tree_stored root t k = (case resolve_key (adapter root) k of
       None \<Rightarrow> None
     | Some p \<Rightarrow> (case t p of Some (Regular i c m) \<Rightarrow> Some c | _ \<Rightarrow> None))"

abbreviation fs_stored :: "path \<Rightarrow> os_state \<Rightarrow> pystr \<Rightarrow> bytes option" where
  "fs_stored root s \<equiv> tree_stored root (tree s)"

lemma tree_stored_eqI:
  assumes "\<And>d. hex64 d \<Longrightarrow> t' (shard_path (adapter root) d) = t (shard_path (adapter root) d)"
  shows "tree_stored root t' = tree_stored root t"
  using assms resolve_key_Some
  by (fastforce simp: tree_stored_def fun_eq_iff split: option.splits)

lemma tree_stored_add_dirs:
  assumes "p = tmp_dir root \<or> (\<exists>d. p = shard_dir root d)"
  shows "tree_stored root (add_dirs p t) = tree_stored root t"
  using assms shard_not_prefix by (intro tree_stored_eqI add_dirs_other) auto

lemma tree_stored_scratch: "tree_stored root (t(tmp_dir root @ [x] := n)) = tree_stored root t"
  by (intro tree_stored_eqI) auto

lemma tree_stored_blob:
  assumes "hex64 d"
  shows "tree_stored root (t(shard_path (adapter root) d := n)) =
    (tree_stored root t)(KEY_PREFIX @ d :=
       (case n of Some (Regular i c m) \<Rightarrow> Some c | _ \<Rightarrow> None))"
proof
  fix k
  show "tree_stored root (t(shard_path (adapter root) d := n)) k =
    ((tree_stored root t)(KEY_PREFIX @ d :=
       (case n of Some (Regular i c m) \<Rightarrow> Some c | _ \<Rightarrow> None))) k"
  proof (cases "k = KEY_PREFIX @ d")
    case True
    with assms show ?thesis by (simp add: tree_stored_def)
  next
    case False
    then show ?thesis
      using resolve_key_Some [of root k] shard_path_inj [where root = root]
      by (auto simp: tree_stored_def split: option.splits)
  qed
qed

section \<open>Spooling\<close>

lemma spool_chunks_quiet:
  "quiet s \<Longrightarrow> tree s file = Some (Regular ino d0 m) \<Longrightarrow> sole_inode (tree s) file ino \<Longrightarrow>
   \<exists>n\<ge>calls s. \<exists>m'. spool_chunks ino cs err digest s =
     ((case err of None \<Rightarrow> Inr (digest @ concat cs) | Some e \<Rightarrow> Inl e),
      s\<lparr>tree := (tree s)(file \<mapsto> Regular ino (d0 @ concat cs) m'), calls := n\<rparr>)"
proof (induction cs arbitrary: s d0 m digest)
  case Nil
  then have "s = s\<lparr>tree := (tree s)(file \<mapsto> Regular ino (d0 @ concat []) m), calls := calls s\<rparr>"
    by (simp add: fun_upd_idem)
  then have "spool_chunks ino [] err digest s =
     ((case err of None \<Rightarrow> Inr (digest @ concat []) | Some e \<Rightarrow> Inl e),
      s\<lparr>tree := (tree s)(file \<mapsto> Regular ino (d0 @ concat []) m), calls := calls s\<rparr>)"
    by (cases err) simp_all
  then show ?case by blast
next
  case (Cons chunk cs)
  let ?t = "(tree s)(file \<mapsto> Regular ino (d0 @ chunk) (wall s (calls s)))"
  let ?s = "s\<lparr>tree := ?t, calls := Suc (calls s)\<rparr>"
  have wr: "os_write ino chunk s = (Inr (), ?s)"
    using Cons.prems by (simp add: os_write_def syscall_quiet write_inode_sole)
  have "\<exists>n\<ge>calls ?s. \<exists>m'. spool_chunks ino cs err (digest @ chunk) ?s =
      ((case err of None \<Rightarrow> Inr ((digest @ chunk) @ concat cs) | Some e \<Rightarrow> Inl e),
       ?s\<lparr>tree := (tree ?s)(file \<mapsto> Regular ino ((d0 @ chunk) @ concat cs) m'), calls := n\<rparr>)"
  proof (rule Cons.IH)
    show "quiet ?s" using Cons.prems(1) by simp
    show "tree ?s file = Some (Regular ino (d0 @ chunk) (wall s (calls s)))" by simp
    show "sole_inode (tree ?s) file ino" using sole_inode_upd [OF Cons.prems(3)] by simp
  qed
  then obtain n m' where n: "n \<ge> calls ?s" and rest: "spool_chunks ino cs err (digest @ chunk) ?s =
      ((case err of None \<Rightarrow> Inr ((digest @ chunk) @ concat cs) | Some e \<Rightarrow> Inl e),
       ?s\<lparr>tree := (tree ?s)(file \<mapsto> Regular ino ((d0 @ chunk) @ concat cs) m'), calls := n\<rparr>)"
    by blast
  have "spool_chunks ino (chunk # cs) err digest s =
      ((case err of None \<Rightarrow> Inr (digest @ concat (chunk # cs)) | Some e \<Rightarrow> Inl e),
       s\<lparr>tree := (tree s)(file \<mapsto> Regular ino (d0 @ concat (chunk # cs)) m'), calls := n\<rparr>)"
    using Cons.prems(1) by (simp add: and_then_def wr rest split: option.split)
  moreover have "n \<ge> calls s" using n by simp
  ultimately show ?case by blast
qed

text \<open>
  Up to the writing of the scratch file: the \<open>tmp\<close> directory exists and holds one new,
  empty file, whose inode no other name has.
\<close>

definition with_tmp :: "path \<Rightarrow> os_state \<Rightarrow> fs_tree" where
  "with_tmp root s = add_dirs (tmp_dir root) (tree s)"

lemma fs_readyD:
  assumes "fs_ready root s"
  shows "quiet s" and "tree_ok root (tree s)"
    and "next_temp s \<le> n \<Longrightarrow> tree s (scratch root s n) = None"
    and "tree s p = Some (Regular i c m) \<Longrightarrow> i < calls s"
  using assms unfolding fs_ready_def by blast+

lemma to_thread_ready: "fs_ready root s \<Longrightarrow> to_thread f s = f s"
  by (simp add: fs_readyD(1))

lemma with_tmp_shard:
  "((with_tmp root s)(scratch root s' k := n)) (shard_path (adapter root) d) = tree s (shard_path (adapter root) d)"
  using shard_not_prefix(1) [of root d] by (simp add: scratch_def with_tmp_def add_dirs_other)

lemma with_tmp_facts:
  assumes "fs_ready root s"
  shows "tree_ok root (with_tmp root s)"
    and "is_dir_at (with_tmp root s) (tmp_dir root)"
    and "tree_stored root (with_tmp root s) = fs_stored root s"
    and "next_temp s \<le> n \<Longrightarrow> with_tmp root s (scratch root s n) = None"
    and "with_tmp root s p = Some (Regular i c m) \<Longrightarrow> i < calls s"
proof -
  show "tree_ok root (with_tmp root s)"
    unfolding with_tmp_def using fs_readyD(2) [OF assms] by (rule tree_ok_add_dirs) simp
  show "is_dir_at (with_tmp root s) (tmp_dir root)" by (simp add: with_tmp_def)
  show "tree_stored root (with_tmp root s) = fs_stored root s"
    by (simp add: with_tmp_def tree_stored_add_dirs)
  show "next_temp s \<le> n \<Longrightarrow> with_tmp root s (scratch root s n) = None"
    using fs_readyD(3) [OF assms] tmp_child_not_prefix(1) [of root]
    by (simp add: with_tmp_def scratch_def add_dirs_other)
  show "with_tmp root s p = Some (Regular i c m) \<Longrightarrow> i < calls s"
    using fs_readyD(4) [OF assms] tree_okD(2) [OF fs_readyD(2) [OF assms]]
    by (simp add: with_tmp_def add_dirs_Regular)
qed

lemma tree_ok_spooled:
  assumes "fs_ready root s"
  shows "tree_ok root ((with_tmp root s)(scratch root s (next_temp s) \<mapsto> Regular ino bs m))"
proof -
  note w = with_tmp_facts [OF assms]
  from w(4) [of "next_temp s"]
  have "with_tmp root s (tmp_dir root @ [temp_file (temp_names s (next_temp s)) (lit ''.part'')]) \<noteq> Some Directory"
    by (simp add: scratch_def)
  from tree_ok_scratch [OF w(1) this] w(2) show ?thesis unfolding scratch_def by blast
qed

lemma spool_open_quiet:
  assumes "fs_ready root s"
  obtains n where "n \<ge> calls s"
    and "makedirs (tmp_dir root) s = (Inr (), s\<lparr>tree := with_tmp root s, calls := n\<rparr>)"
    and "mkstemp (tmp_dir root) (lit ''.part'') (s\<lparr>tree := with_tmp root s, calls := n\<rparr>) =
      (Inr (n, scratch root s (next_temp s)),
       s\<lparr>tree := (with_tmp root s)(scratch root s (next_temp s) \<mapsto> Regular n [] (wall s n)),
         calls := Suc n, next_temp := Suc (next_temp s), open_fds := Suc (open_fds s)\<rparr>)"
proof -
  note r = fs_readyD [OF assms] and w = with_tmp_facts [OF assms]
  from makedirs_quiet [OF r(1) tree_okD(1,2) [OF r(2)]] obtain n where n: "n \<ge> calls s"
    and dirs: "makedirs (tmp_dir root) s = (Inr (), s\<lparr>tree := with_tmp root s, calls := n\<rparr>)"
    unfolding with_tmp_def by blast
  have "mkstemp (tmp_dir root) (lit ''.part'') (s\<lparr>tree := with_tmp root s, calls := n\<rparr>) =
      (Inr (n, scratch root s (next_temp s)),
       s\<lparr>tree := (with_tmp root s)(scratch root s (next_temp s) \<mapsto> Regular n [] (wall s n)),
         calls := Suc n, next_temp := Suc (next_temp s), open_fds := Suc (open_fds s)\<rparr>)"
    using r(1) w(2) w(4) [of "next_temp s"] tree_okD(1,2) [OF w(1)]
    by (subst mkstemp_quiet) (simp_all add: scratch_def Let_def)
  with n dirs that show ?thesis by blast
qed

lemma sole_inode_new:
  assumes "\<And>p i c m. t p = Some (Regular i c m) \<Longrightarrow> i < ino"
  shows "sole_inode (t(file \<mapsto> Regular ino c' m')) file ino"
  using assms by (fastforce simp: sole_inode_def split: if_splits)

lemma spool_quiet:
  assumes "fs_ready root s"
  obtains n ino m where "calls s \<le> ino" and "ino < n"
    and "spool (adapter root) c s =
      (case stream_error c of
         None \<Rightarrow> (Inr (scratch root s (next_temp s), sha256_hexdigest (stream_data c)),
            s\<lparr>tree := (with_tmp root s)(scratch root s (next_temp s) \<mapsto> Regular ino (stream_data c) m),
              next_temp := Suc (next_temp s), calls := n\<rparr>)
       | Some e \<Rightarrow> (Inl e, s\<lparr>tree := with_tmp root s, next_temp := Suc (next_temp s), calls := n\<rparr>))"
proof -
  note r = fs_readyD [OF assms] and w = with_tmp_facts [OF assms]
  let ?file = "scratch root s (next_temp s)" and ?k = "Suc (next_temp s)"
  from spool_open_quiet [OF assms] obtain ino where ino: "ino \<ge> calls s"
    and dirs: "makedirs (tmp_dir root) s = (Inr (), s\<lparr>tree := with_tmp root s, calls := ino\<rparr>)"
    and temp: "mkstemp (tmp_dir root) (lit ''.part'') (s\<lparr>tree := with_tmp root s, calls := ino\<rparr>) =
      (Inr (ino, ?file),
       s\<lparr>tree := (with_tmp root s)(?file \<mapsto> Regular ino [] (wall s ino)),
         calls := Suc ino, next_temp := ?k, open_fds := Suc (open_fds s)\<rparr>)" by blast
  let ?s = "s\<lparr>tree := (with_tmp root s)(?file \<mapsto> Regular ino [] (wall s ino)),
         next_temp := ?k, open_fds := Suc (open_fds s), calls := Suc (Suc ino)\<rparr>"
  have "sole_inode (tree ?s) ?file ino"
    using w(5) ino by (simp, intro sole_inode_new) (meson order.strict_trans2)
  from spool_chunks_quiet [of ?s ?file ino "[]" "wall s ino" "stream_chunks c" "stream_error c" "[]",
      unfolded append_Nil, folded stream_data_def] this r(1)
  obtain n m where n: "n \<ge> Suc (Suc ino)"
    and loop: "spool_chunks ino (stream_chunks c) (stream_error c) [] ?s =
      ((case stream_error c of None \<Rightarrow> Inr (stream_data c) | Some e \<Rightarrow> Inl e),
       ?s\<lparr>tree := (tree ?s)(?file \<mapsto> Regular ino (stream_data c) m), calls := n\<rparr>)"
    by auto
  have chunks: "spool_chunks ino (stream_chunks c) (stream_error c) [] ?s =
      ((case stream_error c of None \<Rightarrow> Inr (stream_data c) | Some e \<Rightarrow> Inl e),
       s\<lparr>tree := (with_tmp root s)(?file \<mapsto> Regular ino (stream_data c) m), calls := n,
         next_temp := ?k, open_fds := Suc (open_fds s)\<rparr>)"
    unfolding loop by simp
  show ?thesis
  proof (cases "stream_error c")
    case None
    have "spool (adapter root) c s =
      (Inr (?file, sha256_hexdigest (stream_data c)),
       s\<lparr>tree := (with_tmp root s)(?file \<mapsto> Regular ino (stream_data c) m),
         calls := n + 3, next_temp := ?k\<rparr>)"
      using None r(1) chunks
      by (simp add: spool_def tmp_dir_def [symmetric] and_then_def dirs temp trying_def finally_do_def
          os_touch_quiet os_close_quiet numeral_3_eq_3)
    with None n ino that [of ino "n + 3" m] show ?thesis by simp
  next
    case (Some e)
    let ?s' = "s\<lparr>tree := (with_tmp root s)(?file \<mapsto> Regular ino (stream_data c) m),
        next_temp := ?k, calls := Suc n\<rparr>"
    have ok: "tree_ok root (tree ?s')"
      using tree_ok_spooled [OF assms] by simp
    have "os_unlink ?file ?s' =
       (Inr (), ?s'\<lparr>tree := (tree ?s')(?file := None), calls := Suc (calls ?s')\<rparr>)"
      using r(1) tree_okD [OF ok]
      by (intro os_unlink_quiet [where n = "Regular ino (stream_data c) m"]) (simp_all add: scratch_def)
    moreover have "(with_tmp root s)(?file := None) = with_tmp root s"
      using w(4) [of "next_temp s"] by (simp add: fun_upd_idem)
    ultimately have "unlink_missing_ok ?file ?s' =
       (Inr (), s\<lparr>tree := with_tmp root s, calls := Suc (Suc n), next_temp := ?k\<rparr>)"
      by (simp add: unlink_missing_ok_def trying_def)
    then have "spool (adapter root) c s =
      (Inl e, s\<lparr>tree := with_tmp root s, calls := Suc (Suc n), next_temp := ?k\<rparr>)"
      using Some r(1) chunks
      by (simp add: spool_def tmp_dir_def [symmetric] and_then_def dirs temp trying_def finally_do_def
          os_touch_quiet os_close_quiet)
    with Some n ino that [of ino "Suc (Suc n)"] show ?thesis by simp
  qed
qed

lemma spool_ok_quiet:
  assumes "fs_ready root s" and "stream_error c = None"
  obtains n ino m where "calls s \<le> ino" and "ino < n"
    and "spool (adapter root) c s =
      (Inr (scratch root s (next_temp s), sha256_hexdigest (stream_data c)),
       s\<lparr>tree := (with_tmp root s)(scratch root s (next_temp s) \<mapsto> Regular ino (stream_data c) m),
         next_temp := Suc (next_temp s), calls := n\<rparr>)"
  by (rule spool_quiet [OF assms(1), of c, unfolded assms(2) option.case]) (rule that)

lemma spool_error_quiet:
  assumes "fs_ready root s" and "stream_error c = Some e"
  obtains n where "calls s \<le> n"
    and "spool (adapter root) c s =
      (Inl e, s\<lparr>tree := with_tmp root s, next_temp := Suc (next_temp s), calls := n\<rparr>)"
  by (rule spool_quiet [OF assms(1), of c, unfolded assms(2) option.case])
    (meson le_trans less_imp_le that)

section \<open>Storing\<close>

lemma fs_readyI:
  assumes "quiet s" and "tree_ok root (tree s)"
    and "\<And>n. next_temp s \<le> n \<Longrightarrow> tree s (scratch root s n) = None"
    and "\<And>p i c m. tree s p = Some (Regular i c m) \<Longrightarrow> i < calls s"
  shows "fs_ready root s"
  using assms unfolding fs_ready_def by blast

lemma scratch_upd [simp]:
  "scratch root (s\<lparr>tree := t\<rparr>) n = scratch root s n"
  "scratch root (s\<lparr>calls := k\<rparr>) n = scratch root s n"
  "scratch root (s\<lparr>next_temp := k\<rparr>) n = scratch root s n"
  "scratch root (s\<lparr>open_fds := k\<rparr>) n = scratch root s n"
  by (simp_all add: scratch_def)

lemma fs_ready_ticks:
  "fs_ready root s \<Longrightarrow> calls s \<le> n \<Longrightarrow> fs_ready root (s\<lparr>calls := n\<rparr>)"
  "fs_ready root s \<Longrightarrow> fs_ready root (s\<lparr>open_fds := k\<rparr>)"
  unfolding fs_ready_def by (simp_all, meson order.strict_trans2)

lemma lstat_or_none_quiet:
  assumes "quiet s" and "closed (tree s)" and "dirs_plain (tree s) (butlast p)" and "p \<noteq> []"
  shows "lstat_or_none p s = (Inr (map_option stat_of (tree s p)), ticked s)"
  using os_lstat_quiet [OF assms]
  by (cases "tree s p") (simp_all add: lstat_or_none_def trying_def and_then_def file_not_found_def)

text \<open>A stored blob: the key is taken by a regular file.\<close>

lemma stored_digest:
  assumes "tree_ok root t" and "hex64 d"
  shows "tree_stored root t (KEY_PREFIX @ d) = None \<longleftrightarrow> t (shard_path (adapter root) d) = None"
    and "tree_stored root t (KEY_PREFIX @ d) = Some c \<longleftrightarrow>
      (\<exists>i m. t (shard_path (adapter root) d) = Some (Regular i c m))"
  using tree_okD(4) [OF assms] assms(2)
  by (auto simp: tree_stored_def blob_ok_def split: option.splits node.splits)

definition published_as :: "byte_stream \<Rightarrow> pystr option \<Rightarrow> bytes \<Rightarrow> nat \<Rightarrow> stored_blob" where
  "published_as c ct data m =
     \<lparr>blob_key = KEY_PREFIX @ sha256_hexdigest (stream_data c), blob_size = length data,
      blob_content_type = ct, blob_created_at = m\<rparr>"

lemma fs_put_known:
  assumes "fs_ready root s" and "stream_error c = None"
    and "tree s (shard_path (adapter root) (sha256_hexdigest (stream_data c))) = Some (Regular i d m)"
  shows "\<exists>n\<ge>calls s. fs_put (adapter root) c ct s =
    (Inr (published_as c ct d m),
     s\<lparr>tree := with_tmp root s, next_temp := Suc (next_temp s), calls := n\<rparr>)"
proof -
  note r = fs_readyD [OF assms(1)] and w = with_tmp_facts [OF assms(1)]
  let ?file = "scratch root s (next_temp s)" and ?k = "Suc (next_temp s)"
  let ?d = "sha256_hexdigest (stream_data c)"
  let ?target = "shard_path (adapter root) ?d"
  obtain n ino m' where n: "calls s \<le> ino" "ino < n"
    and spool: "spool (adapter root) c s = (Inr (?file, ?d),
        s\<lparr>tree := (with_tmp root s)(?file \<mapsto> Regular ino (stream_data c) m'), next_temp := ?k, calls := n\<rparr>)"
    by (rule spool_ok_quiet [OF assms(1,2)])
  let ?t = "(with_tmp root s)(?file \<mapsto> Regular ino (stream_data c) m')"
  let ?s = "s\<lparr>tree := ?t, next_temp := ?k, calls := n\<rparr>"
  have ok: "tree_ok root ?t"
    using assms(1) by (rule tree_ok_spooled)
  have target: "?t ?target = Some (Regular i d m)"
    unfolding with_tmp_shard by (rule assms(3))
  have "lstat_or_none ?target ?s = (Inr (Some (stat_of (Regular i d m))), ticked ?s)"
    using lstat_or_none_quiet [of ?s ?target] r(1) tree_okD(1,3) [OF ok] target by simp
  moreover have "os_unlink ?file (ticked ?s) =
      (Inr (), (ticked ?s)\<lparr>tree := ?t(?file := None), calls := Suc (Suc n)\<rparr>)"
    using r(1) tree_okD(1,2) [OF ok] os_unlink_quiet
      [of "ticked ?s" ?file "Regular ino (stream_data c) m'"] by (simp add: scratch_def)
  moreover have "?t(?file := None) = with_tmp root s"
    using w(4) [of "next_temp s"] by (simp add: fun_upd_idem)
  ultimately have "fs_put (adapter root) c ct s = (Inr (published_as c ct d m),
      s\<lparr>tree := with_tmp root s, next_temp := ?k, calls := Suc (Suc n)\<rparr>)"
    using r(1) by (simp add: fs_put_def spool and_then_def Let_def s_isreg_def published_as_def)
  with n show ?thesis by (intro exI [of _ "Suc (Suc n)"]) simp
qed

lemma fs_put_new:
  assumes "fs_ready root s" and "stream_error c = None"
    and "tree s (shard_path (adapter root) (sha256_hexdigest (stream_data c))) = None"
  shows "\<exists>n ino m. calls s \<le> ino \<and> ino < n \<and> fs_put (adapter root) c ct s =
    (Inr (published_as c ct (stream_data c) m),
     s\<lparr>tree := (add_dirs (shard_dir root (sha256_hexdigest (stream_data c))) (with_tmp root s))
         (shard_path (adapter root) (sha256_hexdigest (stream_data c)) \<mapsto> Regular ino (stream_data c) m),
       next_temp := Suc (next_temp s), calls := n\<rparr>)"
proof -
  note r = fs_readyD [OF assms(1)] and w = with_tmp_facts [OF assms(1)]
  let ?file = "scratch root s (next_temp s)" and ?k = "Suc (next_temp s)"
  let ?d = "sha256_hexdigest (stream_data c)"
  let ?target = "shard_path (adapter root) ?d" and ?sd = "shard_dir root ?d"
  obtain n ino m where n: "calls s \<le> ino" "ino < n"
    and spool: "spool (adapter root) c s = (Inr (?file, ?d),
        s\<lparr>tree := (with_tmp root s)(?file \<mapsto> Regular ino (stream_data c) m), next_temp := ?k, calls := n\<rparr>)"
    by (rule spool_ok_quiet [OF assms(1,2)])
  let ?n = "Regular ino (stream_data c) m"
  let ?t = "(with_tmp root s)(?file \<mapsto> ?n)"
  let ?s = "s\<lparr>tree := ?t, next_temp := ?k, calls := n\<rparr>"
  have ok: "tree_ok root ?t"
    using assms(1) by (rule tree_ok_spooled)
  have target: "?t ?target = None"
    unfolding with_tmp_shard by (rule assms(3))
  have look: "lstat_or_none ?target ?s = (Inr None, ticked ?s)"
    using lstat_or_none_quiet [of ?s ?target] r(1) tree_okD(1,3) [OF ok] target by simp
  let ?t1 = "add_dirs ?sd ?t"
  from makedirs_quiet [of "ticked ?s" ?sd] r(1) tree_okD(1,3) [OF ok]
  obtain k where k: "k \<ge> Suc n" and dirs: "makedirs ?sd (ticked ?s) =
      (Inr (), (ticked ?s)\<lparr>tree := add_dirs ?sd (tree (ticked ?s)), calls := k\<rparr>)" by auto
  let ?s1 = "s\<lparr>next_temp := ?k, tree := ?t1, calls := k\<rparr>"
  have ok1: "tree_ok root ?t1" using ok by (rule tree_ok_add_dirs) (blast intro: hex64_sha256)
  have file1: "?t1 ?file = Some ?n"
    using tmp_child_not_prefix(2) [of ?d root] by (simp add: scratch_def add_dirs_other)
  have target1: "?t1 ?target = None" using target shard_not_prefix by (simp add: add_dirs_other)
  have stat: "os_lstat ?file ?s1 = (Inr (stat_of ?n), ticked ?s1)"
    using os_lstat_quiet [of ?s1 ?file] r(1) tree_okD(1,2) [OF ok1] file1 by (simp add: scratch_def)
  have mv: "os_rename ?file ?target (ticked ?s1) =
      (Inr (), (ticked ?s1)\<lparr>tree := (?t1(?file := None))(?target \<mapsto> ?n), calls := Suc (Suc k)\<rparr>)"
    using os_rename_quiet [of "ticked ?s1" ?file ?target ino "stream_data c" m]
      r(1) tree_okD(1,2,3) [OF ok1] file1 target1 by (simp add: scratch_def)
  have gone: "?t1(?file := None) = add_dirs ?sd (with_tmp root s)"
    using w(4) [of "next_temp s"] tmp_child_not_prefix(2) [of ?d root]
    by (auto simp: fun_eq_iff add_dirs_def scratch_def)
  have "fs_put (adapter root) c ct s = (Inr (published_as c ct (stream_data c) m),
      s\<lparr>next_temp := ?k, tree := (add_dirs ?sd (with_tmp root s))(?target \<mapsto> ?n), calls := Suc (Suc k)\<rparr>)"
    using look dirs stat mv r(1) unfolding gone
    by (simp add: fs_put_def spool and_then_def Let_def published_as_def)
  with n k show ?thesis
    by (intro exI [of _ "Suc (Suc k)"] exI [of _ ino] exI [of _ m]) simp
qed

section \<open>Reading and deleting\<close>

lemma resolve_key_cases:
  obtains (unknown) "resolve_key (adapter root) k = None"
  | (digest) d where "k = KEY_PREFIX @ d" and "hex64 d"
      and "resolve_key (adapter root) k = Some (shard_path (adapter root) d)"
  using resolve_key_Some by (cases "resolve_key (adapter root) k") fastforce+

lemma stored_unknown: "resolve_key (adapter root) k = None \<Longrightarrow> tree_stored root t k = None"
  by (simp add: tree_stored_def)

lemma fs_lookup:
  assumes "fs_ready root s" and "hex64 d"
  shows "os_lstat (shard_path (adapter root) d) s =
      (case fs_stored root s (KEY_PREFIX @ d) of
         None \<Rightarrow> (Inl (OSErr (OSError ENOENT)), ticked s)
       | Some c \<Rightarrow> (Inr \<lparr>st_mode = Reg, st_size = length c,
           st_mtime = st_mtime (stat_of (the (tree s (shard_path (adapter root) d))))\<rparr>, ticked s))"
proof -
  note r = fs_readyD [OF assms(1)]
  from r(1) tree_okD(1) [OF r(2)] tree_okD(3,4) [OF r(2) assms(2)] assms(2) show ?thesis
    by (subst os_lstat_quiet)
      (auto simp: tree_stored_def blob_ok_def split: option.splits node.splits)
qed

lemma nofollow [simp]: "O_NOFOLLOW \<in> BLOB_OPEN_FLAGS"
  by (simp add: BLOB_OPEN_FLAGS_def)

lemma open_stored_quiet:
  assumes "fs_ready root s" and "hex64 d"
  shows "fs_stored root s (KEY_PREFIX @ d) = None \<Longrightarrow>
      open_stored_blob (shard_path (adapter root) d) s = (Inl (OSErr (OSError ENOENT)), ticked s)"
    and "fs_stored root s (KEY_PREFIX @ d) = Some c \<Longrightarrow>
      \<exists>i m. open_stored_blob (shard_path (adapter root) d) s = (Inr (Regular i c m),
        s\<lparr>open_fds := Suc (open_fds s), calls := calls s + 3\<rparr>)"
proof -
  note r = fs_readyD [OF assms(1)]
  note opened = os_open_read_quiet [of s "shard_path (adapter root) d" BLOB_OPEN_FLAGS, simplified,
      OF r(1) tree_okD(1) [OF r(2)] tree_okD(3) [OF r(2) assms(2)]]
  show "open_stored_blob (shard_path (adapter root) d) s = (Inl (OSErr (OSError ENOENT)), ticked s)"
    if "fs_stored root s (KEY_PREFIX @ d) = None"
    using that opened stored_digest(1) [OF r(2) assms(2)]
    by (simp add: open_stored_blob_def and_then_def)
  show "\<exists>i m. open_stored_blob (shard_path (adapter root) d) s = (Inr (Regular i c m),
        s\<lparr>open_fds := Suc (open_fds s), calls := calls s + 3\<rparr>)"
    if "fs_stored root s (KEY_PREFIX @ d) = Some c"
  proof -
    from that stored_digest(2) [OF r(2) assms(2)] obtain i m where
      "tree s (shard_path (adapter root) d) = Some (Regular i c m)" by blast
    with opened r(1) have "open_stored_blob (shard_path (adapter root) d) s = (Inr (Regular i c m),
        s\<lparr>open_fds := Suc (open_fds s), calls := calls s + 3\<rparr>)"
      by (simp add: open_stored_blob_def and_then_def trying_def os_fstat_quiet os_touch_quiet
          s_isreg_def numeral_3_eq_3)
    then show ?thesis by blast
  qed
qed

lemma fs_unlink_quiet:
  assumes "fs_ready root s" and "hex64 d" and "fs_stored root s (KEY_PREFIX @ d) = Some c"
  shows "os_unlink (shard_path (adapter root) d) s =
    (Inr (), s\<lparr>tree := (tree s)(shard_path (adapter root) d := None), calls := Suc (calls s)\<rparr>)"
proof -
  note r = fs_readyD [OF assms(1)]
  from assms(3) stored_digest(2) [OF r(2) assms(2)] obtain i m where
    "tree s (shard_path (adapter root) d) = Some (Regular i c m)" by blast
  with r(1) tree_okD(1) [OF r(2)] tree_okD(3) [OF r(2) assms(2)] show ?thesis
    by (intro os_unlink_quiet [where n = "Regular i c m"]) simp_all
qed

section \<open>Ready states stay ready\<close>

lemma fs_ready_removed:
  assumes "fs_ready root s" and "hex64 d"
  shows "fs_ready root (s\<lparr>tree := (tree s)(shard_path (adapter root) d := None), calls := Suc (calls s)\<rparr>)"
proof (rule fs_readyI)
  note r = fs_readyD [OF assms(1)]
  let ?s = "s\<lparr>tree := (tree s)(shard_path (adapter root) d := None), calls := Suc (calls s)\<rparr>"
  show "quiet ?s" using r(1) by simp
  show "tree_ok root (tree ?s)"
    using tree_ok_blob [OF r(2) assms(2), of None] by (simp add: blob_ok_def)
  show "tree ?s (scratch root ?s n) = None" if "next_temp ?s \<le> n" for n
    using that r(3) by simp
  show "i < calls ?s" if "tree ?s p = Some (Regular i c m)" for p i c m
    using that r(4) [of p i c m] by (auto split: if_splits)
qed

lemma fs_ready_spooled:
  assumes "fs_ready root s" and "calls s \<le> n"
  shows "fs_ready root (s\<lparr>tree := with_tmp root s, next_temp := Suc (next_temp s), calls := n\<rparr>)"
proof (rule fs_readyI)
  note r = fs_readyD [OF assms(1)] and w = with_tmp_facts [OF assms(1)]
  let ?s = "s\<lparr>tree := with_tmp root s, next_temp := Suc (next_temp s), calls := n\<rparr>"
  show "quiet ?s" using r(1) by simp
  show "tree_ok root (tree ?s)" using w(1) by simp
  show "tree ?s (scratch root ?s k) = None" if "next_temp ?s \<le> k" for k
    using that w(4) by simp
  show "i < calls ?s" if "tree ?s p = Some (Regular i c m)" for p i c m
    using that w(5) [of p i c m] assms(2) by simp
qed

definition published_tree :: "path \<Rightarrow> os_state \<Rightarrow> pystr \<Rightarrow> node \<Rightarrow> fs_tree" where
  "published_tree root s d n = (add_dirs (shard_dir root d) (with_tmp root s))(shard_path (adapter root) d \<mapsto> n)"

lemma published_tree_ok:
  assumes "fs_ready root s" and "sha256_hexdigest c = d"
  shows "tree_ok root (published_tree root s d (Regular i c m))"
proof -
  have d: "hex64 d" using assms(2) by auto
  have "tree_ok root (add_dirs (shard_dir root d) (with_tmp root s))"
    using with_tmp_facts(1) [OF assms(1)] by (rule tree_ok_add_dirs) (use d in blast)
  from tree_ok_blob [OF this d, of "Some (Regular i c m)"] assms(2) show ?thesis
    by (simp add: published_tree_def blob_ok_def)
qed

lemma published_tree_stored:
  assumes "fs_ready root s" and "hex64 d"
  shows "tree_stored root (published_tree root s d (Regular i c m)) = (fs_stored root s)(KEY_PREFIX @ d \<mapsto> c)"
proof -
  have "tree_stored root (add_dirs (shard_dir root d) (with_tmp root s)) = tree_stored root (with_tmp root s)"
    by (rule tree_stored_add_dirs) blast
  then show ?thesis
    unfolding published_tree_def tree_stored_blob [OF assms(2)] with_tmp_facts(3) [OF assms(1)] by simp
qed

lemma fs_ready_published:
  assumes "fs_ready root s" and "sha256_hexdigest c = d" and "calls s \<le> ino" and "ino < n"
  shows "fs_ready root (s\<lparr>tree := published_tree root s d (Regular ino c m),
    next_temp := Suc (next_temp s), calls := n\<rparr>)"
proof (rule fs_readyI)
  note r = fs_readyD [OF assms(1)] and w = with_tmp_facts [OF assms(1)]
  let ?t = "published_tree root s d (Regular ino c m)"
  let ?s = "s\<lparr>tree := ?t, next_temp := Suc (next_temp s), calls := n\<rparr>"
  have d: "hex64 d" using assms(2) by auto
  show "quiet ?s" using r(1) by simp
  show "tree_ok root (tree ?s)" using published_tree_ok [OF assms(1,2)] by simp
  show "tree ?s (scratch root ?s k) = None" if "next_temp ?s \<le> k" for k
  proof -
    have "scratch root s k \<noteq> shard_path (adapter root) d" by (simp add: scratch_def)
    moreover have "\<not> prefix (scratch root s k) (shard_dir root d)"
      unfolding scratch_def using d by (rule tmp_child_not_prefix(2))
    ultimately show ?thesis
      using that w(4) [of k] by (simp add: published_tree_def add_dirs_other)
  qed
  show "i < calls ?s" if "tree ?s p = Some (Regular i c' m')" for p i c' m'
  proof (cases "p = shard_path (adapter root) d")
    case True
    with that assms(4) show ?thesis by (simp add: published_tree_def)
  next
    case False
    with that have "with_tmp root s p = Some (Regular i c' m')"
      using add_dirs_Regular [OF tree_okD(3) [OF w(1) d]] by (simp add: published_tree_def)
    from w(5) [OF this] assms(3,4) show ?thesis by simp
  qed
qed

end
