(* ===== verification/Filesystem_Contract.thy ===== *)
theory Filesystem_Contract
  imports Filesystem_Laws
begin

text \<open>
  The adapter is a blob storage: the interpretation of the port's contract on the operations
  of \<open>filesystem.py\<close>, and what the contract does not say: outcomes under failures of the
  machine, descriptors and scratch files, the iterator, and the messages.
\<close>

section \<open>The contract\<close>

definition fs_port :: "unicode_data \<Rightarrow> (os_state \<Rightarrow> pystr) \<Rightarrow> path \<Rightarrow> (os_state, generator) blob_storage" where
  "fs_port u uuid4_hex root =
     \<lparr>blob_put = fs_put (adapter root), blob_get = fs_get u (adapter root),
      blob_exists = fs_exists (adapter root), blob_size_of = fs_size u (adapter root),
      blob_delete = fs_delete u (adapter root),
      blob_check_health = (\<lambda>s. fs_check_health (uuid4_hex s) (adapter root) s)\<rparr>"

lemma fs_port_simps [simp]:
  "blob_put (fs_port u h root) = fs_put (adapter root)"
  "blob_get (fs_port u h root) = fs_get u (adapter root)"
  "blob_exists (fs_port u h root) = fs_exists (adapter root)"
  "blob_size_of (fs_port u h root) = fs_size u (adapter root)"
  "blob_delete (fs_port u h root) = fs_delete u (adapter root)"
  by (simp_all add: fs_port_def)

fun undelivered :: "generator \<Rightarrow> bytes" where
  "undelivered (Fresh bs) = bs"
| "undelivered (Suspended bs) = bs"
| "undelivered Finished = []"

definition content_key :: "bytes \<Rightarrow> pystr" where
  "content_key bs = KEY_PREFIX @ sha256_hexdigest bs"

lemma fs_put_stores:
  assumes "fs_ready root s" and "stream_error c = None"
  shows "\<exists>b s'. fs_put (adapter root) c ct s = (Inr b, s') \<and> fs_ready root s'
    \<and> blob_key b = content_key (stream_data c) \<and> blob_content_type b = ct
    \<and> fs_stored root s' = (if fs_stored root s (blob_key b) = None
                           then (fs_stored root s)(blob_key b \<mapsto> stream_data c) else fs_stored root s)
    \<and> (\<exists>d. fs_stored root s' (blob_key b) = Some d \<and> blob_size b = length d)
    \<and> open_fds s' = open_fds s"
proof (cases "fs_stored root s (content_key (stream_data c))")
  case None
  note r = fs_readyD [OF assms(1)]
  let ?d = "sha256_hexdigest (stream_data c)"
  from None stored_digest(1) [OF r(2) hex64_sha256] have "tree s (shard_path (adapter root) ?d) = None"
    unfolding content_key_def by blast
  from fs_put_new [OF assms this, of ct, folded published_tree_def] obtain n ino m where
    n: "calls s \<le> ino" "ino < n" and p: "fs_put (adapter root) c ct s = (Inr (published_as c ct (stream_data c) m),
      s\<lparr>tree := published_tree root s ?d (Regular ino (stream_data c) m), next_temp := Suc (next_temp s), calls := n\<rparr>)"
    by blast
  have "fs_ready root (s\<lparr>tree := published_tree root s ?d (Regular ino (stream_data c) m),
      next_temp := Suc (next_temp s), calls := n\<rparr>)"
    using assms(1) n by (intro fs_ready_published) simp_all
  moreover have "tree_stored root (published_tree root s ?d (Regular ino (stream_data c) m))
      = (fs_stored root s)(KEY_PREFIX @ ?d \<mapsto> stream_data c)"
    using assms(1) by (intro published_tree_stored) simp_all
  ultimately show ?thesis
    using None unfolding p by (simp add: published_as_def content_key_def)
next
  case (Some d)
  note r = fs_readyD [OF assms(1)]
  from Some stored_digest(2) [OF r(2) hex64_sha256] obtain i m where
    "tree s (shard_path (adapter root) (sha256_hexdigest (stream_data c))) = Some (Regular i d m)"
    unfolding content_key_def by blast
  from fs_put_known [OF assms this, of ct] obtain n where n: "n \<ge> calls s"
    and p: "fs_put (adapter root) c ct s = (Inr (published_as c ct d m),
      s\<lparr>tree := with_tmp root s, next_temp := Suc (next_temp s), calls := n\<rparr>)" by blast
  from fs_ready_spooled [OF assms(1) n] Some with_tmp_facts(3) [OF assms(1)] show ?thesis
    unfolding p by (simp add: published_as_def content_key_def)
qed

lemma fs_put_failing_source:
  assumes "fs_ready root s" and "stream_error c = Some e"
  shows "\<exists>s'. fs_put (adapter root) c ct s = (Inl e, s') \<and> fs_ready root s'
    \<and> fs_stored root s' = fs_stored root s \<and> tree s' = add_dirs (tmp_dir root) (tree s)
    \<and> open_fds s' = open_fds s"
proof -
  obtain n where n: "calls s \<le> n" and "spool (adapter root) c s =
      (Inl e, s\<lparr>tree := with_tmp root s, next_temp := Suc (next_temp s), calls := n\<rparr>)"
    by (rule spool_error_quiet [OF assms])
  then show ?thesis
    using fs_ready_spooled [OF assms(1) n] with_tmp_facts(3) [OF assms(1)]
    by (simp add: fs_put_def and_then_def with_tmp_def)
qed

lemma fs_ready_ticked: "fs_ready root s \<Longrightarrow> fs_ready root (ticked s)"
  by (rule fs_ready_ticks) simp_all

lemma fs_get_stored:
  assumes "fs_ready root s" and "fs_stored root s k = Some d"
  shows "\<exists>s'. fs_get u (adapter root) k s = (Inr (Fresh d), s') \<and> fs_ready root s'
    \<and> fs_stored root s' = fs_stored root s \<and> open_fds s' = Suc (open_fds s)"
proof (rule resolve_key_cases [of root k])
  assume "resolve_key (adapter root) k = None"
  with assms(2) show ?thesis by (simp add: stored_unknown)
next
  fix e assume k: "k = KEY_PREFIX @ e" "hex64 e"
    "resolve_key (adapter root) k = Some (shard_path (adapter root) e)"
  from open_stored_quiet(2) [OF assms(1) k(2)] assms(2) k(1) obtain i m where
    "open_stored_blob (shard_path (adapter root) e) s =
      (Inr (Regular i d m), s\<lparr>open_fds := Suc (open_fds s), calls := calls s + 3\<rparr>)" by blast
  moreover have "fs_ready root (s\<lparr>open_fds := Suc (open_fds s), calls := calls s + 3\<rparr>)"
    by (rule fs_ready_ticks(1) [OF fs_ready_ticks(2) [OF assms(1)]]) simp
  ultimately show ?thesis
    using k(3) by (simp add: to_thread_ready [OF assms(1)] fs_get_def and_then_def trying_def file_bytes_def)
qed

lemma fs_get_absent:
  assumes "fs_ready root s" and "fs_stored root s k = None"
  shows "\<exists>s'. fs_get u (adapter root) k s =
      (Inl (Storage (BlobNotFound (Some (unknown_key_message u k)))), s')
    \<and> fs_ready root s' \<and> fs_stored root s' = fs_stored root s \<and> open_fds s' = open_fds s"
proof (rule resolve_key_cases [of root k])
  assume "resolve_key (adapter root) k = None"
  with assms(1) show ?thesis by (simp add: fs_get_def)
next
  fix e assume k: "k = KEY_PREFIX @ e" "hex64 e"
    "resolve_key (adapter root) k = Some (shard_path (adapter root) e)"
  with open_stored_quiet(1) [OF assms(1) k(2)] assms fs_ready_ticked [OF assms(1)] show ?thesis
    by (simp add: to_thread_ready [OF assms(1)] fs_get_def and_then_def trying_def)
qed

lemma fs_exists_stored:
  assumes "fs_ready root s"
  shows "\<exists>s'. fs_exists (adapter root) k s = (Inr (fs_stored root s k \<noteq> None), s')
    \<and> fs_ready root s' \<and> fs_stored root s' = fs_stored root s"
proof (rule resolve_key_cases [of root k])
  assume "resolve_key (adapter root) k = None"
  with assms show ?thesis by (simp add: fs_exists_def stored_unknown)
next
  fix e assume k: "k = KEY_PREFIX @ e" "hex64 e"
    "resolve_key (adapter root) k = Some (shard_path (adapter root) e)"
  with fs_lookup [OF assms k(2)] fs_ready_ticked [OF assms] show ?thesis
    by (cases "fs_stored root s k")
      (simp_all add: to_thread_ready [OF assms] fs_exists_def is_stored_blob_def and_then_def trying_def s_isreg_def)
qed

lemma fs_size_stored:
  assumes "fs_ready root s"
  shows "\<exists>s'. fs_size u (adapter root) k s =
      ((case fs_stored root s k of
          None \<Rightarrow> Inl (Storage (BlobNotFound (Some (unknown_key_message u k))))
        | Some d \<Rightarrow> Inr (length d)), s')
    \<and> fs_ready root s' \<and> fs_stored root s' = fs_stored root s"
proof (rule resolve_key_cases [of root k])
  assume "resolve_key (adapter root) k = None"
  with assms show ?thesis by (simp add: fs_size_def stored_unknown)
next
  fix e assume k: "k = KEY_PREFIX @ e" "hex64 e"
    "resolve_key (adapter root) k = Some (shard_path (adapter root) e)"
  with fs_lookup [OF assms k(2)] fs_ready_ticked [OF assms] show ?thesis
    by (cases "fs_stored root s k")
      (simp_all add: to_thread_ready [OF assms] fs_size_def and_then_def trying_def s_isreg_def file_not_found_def)
qed

lemma fs_delete_stored:
  assumes "fs_ready root s" and "fs_stored root s k = Some d"
  shows "\<exists>s'. fs_delete u (adapter root) k s = (Inr (), s') \<and> fs_ready root s'
    \<and> fs_stored root s' = (fs_stored root s)(k := None)"
proof (rule resolve_key_cases [of root k])
  assume "resolve_key (adapter root) k = None"
  with assms(2) show ?thesis by (simp add: stored_unknown)
next
  fix e assume k: "k = KEY_PREFIX @ e" "hex64 e"
    "resolve_key (adapter root) k = Some (shard_path (adapter root) e)"
  from fs_unlink_quiet [OF assms(1) k(2)] assms(2) k(1)
  have "fs_delete u (adapter root) k s = (Inr (),
      s\<lparr>tree := (tree s)(shard_path (adapter root) e := None), calls := Suc (calls s)\<rparr>)"
    using k(3) by (simp add: to_thread_ready [OF assms(1)] fs_delete_def trying_def)
  then show ?thesis
    using fs_ready_removed [OF assms(1) k(2)] by (simp add: tree_stored_blob [OF k(2)] k(1))
qed

lemma os_unlink_absent_quiet:
  assumes "fs_ready root s" and "hex64 e" and "fs_stored root s (KEY_PREFIX @ e) = None"
  shows "os_unlink (shard_path (adapter root) e) s = (Inl (OSErr (OSError ENOENT)), ticked s)"
proof -
  note r = fs_readyD [OF assms(1)]
  from assms(3) stored_digest(1) [OF r(2) assms(2)]
  have "tree s (shard_path (adapter root) e) = None" by blast
  with r(1) tree_okD(1) [OF r(2)] tree_okD(3) [OF r(2) assms(2)] show ?thesis
    by (intro os_unlink_missing_quiet) simp_all
qed

lemma fs_delete_absent:
  assumes "fs_ready root s" and "fs_stored root s k = None"
  shows "\<exists>s'. fs_delete u (adapter root) k s =
      (Inl (Storage (BlobNotFound (Some (unknown_key_message u k)))), s')
    \<and> fs_ready root s' \<and> fs_stored root s' = fs_stored root s"
proof (rule resolve_key_cases [of root k])
  assume "resolve_key (adapter root) k = None"
  with assms(1) show ?thesis by (simp add: fs_delete_def)
next
  fix e assume k: "k = KEY_PREFIX @ e" "hex64 e"
    "resolve_key (adapter root) k = Some (shard_path (adapter root) e)"
  with os_unlink_absent_quiet [OF assms(1) k(2)] assms fs_ready_ticked [OF assms(1)] show ?thesis
    by (simp add: to_thread_ready [OF assms(1)] fs_delete_def trying_def file_not_found_def)
qed

interpretation fs: blob_contract "fs_port u uuid4_hex root" "fs_ready root" "fs_stored root" undelivered content_key
proof
  fix s :: os_state and c ct k d e
  assume ready: "fs_ready root s"
  show "stream_error c = None \<Longrightarrow> \<exists>b s'. blob_put (fs_port u uuid4_hex root) c ct s = (Inr b, s') \<and> fs_ready root s'
        \<and> blob_key b = content_key (stream_data c) \<and> blob_content_type b = ct
        \<and> fs_stored root s' = (if fs_stored root s (blob_key b) = None
                       then (fs_stored root s)(blob_key b \<mapsto> stream_data c) else fs_stored root s)
        \<and> (\<exists>d. fs_stored root s' (blob_key b) = Some d \<and> blob_size b = length d)"
    unfolding fs_port_simps by (drule fs_put_stores [OF ready, where ct = ct]) blast
  show "stream_error c = Some e \<Longrightarrow> \<exists>s'. blob_put (fs_port u uuid4_hex root) c ct s = (Inl e, s')
        \<and> fs_ready root s' \<and> fs_stored root s' = fs_stored root s"
    unfolding fs_port_simps by (drule fs_put_failing_source [OF ready, where ct = ct]) blast
  show "fs_stored root s k = Some d \<Longrightarrow> \<exists>g s'. blob_get (fs_port u uuid4_hex root) k s = (Inr g, s')
        \<and> fs_ready root s' \<and> fs_stored root s' = fs_stored root s \<and> undelivered g = d"
    using fs_get_stored [OF ready] by fastforce
  show "fs_stored root s k = None \<Longrightarrow> \<exists>e s'. blob_get (fs_port u uuid4_hex root) k s = (Inl e, s')
        \<and> blob_missing e \<and> fs_ready root s' \<and> fs_stored root s' = fs_stored root s"
    using fs_get_absent [OF ready, where u = u and k = k] by (auto simp: blob_missing_def)
  show "\<exists>s'. blob_exists (fs_port u uuid4_hex root) k s = (Inr (fs_stored root s k \<noteq> None), s')
        \<and> fs_ready root s' \<and> fs_stored root s' = fs_stored root s"
    using fs_exists_stored [OF ready] by simp
  show "fs_stored root s k = Some d \<Longrightarrow> \<exists>s'. blob_size_of (fs_port u uuid4_hex root) k s = (Inr (length d), s')
        \<and> fs_ready root s' \<and> fs_stored root s' = fs_stored root s"
    using fs_size_stored [OF ready, of u k] by simp
  show "fs_stored root s k = None \<Longrightarrow> \<exists>e s'. blob_size_of (fs_port u uuid4_hex root) k s = (Inl e, s')
        \<and> blob_missing e \<and> fs_ready root s' \<and> fs_stored root s' = fs_stored root s"
    using fs_size_stored [OF ready, where u = u and k = k] by (auto simp: blob_missing_def)
  show "fs_stored root s k = Some d \<Longrightarrow> \<exists>s'. blob_delete (fs_port u uuid4_hex root) k s = (Inr (), s')
        \<and> fs_ready root s' \<and> fs_stored root s' = (fs_stored root s)(k := None)"
    using fs_delete_stored [OF ready] by simp
  show "fs_stored root s k = None \<Longrightarrow> \<exists>e s'. blob_delete (fs_port u uuid4_hex root) k s = (Inl e, s')
        \<and> blob_missing e \<and> fs_ready root s' \<and> fs_stored root s' = fs_stored root s"
    using fs_delete_absent [OF ready, where u = u and k = k] by (auto simp: blob_missing_def)
qed

end
