(* ===== verification/Filesystem_Faults.thy ===== *)
theory Filesystem_Faults
  imports Filesystem_Contract
begin

text \<open>
  The adapter when calls fail. The machine may refuse any system call at any moment (a full
  disk, an I/O error, a limit) and the task may be cancelled in any of its waits, as long as
  no other process changes the blob tree. Whatever happens, the tree stays intact, an
  operation that raises an error has not changed what is stored, and one that is cancelled
  has changed it as a whole or not at all.
\<close>

section \<open>Steps that may fail\<close>

text \<open>
  The states in which \<open>S\<close> is stored. A refused call may report any error but the two that
  state a fact about the tree (nothing there, a component that is no directory).
\<close>

definition fs_sound :: "path \<Rightarrow> (pystr \<Rightarrow> bytes option) \<Rightarrow> os_state \<Rightarrow> bool" where
  "fs_sound root S s \<longleftrightarrow> others s = (\<lambda>_ t. t) \<and> tree_ok root (tree s) \<and> fs_stored root s = S
     \<and> (\<forall>n. fault s n \<noteq> Some ENOENT \<and> fault s n \<noteq> Some ENOTDIR)
     \<and> (\<forall>p i c m. tree s p = Some (Regular i c m) \<longrightarrow> i < calls s)"

lemma fs_soundD:
  assumes "fs_sound root S s"
  shows "others s = (\<lambda>_ t. t)" and "tree_ok root (tree s)" and "fs_stored root s = S"
    and "tree s p = Some (Regular i c m) \<Longrightarrow> i < calls s"
    and "fault s n \<noteq> Some ENOENT" and "fault s n \<noteq> Some ENOTDIR"
  using assms unfolding fs_sound_def by blast+

lemma fs_sound_upd:
  assumes "fs_sound root S s" and "tree_ok root t" and "tree_stored root t = S'" and "calls s \<le> k"
    and "\<And>p i c m. t p = Some (Regular i c m) \<Longrightarrow> i < k"
  shows "fs_sound root S' (s\<lparr>tree := t, calls := k\<rparr>)"
  using assms by (simp add: fs_sound_def)

lemma fs_sound_ticked: "fs_sound root S s \<Longrightarrow> fs_sound root S (ticked s)"
  by (fastforce simp: fs_sound_def less_Suc_eq)

lemma fs_sound_fds [simp]: "fs_sound root S (s\<lparr>open_fds := k\<rparr>) = fs_sound root S s"
  by (simp add: fs_sound_def)

lemma fs_sound_next_temp [simp]: "fs_sound root S (s\<lparr>next_temp := k\<rparr>) = fs_sound root S s"
  by (simp add: fs_sound_def)

lemma syscall_alone:
  assumes "others s = (\<lambda>_ t. t)"
  obtains (refused) e where "syscall f s = (Inl (OSErr (OSError e)), ticked s)"
  | (performed) a t where "f (wall s (calls s)) (tree s) = Inr (a, t)"
      and "syscall f s = (Inr a, s\<lparr>tree := t, calls := Suc (calls s)\<rparr>)"
proof (cases "fault s (calls s)")
  case (Some e)
  with assms refused show ?thesis by (simp add: syscall_def)
next
  case None
  show ?thesis
  proof (cases "f (wall s (calls s)) (tree s)")
    case (Inl e)
    with None assms refused show ?thesis by (simp add: syscall_def)
  next
    case (Inr q)
    with None assms show ?thesis by (cases q) (simp add: syscall_def performed)
  qed
qed

lemma syscall_refused: "others s = (\<lambda>_ t. t) \<Longrightarrow> syscall f s = (Inl e, s') \<Longrightarrow> s' = ticked s"
  by (rule syscall_alone [where f = f and s = s]) auto

lemma syscall_triple:
  assumes alone: "\<And>s. P s \<Longrightarrow> others s = (\<lambda>_ t. t)"
    and tick: "\<And>s. P s \<Longrightarrow> P (ticked s)"
    and step: "\<And>s a t. P s \<Longrightarrow> f (wall s (calls s)) (tree s) = Inr (a, t) \<Longrightarrow>
      Q a (s\<lparr>tree := t, calls := Suc (calls s)\<rparr>)"
  shows "triple P (syscall f) Q (\<lambda>_. P)"
proof (rule tripleI)
  fix s a s' assume s: "P s" and run: "syscall f s = (Inr a, s')"
  show "Q a s'"
    by (rule syscall_alone [where f = f, OF alone [OF s]]) (use run step [OF s] in auto)
next
  fix s e s' assume s: "P s" and run: "syscall f s = (Inl e, s')"
  show "P s'"
    by (rule syscall_alone [where f = f, OF alone [OF s]]) (use run tick [OF s] in auto)
qed

text \<open>A call in a thread: cancelled, it was refused, performed, or never made.\<close>

lemma to_thread_triple:
  assumes "triple P f Q E" and "\<And>s. P s \<Longrightarrow> E CancelledError (ticked s)"
    and "\<And>a s. Q a s \<Longrightarrow> E CancelledError s" and "\<And>e s. E e s \<Longrightarrow> E CancelledError s"
  shows "triple P (to_thread f) Q E"
  unfolding triple_def
proof (intro allI impI)
  fix s assume "P s"
  with tripleD [OF assms(1) this] assms(2-4)
  show "case to_thread f s of (Inl e, s') \<Rightarrow> E e s' | (Inr a, s') \<Rightarrow> Q a s'"
    by (cases "cancels s (calls s)")
      (auto simp: to_thread_def split: prod.splits sum.splits abandonment.split)
qed

text \<open>Calls that change nothing.\<close>

lemma reader_triple:
  assumes "\<And>s. P s \<Longrightarrow> others s = (\<lambda>_ t. t)" and "\<And>s. P s \<Longrightarrow> P (ticked s)"
    and "\<And>time t a t'. f time t = Inr (a, t') \<Longrightarrow> t' = t"
  shows "triple P (syscall f) (\<lambda>_. P) (\<lambda>_. P)"
proof (rule syscall_triple)
  fix s a t assume "P s" and "f (wall s (calls s)) (tree s) = Inr (a, t)"
  with assms(2) [of s] assms(3) [of _ "tree s" a t] show "P (s\<lparr>tree := t, calls := Suc (calls s)\<rparr>)"
    by fastforce
qed (use assms in blast)+

text \<open>A state of affairs that time and descriptors do not touch.\<close>

definition steady :: "(os_state \<Rightarrow> bool) \<Rightarrow> bool" where
  "steady P \<longleftrightarrow> (\<forall>s. P s \<longrightarrow> others s = (\<lambda>_ t. t) \<and> P (ticked s)) \<and> (\<forall>s k. P (s\<lparr>open_fds := k\<rparr>) = P s)"

lemma steadyD:
  assumes "steady P"
  shows "P s \<Longrightarrow> others s = (\<lambda>_ t. t)" and "P s \<Longrightarrow> P (ticked s)" and "P (s\<lparr>open_fds := k\<rparr>) = P s"
  using assms by (simp_all add: steady_def)

lemma steady_fs_sound: "steady (fs_sound root S)"
  by (simp add: steady_def fs_sound_ticked fs_soundD(1))

lemma to_thread_steady:
  assumes "steady P" and "triple P f (\<lambda>_. P) (\<lambda>_. P)"
  shows "triple P (to_thread f) (\<lambda>_. P) (\<lambda>_. P)"
  using assms(2) by (rule to_thread_triple) (use steadyD [OF assms(1)] in blast)+

lemma touch_triple:
  assumes "steady P"
  shows "triple P os_touch (\<lambda>_. P) (\<lambda>_. P)"
  unfolding os_touch_def by (rule reader_triple) (use steadyD [OF assms] in auto)

lemma lstat_triple:
  assumes "steady P"
  shows "triple P (os_lstat p) (\<lambda>_. P) (\<lambda>_. P)"
  unfolding os_lstat_def
  by (rule reader_triple) (use steadyD [OF assms] in \<open>auto split: sum.splits\<close>)

lemma stat_follow_triple:
  assumes "steady P"
  shows "triple P (stat_follow p) (\<lambda>_. P) (\<lambda>_. P)"
  unfolding stat_follow_def
  by (rule reader_triple) (use steadyD [OF assms] in \<open>auto split: sum.splits option.splits\<close>)

lemma close_triple:
  assumes "steady P"
  shows "triple P os_close (\<lambda>_. P) (\<lambda>_. P)"
proof -
  have "P (s\<lparr>open_fds := open_fds s - 1\<rparr>)" if "P s" for s
    using that steadyD(3) [OF assms] by simp
  from tripleD [OF touch_triple [OF assms] this] show ?thesis
    by (simp add: triple_def os_close_def)
qed

lemma path_exists_triple:
  assumes "steady P"
  shows "triple P (path_exists p) (\<lambda>_. P) E" "triple P (path_is_dir p) (\<lambda>_. P) E"
proof -
  have "triple P (and_then (stat_follow p) (\<lambda>st. returning (f st))) (\<lambda>_. P) (\<lambda>_. P)"
    for f :: "stat_result \<Rightarrow> bool"
    using stat_follow_triple [OF assms] by (rule triple_and_then) (simp add: triple_def)
  note step = this
  show "triple P (path_exists p) (\<lambda>_. P) E"
    unfolding path_exists_def by (rule triple_trying [OF step]) (simp add: triple_def)
  show "triple P (path_is_dir p) (\<lambda>_. P) E"
    unfolding path_is_dir_def by (rule triple_trying [OF step]) (simp add: triple_def)
qed

lemma lstat_or_none_triple:
  assumes "steady P"
  shows "triple P (lstat_or_none p) (\<lambda>_. P) (\<lambda>_. P)"
  unfolding lstat_or_none_def
proof (rule triple_trying)
  show "triple P (and_then (os_lstat p) (\<lambda>st. returning (Some st))) (\<lambda>_. P) (\<lambda>_. P)"
    by (rule triple_and_then [OF lstat_triple [OF assms]]) (rule triple_returning)
  show "triple P (if file_not_found e \<or> not_a_directory e then returning None else raising e)
      (\<lambda>_. P) (\<lambda>_. P)" for e
    by (cases "file_not_found e \<or> not_a_directory e")
      (simp_all only: if_True if_False, simp_all add: triple_def)
qed

section \<open>Making directories\<close>

text \<open>
  The state between the steps of a store: \<open>None\<close> when it holds no scratch file, otherwise the
  scratch file's name, its inode, which no other name has, and what has been written to it.
\<close>

fun fs_holding :: "path \<Rightarrow> (pystr \<Rightarrow> bytes option) \<Rightarrow> (pystr \<times> nat \<times> bytes) option \<Rightarrow> os_state \<Rightarrow> bool" where
  "fs_holding root S None s = fs_sound root S s"
| "fs_holding root S (Some (x, ino, data)) s = (fs_sound root S s
     \<and> sole_inode (tree s) (tmp_dir root @ [x]) ino
     \<and> (\<exists>m. tree s (tmp_dir root @ [x]) = Some (Regular ino data m)))"

lemma fs_holding_None: "fs_holding root S None = fs_sound root S"
  by (simp add: fun_eq_iff)

lemma fs_holding_sound: "fs_holding root S F s \<Longrightarrow> fs_sound root S s"
  by (cases F) auto

lemma steady_fs_holding: "steady (fs_holding root S F)"
  by (cases F) (auto simp: steady_def fs_sound_ticked fs_soundD(1))

definition adapter_dir :: "path \<Rightarrow> path \<Rightarrow> bool" where
  "adapter_dir root q \<longleftrightarrow> prefix q (tmp_dir root) \<or> (\<exists>d. hex64 d \<and> prefix q (shard_dir root d))"

lemma adapter_dir_not_blob: "adapter_dir root q \<Longrightarrow> shard_path (adapter root) d \<noteq> q"
  using shard_not_prefix unfolding adapter_dir_def by blast

lemma adapter_dir_plain: "tree_ok root t \<Longrightarrow> adapter_dir root q \<Longrightarrow> dirs_plain t q"
  unfolding adapter_dir_def by (blast intro: dirs_plain_prefix dest: tree_okD)

lemma tree_ok_mkdir:
  assumes "tree_ok root t" and "adapter_dir root q" and "q \<noteq> []" and "t q = None" and "is_dir_at t (butlast q)"
  shows "tree_ok root (t(q \<mapsto> Directory))"
proof -
  have "dirs_plain (t(q \<mapsto> Directory)) r" if "dirs_plain t r" for r
    using that by (simp add: dirs_plain_def)
  moreover have "closed (t(q \<mapsto> Directory))"
    using assms tree_okD(1) by (intro closed_upd) auto
  ultimately show ?thesis
    using assms(1) adapter_dir_not_blob [OF assms(2)] by (simp add: tree_ok_def)
qed

lemma fs_holding_mkdir:
  assumes "fs_holding root S F s" and "adapter_dir root q" and "q \<noteq> []" and "tree s q = None"
    and "is_dir_at (tree s) (butlast q)"
  shows "fs_holding root S F (s\<lparr>tree := (tree s)(q \<mapsto> Directory), calls := Suc (calls s)\<rparr>)"
proof -
  let ?s = "s\<lparr>tree := (tree s)(q \<mapsto> Directory), calls := Suc (calls s)\<rparr>"
  have sound: "fs_sound root S s" using assms(1) by (rule fs_holding_sound)
  have "tree_ok root ((tree s)(q \<mapsto> Directory))"
    using fs_soundD(2) [OF sound] assms(2-5) by (rule tree_ok_mkdir)
  moreover have "tree_stored root ((tree s)(q \<mapsto> Directory)) = S"
    using adapter_dir_not_blob [OF assms(2)] fs_soundD(3) [OF sound]
    by (subst tree_stored_eqI [where t = "tree s"]) auto
  ultimately have "fs_sound root S ?s"
    using fs_soundD(4) [OF sound] by (intro fs_sound_upd [OF sound]) (auto simp: less_Suc_eq split: if_splits)
  moreover have "sole_inode (tree ?s) p i" if "sole_inode (tree s) p i" for p i
    using that by (simp add: sole_inode_def)
  ultimately show ?thesis
    using assms(1,4) by (cases F) auto
qed

lemma mkdir_triple:
  assumes "adapter_dir root q"
  shows "triple (fs_holding root S F) (os_mkdir q) (\<lambda>_. fs_holding root S F) (\<lambda>_. fs_holding root S F)"
  unfolding os_mkdir_def
proof (rule syscall_triple)
  fix s a t
  assume s: "fs_holding root S F s" and step: "(case locate (tree s) q of Inl e \<Rightarrow> Inl e
     | Inr q \<Rightarrow> (case node_at (tree s) q of
         None \<Rightarrow> Inr ((), (tree s)(q \<mapsto> Directory))
       | Some _ \<Rightarrow> Inl EEXIST)) = Inr (a, t)"
  note ok = fs_soundD(2) [OF fs_holding_sound [OF s]]
  have q: "q \<noteq> []"
    using step by (auto simp: node_at_def)
  have "locate (tree s) q = (if is_dir_at (tree s) (butlast q) then Inr q else Inl ENOENT)"
    using tree_okD(1) [OF ok] dirs_plain_butlast [OF adapter_dir_plain [OF ok assms]] q
    by (rule locate_plain)
  with step q have "is_dir_at (tree s) (butlast q)" and "tree s q = None" and "t = (tree s)(q \<mapsto> Directory)"
    by (auto simp: node_at_def split: if_splits option.splits)
  with fs_holding_mkdir [OF s assms q] show "fs_holding root S F (s\<lparr>tree := t, calls := Suc (calls s)\<rparr>)"
    by simp
qed (use steadyD [OF steady_fs_holding] in blast)+

lemma mkdir_or_there_triple:
  assumes "adapter_dir root q"
  shows "triple (fs_holding root S F) (mkdir_or_there q) (\<lambda>_. fs_holding root S F) (\<lambda>_. fs_holding root S F)"
  unfolding mkdir_or_there_def
proof (rule triple_trying [OF mkdir_triple [OF assms]])
  fix e :: exn
  show "triple (fs_holding root S F) (and_then (path_is_dir q) (\<lambda>d. if d then returning () else raising e))
      (\<lambda>_. fs_holding root S F) (\<lambda>_. fs_holding root S F)"
    by (rule triple_and_then [OF path_exists_triple(2) [OF steady_fs_holding]]) (simp add: triple_def)
qed

lemma makedirs_triple:
  assumes "adapter_dir root q"
  shows "triple (fs_holding root S F) (makedirs q) (\<lambda>_. fs_holding root S F) (\<lambda>_. fs_holding root S F)"
proof -
  have "adapter_dir root (rev rs) \<Longrightarrow>
    triple (fs_holding root S F) (makedirs_rev rs) (\<lambda>_. fs_holding root S F) (\<lambda>_. fs_holding root S F)" for rs
  proof (induction rs)
    case Nil
    then show ?case
      using mkdir_or_there_triple [of root "[]"] by (simp add: mkdir_or_there_def)
  next
    case (Cons c rs)
    have parent: "adapter_dir root (rev rs)"
      using Cons.prems unfolding adapter_dir_def by (auto dest: append_prefixD)
    have "triple (fs_holding root S F)
        (and_then (path_exists (rev rs)) (\<lambda>there. if there then returning ()
          else trying (makedirs_rev rs) (\<lambda>e. if file_exists_error e then returning () else raising e)))
        (\<lambda>_. fs_holding root S F) (\<lambda>_. fs_holding root S F)"
    proof (rule triple_and_then [OF path_exists_triple(1) [OF steady_fs_holding]])
      fix there :: bool
      have "triple (fs_holding root S F)
          (trying (makedirs_rev rs) (\<lambda>e. if file_exists_error e then returning () else raising e))
          (\<lambda>_. fs_holding root S F) (\<lambda>_. fs_holding root S F)"
        by (rule triple_trying [OF Cons.IH [OF parent]]) (simp add: triple_def)
      then show "triple (fs_holding root S F) (if there then returning ()
          else trying (makedirs_rev rs) (\<lambda>e. if file_exists_error e then returning () else raising e))
          (\<lambda>_. fs_holding root S F) (\<lambda>_. fs_holding root S F)"
        by (simp add: triple_def)
    qed
    then show ?case
      unfolding makedirs_rev.simps mkdir_or_there_def [symmetric]
      by (rule triple_and_then) (rule mkdir_or_there_triple [OF Cons.prems])
  qed
  from this [of "rev q"] assms show ?thesis by (simp add: makedirs_def)
qed

section \<open>The scratch file\<close>

lemma locate_tmp:
  assumes "fs_sound root S s"
  shows "locate (tree s) (tmp_dir root @ [x]) =
    (if is_dir_at (tree s) (tmp_dir root) then Inr (tmp_dir root @ [x]) else Inl ENOENT)"
  using locate_plain [OF tree_okD(1), of root "tree s" "tmp_dir root @ [x]"]
    fs_soundD(2) [OF assms] tree_okD(2) by simp

lemma fs_sound_scratch:
  assumes "fs_sound root S s" and "tree s (tmp_dir root @ [x]) \<noteq> Some Directory"
    and "n = None \<or> is_dir_at (tree s) (tmp_dir root)"
    and "\<And>i c m. n = Some (Regular i c m) \<Longrightarrow> i \<le> calls s"
  shows "fs_sound root S (s\<lparr>tree := (tree s)(tmp_dir root @ [x] := n), calls := Suc (calls s)\<rparr>)"
proof (rule fs_sound_upd [OF assms(1)])
  show "tree_ok root ((tree s)(tmp_dir root @ [x] := n))"
    using fs_soundD(2) [OF assms(1)] assms(2,3) by (rule tree_ok_scratch)
  show "tree_stored root ((tree s)(tmp_dir root @ [x] := n)) = S"
    using fs_soundD(3) [OF assms(1)] by (simp add: tree_stored_scratch)
  show "i < Suc (calls s)" if "((tree s)(tmp_dir root @ [x] := n)) p = Some (Regular i c m)" for p i c m
    using that assms(4) fs_soundD(4) [OF assms(1), of p i c m] by (auto simp: less_Suc_eq_le split: if_splits)
qed simp

lemma create_triple:
  "triple (fs_sound root S) (os_create_excl (tmp_dir root @ [x]))
     (\<lambda>ino. fs_holding root S (Some (x, ino, []))) (\<lambda>_. fs_sound root S)"
proof -
  let ?file = "tmp_dir root @ [x]"
  have "triple (\<lambda>s. fs_sound root S s \<and> calls s = k)
      (syscall (\<lambda>time t. case locate t ?file of Inl e \<Rightarrow> Inl e
          | Inr q \<Rightarrow> (case node_at t q of Some _ \<Rightarrow> Inl EEXIST
            | None \<Rightarrow> Inr (k, t(q \<mapsto> Regular k [] time)))))
      (\<lambda>ino. fs_holding root S (Some (x, ino, []))) (\<lambda>_. fs_sound root S)" for k
  proof (rule tripleI)
    fix s a s'
    assume s: "fs_sound root S s \<and> calls s = k" and run: "syscall (\<lambda>time t. case locate t ?file of Inl e \<Rightarrow> Inl e
          | Inr q \<Rightarrow> (case node_at t q of Some _ \<Rightarrow> Inl EEXIST
            | None \<Rightarrow> Inr (k, t(q \<mapsto> Regular k [] time)))) s = (Inr a, s')"
    let ?t = "(tree s)(?file \<mapsto> Regular k [] (wall s k))"
    have sound: "fs_sound root S s" and k: "calls s = k" using s by auto
    have dir: "is_dir_at (tree s) (tmp_dir root)" and free: "tree s ?file = None" and a: "a = k"
      and s': "s' = s\<lparr>tree := ?t, calls := Suc k\<rparr>"
      using run locate_tmp [OF sound, of x] k fs_soundD(1) [OF sound]
      by (auto simp: syscall_def Let_def node_at_def split: option.splits if_splits)
    have "fs_sound root S (s\<lparr>tree := ?t, calls := Suc (calls s)\<rparr>)"
      using sound free dir k by (intro fs_sound_scratch) auto
    moreover have "sole_inode ?t ?file k"
      using fs_soundD(4) [OF sound] k by (intro sole_inode_new) auto
    ultimately show "fs_holding root S (Some (x, a, [])) s'"
      using k by (simp add: a s')
  next
    fix s e s'
    assume s: "fs_sound root S s \<and> calls s = k" and run: "syscall (\<lambda>time t. case locate t ?file of Inl e \<Rightarrow> Inl e
          | Inr q \<Rightarrow> (case node_at t q of Some _ \<Rightarrow> Inl EEXIST
            | None \<Rightarrow> Inr (k, t(q \<mapsto> Regular k [] time)))) s = (Inl e, s')"
    from s have "others s = (\<lambda>_ t. t)" by (auto dest: fs_soundD(1))
    from syscall_refused [OF this run] have "s' = ticked s" .
    with s show "fs_sound root S s'" by (auto intro: fs_sound_ticked)
  qed
  note step = tripleD [OF this]
  show ?thesis
    unfolding triple_def
  proof (intro allI impI)
    fix s assume "fs_sound root S s"
    with step [of s "calls s"] show "case os_create_excl ?file s of
        (Inl e, s') \<Rightarrow> fs_sound root S s' | (Inr ino, s') \<Rightarrow> fs_holding root S (Some (x, ino, [])) s'"
      by (auto simp: os_create_excl_def and_then_def split: prod.splits sum.splits)
  qed
qed

definition fs_spooled :: "path \<Rightarrow> (pystr \<Rightarrow> bytes option) \<Rightarrow> bytes \<Rightarrow> nat \<times> path \<Rightarrow> os_state \<Rightarrow> bool" where
  "fs_spooled root S data r s \<longleftrightarrow>
     (\<exists>x. snd r = tmp_dir root @ [x] \<and> fs_holding root S (Some (x, fst r, data)) s)"

lemma mkstemp_triple:
  "triple (fs_sound root S) (mkstemp (tmp_dir root) suf) (fs_spooled root S []) (\<lambda>_. fs_sound root S)"
proof -
  have "triple (fs_sound root S) (mkstemp_try n (tmp_dir root) suf) (fs_spooled root S []) (\<lambda>_. fs_sound root S)" for n
  proof (induction n)
    case 0
    show ?case by (simp add: triple_def)
  next
    case (Suc n)
    show ?case
      unfolding mkstemp_try.simps Let_def
    proof (rule triple_and_then)
      show "triple (fs_sound root S) take_temp_name (\<lambda>_. fs_sound root S) (\<lambda>_. fs_sound root S)"
        by (simp add: triple_def take_temp_name_def)
      fix name
      let ?file = "tmp_dir root @ [lit ''tmp'' @ name @ suf]"
      have "triple (fs_sound root S) (and_then (os_create_excl ?file) (\<lambda>ino. returning (ino, ?file)))
          (fs_spooled root S []) (\<lambda>_. fs_sound root S)"
        by (rule triple_and_then [OF create_triple]) (simp add: triple_def fs_spooled_def)
      then show "triple (fs_sound root S)
          (trying (and_then (os_create_excl ?file) (\<lambda>ino. returning (ino, ?file)))
            (\<lambda>e. if file_exists_error e then mkstemp_try n (tmp_dir root) suf else raising e))
          (fs_spooled root S []) (\<lambda>_. fs_sound root S)"
        by (rule triple_trying) (use Suc.IH in \<open>simp add: triple_def\<close>)
    qed
  qed
  then show ?thesis by (simp add: mkstemp_def)
qed

lemma write_triple:
  "triple (fs_holding root S (Some (x, ino, data))) (os_write ino bs)
     (\<lambda>_. fs_holding root S (Some (x, ino, data @ bs))) (\<lambda>_. fs_holding root S (Some (x, ino, data)))"
  unfolding os_write_def
proof (rule syscall_triple)
  let ?file = "tmp_dir root @ [x]"
  fix s a t
  assume s: "fs_holding root S (Some (x, ino, data)) s"
    and "Inr ((), write_inode ino bs (wall s (calls s)) (tree s)) = Inr (a, t)"
  then have t: "t = (tree s)(?file \<mapsto> Regular ino (data @ bs) (wall s (calls s)))"
    and sound: "fs_sound root S s"
    using write_inode_sole by auto
  from s obtain m where here: "tree s ?file = Some (Regular ino data m)" by auto
  have "is_dir_at (tree s) (tmp_dir root)"
    using tree_okD(1) [OF fs_soundD(2) [OF sound]] here by (rule closedD)
  with sound here have "fs_sound root S (s\<lparr>tree := t, calls := Suc (calls s)\<rparr>)"
    unfolding t using fs_soundD(4) [OF sound here] by (intro fs_sound_scratch) auto
  moreover have "sole_inode t ?file ino"
    using s unfolding t by (intro sole_inode_upd) simp
  ultimately show "fs_holding root S (Some (x, ino, data @ bs)) (s\<lparr>tree := t, calls := Suc (calls s)\<rparr>)"
    by (simp add: t)
qed (use steadyD [OF steady_fs_holding] in blast)+

lemma unlink_scratch_triple:
  "triple (fs_holding root S (Some (x, ino, data))) (os_unlink (tmp_dir root @ [x]))
     (\<lambda>_. fs_sound root S) (\<lambda>_. fs_sound root S)"
proof (rule triple_weaken)
  let ?file = "tmp_dir root @ [x]"
  show "triple (fs_holding root S (Some (x, ino, data))) (os_unlink ?file)
     (\<lambda>_. fs_sound root S) (\<lambda>_. fs_holding root S (Some (x, ino, data)))"
    unfolding os_unlink_def
  proof (rule syscall_triple)
    fix s a t
    assume s: "fs_holding root S (Some (x, ino, data)) s"
      and step: "(case locate (tree s) ?file of Inl e \<Rightarrow> Inl e
       | Inr q \<Rightarrow> (case node_at (tree s) q of None \<Rightarrow> Inl ENOENT
         | Some Directory \<Rightarrow> Inl EISDIR
         | Some _ \<Rightarrow> Inr ((), (tree s)(q := None)))) = Inr (a, t)"
    from s obtain m where here: "tree s ?file = Some (Regular ino data m)" and sound: "fs_sound root S s"
      by auto
    from step here have "t = (tree s)(?file := None)"
      by (auto simp: locate_tmp [OF sound] node_at_def split: if_splits)
    with sound here show "fs_sound root S (s\<lparr>tree := t, calls := Suc (calls s)\<rparr>)"
      by (auto intro!: fs_sound_scratch)
  qed (use steadyD [OF steady_fs_holding] in blast)+
qed auto

lemma unlink_scratch_thread_triple:
  "triple (fs_holding root S (Some (x, ino, data))) (to_thread (os_unlink (tmp_dir root @ [x])))
     (\<lambda>_. fs_sound root S) (\<lambda>_. fs_sound root S)"
  using unlink_scratch_triple
  by (rule to_thread_triple) (auto intro: fs_sound_ticked fs_holding_sound simp del: fs_holding.simps)

section \<open>Spooling\<close>

definition fs_partial :: "path \<Rightarrow> (pystr \<Rightarrow> bytes option) \<Rightarrow> pystr \<Rightarrow> nat \<Rightarrow> os_state \<Rightarrow> bool" where
  "fs_partial root S x ino s \<longleftrightarrow> (\<exists>data. fs_holding root S (Some (x, ino, data)) s)"

lemma steady_fs_partial: "steady (fs_partial root S x ino)"
  using steadyD [OF steady_fs_holding] unfolding steady_def fs_partial_def by blast

lemma fs_partialI: "fs_holding root S (Some (x, ino, data)) s \<Longrightarrow> fs_partial root S x ino s"
  unfolding fs_partial_def by blast

lemma spool_chunks_triple:
  "triple (fs_holding root S (Some (x, ino, data))) (spool_chunks ino cs err digest)
     (\<lambda>d s. d = digest @ concat cs \<and> err = None \<and> fs_holding root S (Some (x, ino, data @ concat cs)) s)
     (\<lambda>_. fs_partial root S x ino)"
proof (induction cs arbitrary: data digest)
  case Nil
  show ?case
    using fs_partialI [of root S x ino data] by (cases err) (auto simp: triple_def)
next
  case (Cons chunk cs)
  show ?case
    unfolding spool_chunks.simps
  proof (rule triple_and_then)
    have "triple (fs_holding root S (Some (x, ino, data))) (os_write ino chunk)
        (\<lambda>_. fs_holding root S (Some (x, ino, data @ chunk))) (\<lambda>_. fs_partial root S x ino)"
      using write_triple by (rule triple_weaken) (auto intro: fs_partialI)
    then show "triple (fs_holding root S (Some (x, ino, data))) (to_thread (os_write ino chunk))
        (\<lambda>_. fs_holding root S (Some (x, ino, data @ chunk))) (\<lambda>_. fs_partial root S x ino)"
      by (rule to_thread_triple) (use steadyD [OF steady_fs_holding] fs_partialI in blast)+
    show "triple (fs_holding root S (Some (x, ino, data @ chunk))) (spool_chunks ino cs err (digest @ chunk))
        (\<lambda>d s. d = digest @ concat (chunk # cs) \<and> err = None
           \<and> fs_holding root S (Some (x, ino, data @ concat (chunk # cs))) s)
        (\<lambda>_. fs_partial root S x ino)" for r :: unit
      using Cons.IH [of "data @ chunk" "digest @ chunk"] by (simp del: fs_holding.simps)
  qed
qed

lemma unlink_partial_triple:
  "triple (fs_partial root S x ino) (unlink_missing_ok (tmp_dir root @ [x]))
     (\<lambda>_. fs_sound root S) (\<lambda>_. fs_sound root S)"
proof -
  have "triple (fs_partial root S x ino) (os_unlink (tmp_dir root @ [x]))
      (\<lambda>_. fs_sound root S) (\<lambda>_. fs_sound root S)"
    unfolding fs_partial_def by (rule triple_ex) (rule unlink_scratch_triple)
  then show ?thesis
    unfolding unlink_missing_ok_def by (rule triple_trying) (simp add: triple_def)
qed

lemma unlink_partial_thread_triple:
  "triple (fs_partial root S x ino) (to_thread (unlink_missing_ok (tmp_dir root @ [x])))
     (\<lambda>_. fs_sound root S) (\<lambda>_. fs_sound root S)"
  using unlink_partial_triple
  by (rule to_thread_triple)
    (auto simp: fs_partial_def simp del: fs_holding.simps intro: fs_sound_ticked fs_holding_sound)

text \<open>A scratch file whose name was lost with the wait is a file of no importance.\<close>

lemma mkstemp_thread_triple:
  "triple (fs_sound root S) (to_thread (mkstemp (tmp_dir root) suf)) (fs_spooled root S []) (\<lambda>_. fs_sound root S)"
  using mkstemp_triple
  by (rule to_thread_triple)
    (auto simp: fs_spooled_def simp del: fs_holding.simps intro: fs_sound_ticked fs_holding_sound)

definition spool_result :: "path \<Rightarrow> (pystr \<Rightarrow> bytes option) \<Rightarrow> byte_stream \<Rightarrow> path \<times> pystr \<Rightarrow> os_state \<Rightarrow> bool" where
  "spool_result root S c r s \<longleftrightarrow> stream_error c = None \<and> snd r = sha256_hexdigest (stream_data c)
     \<and> (\<exists>x ino. fst r = tmp_dir root @ [x] \<and> fs_holding root S (Some (x, ino, stream_data c)) s)"

lemma spool_body_triple:
  "triple (fs_holding root S (Some (x, ino, [])))
     (finally_do
        (and_then (spool_chunks ino (stream_chunks c) (stream_error c) [])
           (\<lambda>digest. and_then (to_thread os_touch) (\<lambda>_. and_then (to_thread os_touch) (\<lambda>_.
              returning (tmp_dir root @ [x], sha256_hexdigest digest)))))
        (to_thread os_close))
     (spool_result root S c) (\<lambda>_. fs_partial root S x ino)"
proof (rule triple_finally)
  let ?Q = "\<lambda>r s. stream_error c = None \<and> r = (tmp_dir root @ [x], sha256_hexdigest (stream_data c))
    \<and> fs_holding root S (Some (x, ino, stream_data c)) s"
  have touch: "triple (\<lambda>s. stream_error c = None \<and> fs_holding root S (Some (x, ino, stream_data c)) s) (to_thread os_touch)
      (\<lambda>_ s. stream_error c = None \<and> fs_holding root S (Some (x, ino, stream_data c)) s)
      (\<lambda>_. fs_partial root S x ino)"
    by (rule triple_weaken [OF to_thread_steady [OF _ touch_triple, where P =
          "\<lambda>s. stream_error c = None \<and> fs_holding root S (Some (x, ino, stream_data c)) s"]])
      (use steady_fs_holding [of root S "Some (x, ino, stream_data c)"]
       in \<open>auto simp: steady_def simp del: fs_holding.simps intro: fs_partialI\<close>)
  show "triple (fs_holding root S (Some (x, ino, [])))
     (and_then (spool_chunks ino (stream_chunks c) (stream_error c) [])
       (\<lambda>digest. and_then (to_thread os_touch) (\<lambda>_. and_then (to_thread os_touch) (\<lambda>_.
          returning (tmp_dir root @ [x], sha256_hexdigest digest)))))
     ?Q (\<lambda>_. fs_partial root S x ino)"
  proof (rule triple_and_then [OF spool_chunks_triple])
    fix digest
    have tail: "triple (\<lambda>s. stream_error c = None \<and> fs_holding root S (Some (x, ino, stream_data c)) s)
        (and_then (to_thread os_touch) (\<lambda>_. and_then (to_thread os_touch) (\<lambda>_.
           returning (tmp_dir root @ [x], sha256_hexdigest (stream_data c)))))
        ?Q (\<lambda>_. fs_partial root S x ino)"
      by (rule triple_and_then [OF touch], rule triple_and_then [OF touch], rule triple_returning) simp
    show "triple (\<lambda>s. digest = [] @ concat (stream_chunks c) \<and> stream_error c = None
          \<and> fs_holding root S (Some (x, ino, [] @ concat (stream_chunks c))) s)
        (and_then (to_thread os_touch) (\<lambda>_. and_then (to_thread os_touch) (\<lambda>_.
           returning (tmp_dir root @ [x], sha256_hexdigest digest))))
        ?Q (\<lambda>_. fs_partial root S x ino)"
    proof (cases "digest = stream_data c")
      case True
      from tail show ?thesis
        unfolding True by (rule triple_weaken) (auto simp: stream_data_def)
    next
      case False
      then show ?thesis by (simp add: triple_def stream_data_def)
    qed
  qed
  show "triple (?Q r) (to_thread os_close) (\<lambda>_. spool_result root S c r) (\<lambda>_. fs_partial root S x ino)" for r
    by (rule triple_weaken [OF to_thread_steady [OF _ close_triple, where P = "?Q r"]])
      (use steady_fs_holding [of root S "Some (x, ino, stream_data c)"]
       in \<open>auto simp: steady_def spool_result_def simp del: fs_holding.simps intro: fs_partialI\<close>)
  show "triple (fs_partial root S x ino) (to_thread os_close) (\<lambda>_. fs_partial root S x ino) (\<lambda>_. fs_partial root S x ino)"
    for e :: exn
    by (rule to_thread_steady [OF steady_fs_partial close_triple [OF steady_fs_partial]])
qed

lemma spool_triple:
  "triple (fs_sound root S) (spool (adapter root) c) (spool_result root S c) (\<lambda>_. fs_sound root S)"
  unfolding spool_def adapter_simps tmp_dir_def [symmetric]
proof (rule triple_and_then)
  show "triple (fs_sound root S) (to_thread (makedirs (tmp_dir root))) (\<lambda>_. fs_sound root S) (\<lambda>_. fs_sound root S)"
    unfolding fs_holding_None [symmetric]
    by (rule to_thread_steady [OF steady_fs_holding], rule makedirs_triple) (simp add: adapter_dir_def)
  fix u :: unit
  show "triple (fs_sound root S) (and_then (to_thread (mkstemp (tmp_dir root) (lit ''.part''))) (\<lambda>(descriptor, tmp_path).
     trying
       (and_then (to_thread os_touch) (\<lambda>_.
          finally_do
            (and_then (spool_chunks descriptor (stream_chunks c) (stream_error c) [])
               (\<lambda>digest. and_then (to_thread os_touch) (\<lambda>_. and_then (to_thread os_touch) (\<lambda>_.
                 returning (tmp_path, sha256_hexdigest digest)))))
            (to_thread os_close)))
       (\<lambda>e. and_then (to_thread (unlink_missing_ok tmp_path)) (\<lambda>_. raising e))))
     (spool_result root S c) (\<lambda>_. fs_sound root S)"
  proof (rule triple_and_then [OF mkstemp_thread_triple], clarify)
    fix ino tmp_path
    have "triple (fs_holding root S (Some (x, ino, [])))
      (trying
       (and_then (to_thread os_touch) (\<lambda>_.
          finally_do
            (and_then (spool_chunks ino (stream_chunks c) (stream_error c) [])
               (\<lambda>digest. and_then (to_thread os_touch) (\<lambda>_. and_then (to_thread os_touch) (\<lambda>_.
                 returning (tmp_dir root @ [x], sha256_hexdigest digest)))))
            (to_thread os_close)))
       (\<lambda>e. and_then (to_thread (unlink_missing_ok (tmp_dir root @ [x]))) (\<lambda>_. raising e)))
      (spool_result root S c) (\<lambda>_. fs_sound root S)" for x
    proof (rule triple_trying)
      show "triple (fs_holding root S (Some (x, ino, [])))
       (and_then (to_thread os_touch) (\<lambda>_.
          finally_do
            (and_then (spool_chunks ino (stream_chunks c) (stream_error c) [])
               (\<lambda>digest. and_then (to_thread os_touch) (\<lambda>_. and_then (to_thread os_touch) (\<lambda>_.
                 returning (tmp_dir root @ [x], sha256_hexdigest digest)))))
            (to_thread os_close)))
       (spool_result root S c) (\<lambda>_. fs_partial root S x ino)"
        by (rule triple_and_then [OF triple_weaken [OF to_thread_steady [OF steady_fs_holding touch_triple [OF steady_fs_holding]]]
              spool_body_triple])
          (auto intro: fs_partialI simp del: fs_holding.simps)
      show "triple (fs_partial root S x ino) (and_then (to_thread (unlink_missing_ok (tmp_dir root @ [x]))) (\<lambda>_. raising e))
          (spool_result root S c) (\<lambda>_. fs_sound root S)" for e
        by (rule triple_and_then [OF unlink_partial_thread_triple]) (simp add: triple_raising)
    qed
    then show "triple (fs_spooled root S [] (ino, tmp_path))
      (trying
       (and_then (to_thread os_touch) (\<lambda>_.
          finally_do
            (and_then (spool_chunks ino (stream_chunks c) (stream_error c) [])
               (\<lambda>digest. and_then (to_thread os_touch) (\<lambda>_. and_then (to_thread os_touch) (\<lambda>_.
                 returning (tmp_path, sha256_hexdigest digest)))))
            (to_thread os_close)))
       (\<lambda>e. and_then (to_thread (unlink_missing_ok tmp_path)) (\<lambda>_. raising e)))
      (spool_result root S c) (\<lambda>_. fs_sound root S)"
      unfolding fs_spooled_def fst_conv snd_conv by (intro triple_ex triple_fact) (simp only:)
  qed
qed

section \<open>Storing\<close>

lemma locate_shard:
  assumes "fs_sound root S s" and "hex64 d"
  shows "locate (tree s) (shard_path (adapter root) d) =
    (if is_dir_at (tree s) (shard_dir root d) then Inr (shard_path (adapter root) d) else Inl ENOENT)"
  using locate_plain [OF tree_okD(1), of root "tree s" "shard_path (adapter root) d"]
    fs_soundD(2) [OF assms(1)] tree_okD(3) [OF _ assms(2)] by simp

lemma lookup_shard:
  assumes "fs_sound root S s" and "hex64 d"
  shows "lookup (tree s) (shard_path (adapter root) d) =
    (case tree s (shard_path (adapter root) d) of None \<Rightarrow> Inl ENOENT | Some n \<Rightarrow> Inr n)"
  using lookup_plain [OF tree_okD(1), of root "tree s" "shard_path (adapter root) d"]
    fs_soundD(2) [OF assms(1)] tree_okD(3) [OF _ assms(2)] by simp

lemma sound_digest:
  assumes "fs_sound root S s" and "hex64 d"
  shows "S (KEY_PREFIX @ d) = None \<longleftrightarrow> tree s (shard_path (adapter root) d) = None"
    and "S (KEY_PREFIX @ d) = Some c \<longleftrightarrow> (\<exists>i m. tree s (shard_path (adapter root) d) = Some (Regular i c m))"
  using stored_digest [OF fs_soundD(2) [OF assms(1)] assms(2)] fs_soundD(3) [OF assms(1)] by simp_all

text \<open>What the look at the target tells: its answer is a fact about what is stored.\<close>

definition entry_agrees :: "bytes option \<Rightarrow> stat_result option \<Rightarrow> bool" where
  "entry_agrees n r = (case r of None \<Rightarrow> n = None
     | Some st \<Rightarrow> (\<exists>c. n = Some c \<and> st_mode st = Reg \<and> st_size st = length c))"

lemma lstat_target_triple:
  assumes "hex64 d"
  shows "triple (fs_holding root S F) (lstat_or_none (shard_path (adapter root) d))
    (\<lambda>r s. entry_agrees (S (KEY_PREFIX @ d)) r \<and> fs_holding root S F s) (\<lambda>_. fs_holding root S F)"
proof (rule tripleI)
  let ?p = "shard_path (adapter root) d"
  fix s e s' assume "fs_holding root S F s" and "lstat_or_none ?p s = (Inl e, s')"
  then show "fs_holding root S F s'"
    using triple_Inl [OF lstat_or_none_triple [OF steady_fs_holding]] by blast
next
  let ?p = "shard_path (adapter root) d"
  fix s r s' assume s: "fs_holding root S F s" and run: "lstat_or_none ?p s = (Inr r, s')"
  note sound = fs_holding_sound [OF s]
  have "fs_holding root S F s'"
    using triple_Inr [OF lstat_or_none_triple [OF steady_fs_holding] s run] .
  moreover have "fault s (calls s) = None"
    using run fs_soundD(5,6) [OF sound, of "calls s"]
    by (auto simp: lstat_or_none_def os_lstat_def syscall_def trying_def and_then_def Let_def
        file_not_found_def not_a_directory_def split: option.splits if_splits)
  with run have "r = map_option stat_of (tree s ?p)"
    using fs_soundD(1) [OF sound] lookup_shard [OF sound assms]
    by (cases "tree s ?p") (auto simp: lstat_or_none_def os_lstat_def syscall_def trying_def
        and_then_def Let_def file_not_found_def not_a_directory_def)
  with tree_okD(4) [OF fs_soundD(2) [OF sound] assms] sound_digest [OF sound assms]
  have "entry_agrees (S (KEY_PREFIX @ d)) r"
    by (cases "tree s ?p") (auto simp: entry_agrees_def blob_ok_def split: node.splits)
  ultimately show "entry_agrees (S (KEY_PREFIX @ d)) r \<and> fs_holding root S F s'" by simp
qed

lemma lstat_target_thread_triple:
  assumes "hex64 d"
  shows "triple (fs_holding root S F) (to_thread (lstat_or_none (shard_path (adapter root) d)))
    (\<lambda>r s. entry_agrees (S (KEY_PREFIX @ d)) r \<and> fs_holding root S F s) (\<lambda>_. fs_holding root S F)"
  using lstat_target_triple [OF assms]
  by (rule to_thread_triple) (use steadyD(2) [OF steady_fs_holding] in blast)+

lemma lstat_scratch_triple:
  "triple (fs_holding root S (Some (x, ino, data))) (os_lstat (tmp_dir root @ [x]))
    (\<lambda>st s. st_size st = length data \<and> fs_holding root S (Some (x, ino, data)) s)
    (\<lambda>_. fs_sound root S)"
proof (rule tripleI)
  fix s e s' assume "fs_holding root S (Some (x, ino, data)) s" and "os_lstat (tmp_dir root @ [x]) s = (Inl e, s')"
  then show "fs_sound root S s'"
    using triple_Inl [OF lstat_triple [OF steady_fs_holding]] fs_holding_sound by blast
next
  fix s st s' assume s: "fs_holding root S (Some (x, ino, data)) s"
    and run: "os_lstat (tmp_dir root @ [x]) s = (Inr st, s')"
  note sound = fs_holding_sound [OF s]
  have "fs_holding root S (Some (x, ino, data)) s'"
    using triple_Inr [OF lstat_triple [OF steady_fs_holding] s run] .
  moreover have "st_size st = length data"
    using s run locate_tmp [OF sound, of x] fs_soundD(1) [OF sound]
    by (auto simp: os_lstat_def syscall_def Let_def lookup_def node_at_def split: option.splits if_splits)
  ultimately show "st_size st = length data \<and> fs_holding root S (Some (x, ino, data)) s'" by simp
qed

lemma lstat_scratch_thread_triple:
  "triple (fs_holding root S (Some (x, ino, data))) (to_thread (os_lstat (tmp_dir root @ [x])))
    (\<lambda>st s. st_size st = length data \<and> fs_holding root S (Some (x, ino, data)) s)
    (\<lambda>_. fs_sound root S)"
  using lstat_scratch_triple
  by (rule to_thread_triple) (auto intro: fs_sound_ticked fs_holding_sound simp del: fs_holding.simps)

lemma publish_triple:
  assumes "sha256_hexdigest data = d"
  shows "triple (fs_holding root S (Some (x, ino, data)))
    (os_rename (tmp_dir root @ [x]) (shard_path (adapter root) d))
    (\<lambda>_. fs_sound root (S(KEY_PREFIX @ d \<mapsto> data))) (\<lambda>_. fs_sound root S)"
proof (rule triple_weaken)
  let ?file = "tmp_dir root @ [x]" and ?target = "shard_path (adapter root) d"
  have d: "hex64 d" using assms by auto
  show "triple (fs_holding root S (Some (x, ino, data))) (os_rename ?file ?target)
    (\<lambda>_. fs_sound root (S(KEY_PREFIX @ d \<mapsto> data))) (\<lambda>_. fs_holding root S (Some (x, ino, data)))"
    unfolding os_rename_def
  proof (rule syscall_triple)
    fix s a t
    assume s: "fs_holding root S (Some (x, ino, data)) s"
      and step: "(case locate (tree s) ?file of Inl e \<Rightarrow> Inl e
     | Inr a \<Rightarrow> (case node_at (tree s) a of
         None \<Rightarrow> Inl ENOENT
       | Some Directory \<Rightarrow> Inl EINVAL
       | Some n \<Rightarrow> (case locate (tree s) ?target of Inl e \<Rightarrow> Inl e
           | Inr b \<Rightarrow> if node_at (tree s) b = Some Directory then Inl EISDIR
                      else Inr ((), ((tree s)(a := None))(b \<mapsto> n))))) = Inr (a, t)"
    note sound = fs_holding_sound [OF s]
    from s obtain m where here: "tree s ?file = Some (Regular ino data m)" by auto
    have dir: "is_dir_at (tree s) (shard_dir root d)"
      and t: "t = ((tree s)(?file := None))(?target \<mapsto> Regular ino data m)"
      using step here locate_tmp [OF sound, of x] locate_shard [OF sound d]
      by (auto simp: node_at_def split: if_splits)
    have dir': "is_dir_at ((tree s)(?file := None)) (shard_dir root d)"
      using dir tmp_child_not_shard_dir [OF d] by (auto simp: is_dir_at_def)
    have ok: "tree_ok root ((tree s)(?file := None))"
      using tree_ok_scratch [OF fs_soundD(2) [OF sound], of x None] here by simp
    show "fs_sound root (S(KEY_PREFIX @ d \<mapsto> data)) (s\<lparr>tree := t, calls := Suc (calls s)\<rparr>)"
    proof (rule fs_sound_upd [OF sound])
      show "tree_ok root t"
        unfolding t using ok d dir' assms by (intro tree_ok_blob) (auto simp: blob_ok_def)
      show "tree_stored root t = S(KEY_PREFIX @ d \<mapsto> data)"
        unfolding t tree_stored_blob [OF d] tree_stored_scratch fs_soundD(3) [OF sound] by simp
      show "i < Suc (calls s)" if "t p = Some (Regular i c m')" for p i c m'
        using that fs_soundD(4) [OF sound here] fs_soundD(4) [OF sound, of p i c m']
        by (auto simp: t split: if_splits)
    qed simp
  qed (use steadyD [OF steady_fs_holding] in blast)+
qed auto

text \<open>
  A store in which any call may fail and any wait may be cancelled. When it succeeds, what it
  returns is true and the content is stored, once; when it raises, nothing that was stored has
  changed, unless it was cancelled while the file was being moved into place.
\<close>

definition put_post :: "path \<Rightarrow> (pystr \<Rightarrow> bytes option) \<Rightarrow> byte_stream \<Rightarrow> pystr option \<Rightarrow> stored_blob \<Rightarrow> os_state \<Rightarrow> bool" where
  "put_post root S c ct b s \<longleftrightarrow> stream_error c = None
     \<and> blob_key b = content_key (stream_data c) \<and> blob_content_type b = ct
     \<and> (\<exists>d. fs_stored root s (blob_key b) = Some d \<and> blob_size b = length d)
     \<and> fs_sound root (if S (blob_key b) = None then S(blob_key b \<mapsto> stream_data c) else S) s"

definition put_left :: "path \<Rightarrow> (pystr \<Rightarrow> bytes option) \<Rightarrow> byte_stream \<Rightarrow> exn \<Rightarrow> os_state \<Rightarrow> bool" where
  "put_left root S c e s \<longleftrightarrow> fs_sound root S s
     \<or> e = CancelledError \<and> stream_error c = None \<and> S (content_key (stream_data c)) = None
       \<and> fs_sound root (S(content_key (stream_data c) \<mapsto> stream_data c)) s"

lemma put_left_sound: "fs_sound root S s \<Longrightarrow> put_left root S c e s"
  by (simp add: put_left_def)

lemma put_left_weaken:
  assumes "triple P m Q (\<lambda>_. fs_sound root S)"
  shows "triple P m Q (put_left root S c)"
  using assms by (rule triple_weaken) (simp_all add: put_left_sound)

lemma put_publish_triple:
  assumes "d = sha256_hexdigest (stream_data c)" and "S (KEY_PREFIX @ d) = None" and "stream_error c = None"
  shows "triple (fs_holding root S (Some (x, ino, stream_data c)))
    (and_then (and_then (to_thread (makedirs (shard_dir root d))) (\<lambda>_.
       and_then (to_thread (os_lstat (tmp_dir root @ [x]))) (\<lambda>published.
       and_then (to_thread (os_rename (tmp_dir root @ [x]) (shard_path (adapter root) d))) (\<lambda>_. returning published))))
     (\<lambda>published. returning \<lparr>blob_key = KEY_PREFIX @ d, blob_size = st_size published,
         blob_content_type = ct, blob_created_at = st_mtime published\<rparr>))
    (put_post root S c ct) (put_left root S c)"
proof -
  let ?R = "\<lambda>st s. st_size st = length (stream_data c) \<and> fs_sound root (S(KEY_PREFIX @ d \<mapsto> stream_data c)) s"
  have rename: "triple (\<lambda>s. st_size st = length (stream_data c) \<and> fs_holding root S (Some (x, ino, stream_data c)) s)
      (and_then (to_thread (os_rename (tmp_dir root @ [x]) (shard_path (adapter root) d))) (\<lambda>_. returning st))
      ?R (put_left root S c)" for st
  proof (rule triple_fact, rule triple_and_then)
    have key: "KEY_PREFIX @ d = content_key (stream_data c)"
      by (simp add: assms(1) content_key_def)
    have "triple (fs_holding root S (Some (x, ino, stream_data c)))
        (os_rename (tmp_dir root @ [x]) (shard_path (adapter root) d))
        (\<lambda>_. fs_sound root (S(KEY_PREFIX @ d \<mapsto> stream_data c))) (put_left root S c)"
      by (rule put_left_weaken [OF publish_triple]) (simp add: assms(1))
    then show "triple (fs_holding root S (Some (x, ino, stream_data c)))
        (to_thread (os_rename (tmp_dir root @ [x]) (shard_path (adapter root) d)))
        (\<lambda>_. fs_sound root (S(KEY_PREFIX @ d \<mapsto> stream_data c))) (put_left root S c)"
      by (rule to_thread_triple)
        (use assms(2,3) in \<open>auto simp: put_left_def key fs_sound_ticked fs_holding_sound simp del: fs_holding.simps\<close>)
  qed (simp add: triple_returning)
  have "triple (fs_holding root S (Some (x, ino, stream_data c)))
     (and_then (to_thread (makedirs (shard_dir root d))) (\<lambda>_.
       and_then (to_thread (os_lstat (tmp_dir root @ [x]))) (\<lambda>published.
       and_then (to_thread (os_rename (tmp_dir root @ [x]) (shard_path (adapter root) d))) (\<lambda>_. returning published))))
     ?R (put_left root S c)"
  proof (rule triple_and_then)
    have "adapter_dir root (shard_dir root d)"
      unfolding adapter_dir_def using assms(1) hex64_sha256 by blast
    from to_thread_steady [OF steady_fs_holding makedirs_triple [OF this]]
    show "triple (fs_holding root S (Some (x, ino, stream_data c)))
        (to_thread (makedirs (shard_dir root d))) (\<lambda>_. fs_holding root S (Some (x, ino, stream_data c))) (put_left root S c)"
      by (rule triple_weaken) (auto intro: put_left_sound dest: fs_holding_sound simp del: fs_holding.simps)
  qed (rule triple_and_then [OF put_left_weaken [OF lstat_scratch_thread_triple] rename])
  then show ?thesis
    by (rule triple_and_then)
      (use assms(2) in \<open>auto simp: triple_def put_post_def assms(1,3) content_key_def fs_soundD(3)\<close>)
qed

lemma put_known_triple:
  assumes "d = sha256_hexdigest (stream_data c)" and "S (KEY_PREFIX @ d) = Some k" and "stream_error c = None"
    and "st_size st = length k"
  shows "triple (fs_holding root S (Some (x, ino, data)))
    (and_then (and_then (to_thread (os_unlink (tmp_dir root @ [x]))) (\<lambda>_. returning st))
     (\<lambda>published. returning \<lparr>blob_key = KEY_PREFIX @ d, blob_size = st_size published,
         blob_content_type = ct, blob_created_at = st_mtime published\<rparr>))
    (put_post root S c ct) (\<lambda>_. fs_sound root S)"
proof (rule triple_and_then)
  show "triple (fs_holding root S (Some (x, ino, data))) (and_then (to_thread (os_unlink (tmp_dir root @ [x]))) (\<lambda>_. returning st))
      (\<lambda>p s. p = st \<and> fs_sound root S s) (\<lambda>_. fs_sound root S)"
    by (rule triple_and_then [OF unlink_scratch_thread_triple]) (simp add: triple_returning)
  show "triple (\<lambda>s. p = st \<and> fs_sound root S s) (returning \<lparr>blob_key = KEY_PREFIX @ d, blob_size = st_size p,
         blob_content_type = ct, blob_created_at = st_mtime p\<rparr>) (put_post root S c ct) (\<lambda>_. fs_sound root S)" for p
    using assms by (auto simp: triple_def put_post_def content_key_def dest: fs_soundD(3))
qed

lemma fs_put_triple:
  "triple (fs_sound root S) (fs_put (adapter root) c ct) (put_post root S c ct) (put_left root S c)"
  unfolding fs_put_def
proof (rule triple_and_then [OF put_left_weaken [OF spool_triple]], clarify)
  fix tmp_path d
  let ?rest = "\<lambda>tmp_path existing. and_then
       (case existing of
          None \<Rightarrow>
            and_then (to_thread (makedirs (shard_dir root d))) (\<lambda>_.
            and_then (to_thread (os_lstat tmp_path)) (\<lambda>published.
            and_then (to_thread (os_rename tmp_path (shard_path (adapter root) d))) (\<lambda>_. returning published)))
        | Some st \<Rightarrow>
            if \<not> s_isreg (st_mode st)
            then raising (Storage (StorageException (Some
                   (lit ''corrupt storage tree: '' @ path_str (shard_path (adapter root) d)
                    @ lit '' exists and is not a regular file''))))
            else and_then (to_thread (os_unlink tmp_path)) (\<lambda>_. returning st))
     (\<lambda>published. returning
        \<lparr>blob_key = KEY_PREFIX @ d, blob_size = st_size published, blob_content_type = ct,
         blob_created_at = st_mtime published\<rparr>)"
  have "triple (fs_holding root S (Some (x, ino, stream_data c)))
      (and_then (to_thread (lstat_or_none (shard_path (adapter root) d))) (?rest (tmp_dir root @ [x])))
      (put_post root S c ct) (put_left root S c)"
    if d: "d = sha256_hexdigest (stream_data c)" and ok: "stream_error c = None" for x ino
  proof (rule triple_and_then)
    show "triple (fs_holding root S (Some (x, ino, stream_data c))) (to_thread (lstat_or_none (shard_path (adapter root) d)))
        (\<lambda>r s. entry_agrees (S (KEY_PREFIX @ d)) r \<and> fs_holding root S (Some (x, ino, stream_data c)) s)
        (put_left root S c)"
      by (rule triple_weaken [OF lstat_target_thread_triple])
        (auto simp: d intro: put_left_sound dest: fs_holding_sound simp del: fs_holding.simps)
    show "triple (\<lambda>s. entry_agrees (S (KEY_PREFIX @ d)) r \<and> fs_holding root S (Some (x, ino, stream_data c)) s)
        (?rest (tmp_dir root @ [x]) r) (put_post root S c ct) (put_left root S c)" for r
    proof (rule triple_fact, cases r)
      case None
      assume "entry_agrees (S (KEY_PREFIX @ d)) r"
      with None put_publish_triple [OF d _ ok] show "triple (fs_holding root S (Some (x, ino, stream_data c)))
          (?rest (tmp_dir root @ [x]) r) (put_post root S c ct) (put_left root S c)"
        by (simp add: entry_agrees_def del: fs_holding.simps)
    next
      case (Some st)
      assume "entry_agrees (S (KEY_PREFIX @ d)) r"
      with Some obtain k where "S (KEY_PREFIX @ d) = Some k" and "st_mode st = Reg" and "st_size st = length k"
        by (auto simp: entry_agrees_def)
      with Some put_left_weaken [OF put_known_triple [OF d _ ok]] show "triple (fs_holding root S (Some (x, ino, stream_data c)))
          (?rest (tmp_dir root @ [x]) r) (put_post root S c ct) (put_left root S c)"
        by (simp add: s_isreg_def del: fs_holding.simps)
    qed
  qed
  then show "triple (spool_result root S c (tmp_path, d)) (let target = shard_path (adapter root) d in
      and_then (to_thread (lstat_or_none target)) (\<lambda>existing. and_then
       (case existing of
          None \<Rightarrow>
            and_then (to_thread (makedirs (butlast target))) (\<lambda>_.
            and_then (to_thread (os_lstat tmp_path)) (\<lambda>published.
            and_then (to_thread (os_rename tmp_path target)) (\<lambda>_. returning published)))
        | Some st \<Rightarrow>
            if \<not> s_isreg (st_mode st)
            then raising (Storage (StorageException (Some
                   (lit ''corrupt storage tree: '' @ path_str target
                    @ lit '' exists and is not a regular file''))))
            else and_then (to_thread (os_unlink tmp_path)) (\<lambda>_. returning st))
     (\<lambda>published. returning
        \<lparr>blob_key = KEY_PREFIX @ d, blob_size = st_size published, blob_content_type = ct,
         blob_created_at = st_mtime published\<rparr>))) (put_post root S c ct) (put_left root S c)"
    unfolding Let_def butlast_shard_path spool_result_def fst_conv snd_conv
    by (intro triple_fact triple_ex) (simp only:)
qed

end
