(* ===== verification/Filesystem_Properties.thy ===== *)
theory Filesystem_Properties
  imports Filesystem_Faults
begin

text \<open>
  The properties of the file system adapter, with the facts about iteration, descriptors,
  interference and health checks they need, and a concrete machine for the witnesses.
\<close>

section \<open>Iteration\<close>

lemma READ_CHUNK_SIZE_pos: "0 < READ_CHUNK_SIZE"
  by (simp add: READ_CHUNK_SIZE_def)

lemma os_touch_fds: "os_touch s = (r, s') \<Longrightarrow> open_fds s' = open_fds s"
  by (auto simp: os_touch_def syscall_def Let_def split: option.splits)

lemma read_fds: "to_thread os_touch s = (r, s') \<Longrightarrow> open_fds s' = open_fds s"
  using os_touch_fds [OF surjective_pairing [of "os_touch s"]]
  by (auto simp: to_thread_def split: option.splits abandonment.splits dest: os_touch_fds)

lemma os_close_fds: "os_close s = (r, s') \<Longrightarrow> open_fds s' = open_fds s - 1"
  using os_touch_fds by (fastforce simp: os_close_def)

lemma drain_any:
  "stream_drain rest s = (cs, r, s') \<Longrightarrow>
   prefix (concat cs) rest \<and> (r = Inr () \<longrightarrow> concat cs = rest) \<and> open_fds s' = open_fds s - 1
   \<and> (\<forall>c\<in>set cs. c \<noteq> [] \<and> length c \<le> READ_CHUNK_SIZE)"
proof (induction rest s arbitrary: cs r s' rule: stream_drain.induct)
  case (1 rest s)
  obtain q s1 where touch: "to_thread os_touch s = (q, s1)" by fastforce
  note fds = read_fds [OF touch]
  obtain q' s2 where close: "os_close s1 = (q', s2)" by fastforce
  note fds' = os_close_fds [OF close]
  consider (failed) e where "q = Inl e" | (last) "q = Inr ()" "take READ_CHUNK_SIZE rest = []"
    | (more) "q = Inr ()" "take READ_CHUNK_SIZE rest \<noteq> []"
    by (metis (full_types) old.sum.exhaust unit.exhaust)
  then show ?case
  proof cases
    case failed
    with "1.prems" touch close fds fds' show ?thesis
      by (subst (asm) stream_drain.simps) (auto simp: resume_read_def split: sum.splits)
  next
    case last
    with READ_CHUNK_SIZE_pos have "rest = []" by auto
    with "1.prems" last touch close fds fds' show ?thesis
      by (subst (asm) stream_drain.simps) (auto simp: resume_read_def split: sum.splits)
  next
    case more
    then have step: "resume_read rest s =
        (Inr (Some (take READ_CHUNK_SIZE rest)), Suspended (drop READ_CHUNK_SIZE rest), s1)"
      using touch by (simp add: resume_read_def)
    obtain cs' r' s3 where rec: "stream_drain (drop READ_CHUNK_SIZE rest) s1 = (cs', r', s3)"
      by (metis prod_cases3)
    have "stream_drain rest s = (take READ_CHUNK_SIZE rest # cs', r', s3)"
      by (subst stream_drain.simps) (simp add: step rec)
    with "1.prems" have out: "cs = take READ_CHUNK_SIZE rest # cs'" "r = r'" "s' = s3" by simp_all
    from "1.IH" [OF step [symmetric] refl refl refl rec] obtain ys where
      ih: "drop READ_CHUNK_SIZE rest = concat cs' @ ys" "r' = Inr () \<longrightarrow> concat cs' = drop READ_CHUNK_SIZE rest"
        "open_fds s3 = open_fds s1 - 1" "\<forall>c\<in>set cs'. c \<noteq> [] \<and> length c \<le> READ_CHUNK_SIZE"
      unfolding prefix_def by blast
    have "rest = concat cs @ ys"
      using ih(1) out(1) append_take_drop_id [of READ_CHUNK_SIZE rest] by simp
    moreover have "concat cs = rest" if "r = Inr ()"
      using that ih(2) out append_take_drop_id [of READ_CHUNK_SIZE rest] by simp
    ultimately show ?thesis
      using ih(3,4) out fds more(2) by (auto simp: prefix_def)
  qed
qed

lemma drain_quiet:
  "quiet s \<Longrightarrow> \<exists>n. stream_drain rest s =
     (chunks_of READ_CHUNK_SIZE rest, Inr (), s\<lparr>open_fds := open_fds s - 1, calls := n\<rparr>)"
proof (induction "length rest" arbitrary: rest s rule: less_induct)
  case less
  show ?case
  proof (cases "rest = []")
    case True
    with less.prems have "resume_read rest s =
        (Inr None, Finished, s\<lparr>open_fds := open_fds s - 1, calls := Suc (Suc (calls s))\<rparr>)"
      by (simp add: resume_read_def os_touch_quiet os_close_quiet)
    with True show ?thesis
      by (subst stream_drain.simps) (auto intro!: exI [of _ "Suc (Suc (calls s))"])
  next
    case False
    then have shorter: "length (drop READ_CHUNK_SIZE rest) < length rest"
      by (simp add: READ_CHUNK_SIZE_def)
    from less.hyps [OF this, of "ticked s"] less.prems obtain n where
      rec: "stream_drain (drop READ_CHUNK_SIZE rest) (ticked s) =
        (chunks_of READ_CHUNK_SIZE (drop READ_CHUNK_SIZE rest), Inr (), s\<lparr>open_fds := open_fds s - 1, calls := n\<rparr>)"
      by auto
    have "take READ_CHUNK_SIZE rest \<noteq> []" using False by (simp add: READ_CHUNK_SIZE_def)
    then have "resume_read rest s =
        (Inr (Some (take READ_CHUNK_SIZE rest)), Suspended (drop READ_CHUNK_SIZE rest), ticked s)"
      using less.prems by (simp add: resume_read_def os_touch_quiet)
    with rec False show ?thesis
      by (subst stream_drain.simps) (simp add: chunks_of_step READ_CHUNK_SIZE_pos exI [of _ n])
  qed
qed

section \<open>Descriptors\<close>

abbreviation fds :: "nat \<Rightarrow> os_state \<Rightarrow> bool" where
  "fds k \<equiv> (\<lambda>s. open_fds s = k)"

lemma fds_syscall [intro!]: "keeps (fds k) (syscall f)"
  by (auto simp: keeps_def syscall_def Let_def split: option.split sum.split)

lemma fds_calls [intro!]:
  "keeps (fds k) (os_lstat p)" "keeps (fds k) (os_unlink p)" "keeps (fds k) (os_mkdir p)"
  "keeps (fds k) (os_rename p q)" "keeps (fds k) os_touch" "keeps (fds k) (os_fstat n)"
  "keeps (fds k) (os_write ino bs)" "keeps (fds k) (stat_follow p)"
  unfolding os_lstat_def os_unlink_def os_mkdir_def os_rename_def os_touch_def os_fstat_def
    os_write_def stat_follow_def by (rule fds_syscall)+

lemma keeps_if [intro]: "keeps P m \<Longrightarrow> keeps P m' \<Longrightarrow> keeps P (if b then m else m')"
  by simp

lemma fds_library [intro!]:
  "keeps (fds k) (path_exists p)" "keeps (fds k) (path_is_dir p)"
  "keeps (fds k) (unlink_missing_ok p)" "keeps (fds k) (lstat_or_none p)"
  unfolding path_exists_def path_is_dir_def unlink_missing_ok_def lstat_or_none_def
  by (intro keeps_trying keeps_and_then keeps_if keeps_returning keeps_raising fds_calls)+

lemma fds_makedirs [intro!]: "keeps (fds k) (makedirs p)"
proof -
  have "keeps (fds k) (makedirs_rev rs)" for rs
    by (induction rs)
      (simp_all, (intro keeps_trying keeps_and_then keeps_if keeps_returning keeps_raising fds_calls
        fds_library | assumption)+)
  then show ?thesis by (simp add: makedirs_def)
qed

lemma fds_to_thread [intro]: "keeps (fds k) f \<Longrightarrow> keeps (fds k) (to_thread f)"
  by (auto simp: keeps_def to_thread_def split: option.split abandonment.split)

lemma fds_spool_chunks: "keeps (fds k) (spool_chunks ino cs err digest)"
proof (induction cs arbitrary: digest)
  case Nil
  show ?case by (cases err) (auto simp: keeps_def)
next
  case (Cons chunk cs)
  then show ?case by (simp add: keeps_and_then fds_calls fds_to_thread)
qed

lemma fds_opened:
  assumes "keeps (fds k) m"
  shows "triple (fds k) (and_then m (\<lambda>a s. (Inr a, s\<lparr>open_fds := Suc (open_fds s)\<rparr>))) (\<lambda>_. fds (Suc k)) (\<lambda>_. fds k)"
  by (rule triple_and_then [OF keeps_triple [OF assms]]) (simp add: triple_def)

lemma fds_create: "triple (fds k) (os_create_excl p) (\<lambda>_. fds (Suc k)) (\<lambda>_. fds k)"
  unfolding triple_def
proof (intro allI impI)
  fix s :: os_state assume "open_fds s = k"
  then show "case os_create_excl p s of (Inl e, s') \<Rightarrow> fds k s' | (Inr a, s') \<Rightarrow> fds (Suc k) s'"
    unfolding os_create_excl_def by (rule tripleD [OF fds_opened [OF fds_syscall]])
qed

lemma fds_mkstemp: "triple (fds k) (mkstemp dir suf) (\<lambda>_. fds (Suc k)) (\<lambda>_. fds k)"
proof -
  have "triple (fds k) (mkstemp_try n dir suf) (\<lambda>_. fds (Suc k)) (\<lambda>_. fds k)" for n
  proof (induction n)
    case 0
    show ?case by (simp add: triple_def)
  next
    case (Suc n)
    show ?case
      unfolding mkstemp_try.simps Let_def
    proof (rule triple_and_then)
      show "triple (fds k) take_temp_name (\<lambda>_. fds k) (\<lambda>_. fds k)"
        by (simp add: triple_def take_temp_name_def)
      fix name
      let ?file = "dir @ [lit ''tmp'' @ name @ suf]"
      have "triple (fds k) (and_then (os_create_excl ?file) (\<lambda>ino. returning (ino, ?file)))
          (\<lambda>_. fds (Suc k)) (\<lambda>_. fds k)"
        by (rule triple_and_then [OF fds_create]) (simp add: triple_def)
      then show "triple (fds k)
          (trying (and_then (os_create_excl ?file) (\<lambda>ino. returning (ino, ?file)))
            (\<lambda>e. if file_exists_error e then mkstemp_try n dir suf else raising e))
          (\<lambda>_. fds (Suc k)) (\<lambda>_. fds k)"
        by (rule triple_trying) (use Suc.IH in \<open>simp add: triple_def\<close>)
    qed
  qed
  then show ?thesis by (simp add: mkstemp_def)
qed

lemma fds_close: "triple (fds (Suc k)) os_close (\<lambda>_. fds k) (\<lambda>_. fds k)"
  using os_close_fds by (fastforce simp: triple_def split: prod.split sum.split)

text \<open>
  A descriptor is lost only when turning it into a file object fails, or when the wait for
  making it, turning it into a file object or closing it is cancelled.
\<close>

definition fds_upto :: "nat \<Rightarrow> os_state \<Rightarrow> bool" where
  "fds_upto k s \<longleftrightarrow> open_fds s = k \<or> open_fds s = Suc k"

lemma fds_thread:
  assumes "triple (fds j) f (\<lambda>_. fds i) (\<lambda>_. fds k)" and "{i, j, k} \<subseteq> {n, Suc n}"
  shows "triple (fds j) (to_thread f) (\<lambda>_. fds i) (\<lambda>_. fds_upto n)"
proof -
  have "triple (fds j) f (\<lambda>_. fds i) (\<lambda>_. fds_upto n)"
    using assms(1) by (rule triple_weaken) (use assms(2) in \<open>auto simp: fds_upto_def\<close>)
  then show ?thesis
    by (rule to_thread_triple) (use assms(2) in \<open>auto simp: fds_upto_def\<close>)
qed

lemma fds_spool: "triple (fds k) (spool self c) (\<lambda>_. fds k) (\<lambda>_. fds_upto k)"
  unfolding spool_def
proof (rule triple_and_then)
  show "triple (fds k) (to_thread (makedirs (tmp_directory self))) (\<lambda>_. fds k) (\<lambda>_. fds_upto k)"
    by (rule triple_weaken [OF keeps_triple [OF fds_to_thread [OF fds_makedirs]]]) (auto simp: fds_upto_def)
  fix u :: unit
  show "triple (fds k) (and_then (to_thread (mkstemp (tmp_directory self) (lit ''.part''))) (\<lambda>(descriptor, tmp_path).
     trying
       (and_then (to_thread os_touch) (\<lambda>_.
          finally_do
            (and_then (spool_chunks descriptor (stream_chunks c) (stream_error c) [])
               (\<lambda>digest. and_then (to_thread os_touch) (\<lambda>_. and_then (to_thread os_touch) (\<lambda>_.
                 returning (tmp_path, sha256_hexdigest digest)))))
            (to_thread os_close)))
       (\<lambda>e. and_then (to_thread (unlink_missing_ok tmp_path)) (\<lambda>_. raising e))))
    (\<lambda>_. fds k) (\<lambda>_. fds_upto k)"
  proof (rule triple_and_then [OF fds_thread [OF fds_mkstemp, where n = k]], simp, clarify)
    fix ino and tmp_path :: path
    have body: "keeps (fds (Suc k)) (and_then (spool_chunks ino (stream_chunks c) (stream_error c) [])
        (\<lambda>digest. and_then (to_thread os_touch) (\<lambda>_. and_then (to_thread os_touch) (\<lambda>_. returning (tmp_path, sha256_hexdigest digest)))))"
      by (intro keeps_and_then fds_spool_chunks fds_to_thread fds_calls keeps_returning)
    have "triple (fds (Suc k)) (finally_do (and_then (spool_chunks ino (stream_chunks c) (stream_error c) [])
        (\<lambda>digest. and_then (to_thread os_touch) (\<lambda>_. and_then (to_thread os_touch) (\<lambda>_. returning (tmp_path, sha256_hexdigest digest))))) (to_thread os_close))
        (\<lambda>_. fds k) (\<lambda>_. fds_upto k)"
      by (rule triple_finally [OF keeps_triple [OF body]])
        (rule triple_weaken [OF fds_thread [OF fds_close, where n = k]], auto simp: fds_upto_def)+
    then have "triple (fds (Suc k)) (and_then (to_thread os_touch) (\<lambda>_. finally_do (and_then (spool_chunks ino (stream_chunks c) (stream_error c) [])
        (\<lambda>digest. and_then (to_thread os_touch) (\<lambda>_. and_then (to_thread os_touch) (\<lambda>_. returning (tmp_path, sha256_hexdigest digest))))) (to_thread os_close)))
        (\<lambda>_. fds k) (\<lambda>_. fds_upto k)"
      by (rule triple_and_then [rotated]) (rule triple_weaken [OF keeps_triple [OF fds_to_thread [OF fds_calls(5)]]], auto simp: fds_upto_def)
    then show "triple (fds (Suc k)) (trying (and_then (to_thread os_touch) (\<lambda>_. finally_do
         (and_then (spool_chunks ino (stream_chunks c) (stream_error c) [])
        (\<lambda>digest. and_then (to_thread os_touch) (\<lambda>_. and_then (to_thread os_touch) (\<lambda>_. returning (tmp_path, sha256_hexdigest digest))))) (to_thread os_close)))
       (\<lambda>e. and_then (to_thread (unlink_missing_ok tmp_path)) (\<lambda>_. raising e)))
       (\<lambda>_. fds k) (\<lambda>_. fds_upto k)"
    proof (rule triple_trying)
      have "keeps (fds_upto k) (to_thread (unlink_missing_ok tmp_path))"
        using fds_to_thread [OF fds_library(3), of k tmp_path] fds_to_thread [OF fds_library(3), of "Suc k" tmp_path]
        by (auto simp: keeps_def fds_upto_def)
      then show "triple (fds_upto k) (and_then (to_thread (unlink_missing_ok tmp_path)) (\<lambda>_. raising e)) (\<lambda>_. fds k) (\<lambda>_. fds_upto k)" for e
        by (intro triple_and_then [OF keeps_triple]) (simp_all add: triple_def)
    qed
  qed
qed

lemma fds_put: "triple (fds k) (fs_put self c ct) (\<lambda>_. fds k) (\<lambda>_. fds_upto k)"
  unfolding fs_put_def
proof (rule triple_and_then [OF fds_spool], clarify)
  fix tmp_path d
  have "keeps (fds k) (case existing of
          None \<Rightarrow>
            and_then (to_thread (makedirs dir)) (\<lambda>_.
            and_then (to_thread (os_lstat tmp_path)) (\<lambda>published.
            and_then (to_thread (os_rename tmp_path target)) (\<lambda>_. returning published)))
        | Some st \<Rightarrow>
            if \<not> s_isreg (st_mode st) then raising e
            else and_then (to_thread (os_unlink tmp_path)) (\<lambda>_. returning st))" for existing dir target e
    by (cases existing)
      (simp_all only: option.case,
        (intro keeps_if keeps_and_then fds_to_thread fds_calls fds_makedirs keeps_returning keeps_raising)+)
  then have "keeps (fds k) (let target = shard_path self d in
     and_then (to_thread (lstat_or_none target)) (\<lambda>existing.
     and_then
       (case existing of
          None \<Rightarrow>
            and_then (to_thread (makedirs (butlast target))) (\<lambda>_.
            and_then (to_thread (os_lstat tmp_path)) (\<lambda>published.
            and_then (to_thread (os_rename tmp_path target)) (\<lambda>_. returning published)))
        | Some st \<Rightarrow>
            if \<not> s_isreg (st_mode st)
            then raising (Storage (StorageException (Some
                   (lit ''corrupt storage tree: '' @ path_str target
                    @ lit '' exists and is not a regular file''))))
            else and_then (to_thread (os_unlink tmp_path)) (\<lambda>_. returning st))
     (\<lambda>published. returning
        \<lparr>blob_key = KEY_PREFIX @ d, blob_size = st_size published,
         blob_content_type = ct, blob_created_at = st_mtime published\<rparr>)))"
    unfolding Let_def by (intro keeps_and_then fds_to_thread fds_library keeps_returning)
  from keeps_triple [OF this] show "triple (fds k) (let target = shard_path self d in
     and_then (to_thread (lstat_or_none target)) (\<lambda>existing.
     and_then
       (case existing of
          None \<Rightarrow>
            and_then (to_thread (makedirs (butlast target))) (\<lambda>_.
            and_then (to_thread (os_lstat tmp_path)) (\<lambda>published.
            and_then (to_thread (os_rename tmp_path target)) (\<lambda>_. returning published)))
        | Some st \<Rightarrow>
            if \<not> s_isreg (st_mode st)
            then raising (Storage (StorageException (Some
                   (lit ''corrupt storage tree: '' @ path_str target
                    @ lit '' exists and is not a regular file''))))
            else and_then (to_thread (os_unlink tmp_path)) (\<lambda>_. returning st))
     (\<lambda>published. returning
        \<lparr>blob_key = KEY_PREFIX @ d, blob_size = st_size published,
         blob_content_type = ct, blob_created_at = st_mtime published\<rparr>)))
    (\<lambda>_. fds k) (\<lambda>_. fds_upto k)"
    by (rule triple_weaken) (auto simp: fds_upto_def)
qed

section \<open>Opening under interference\<close>

lemma syscall_Inr:
  assumes "syscall f s = (Inr a, s')"
  shows "\<exists>t. f (wall s (calls s)) (others s (calls s) (tree s)) = Inr (a, t) \<and> fault s (calls s) = None"
  using assms by (auto simp: syscall_def Let_def split: option.splits sum.splits prod.splits)

lemma open_read_Inr:
  assumes "os_open_read p BLOB_OPEN_FLAGS s = (Inr n, s')"
  shows "lookup (others s (calls s) (tree s)) p = Inr n"
  using assms unfolding os_open_read_def
  by (rule and_then_InrE) (auto simp: open_target_def dest!: syscall_Inr split: sum.splits node.splits)

lemma to_thread_Inr: "to_thread f s = (Inr a, s') \<Longrightarrow> f s = (Inr a, s')"
  by (auto simp: to_thread_def split: option.splits abandonment.splits)

lemma fstat_Inr: "os_fstat n s = (Inr st, s') \<Longrightarrow> st = stat_of n"
  unfolding os_fstat_def by (drule syscall_Inr) simp

lemma stat_of_isreg: "s_isreg (st_mode (stat_of n)) \<longleftrightarrow> (\<exists>i c m. n = Regular i c m)"
  by (cases n) (simp_all add: s_isreg_def)

lemma open_stored_Inr:
  assumes "open_stored_blob p s = (Inr n, s')"
  shows "lookup (others s (calls s) (tree s)) p = Inr n \<and> (\<exists>i c m. n = Regular i c m)"
proof -
  from assms obtain n' s1 s2 where opened: "os_open_read p BLOB_OPEN_FLAGS s = (Inr n', s1)"
    and check: "trying
         (and_then (os_fstat n') (\<lambda>st.
            if \<not> s_isreg (st_mode st) then raising (OSErr NotARegularFile) else returning ()))
         (\<lambda>e. and_then os_close (\<lambda>_. raising e)) s1 = (Inr (), s2)"
    and n: "n' = n"
    unfolding open_stored_blob_def by (auto elim!: and_then_InrE)
  from check obtain st s3 where "os_fstat n' s1 = (Inr st, s3)" and "s_isreg (st_mode st)"
    by (auto simp: trying_def and_then_def split: prod.splits sum.splits if_splits)
  with fstat_Inr stat_of_isreg open_read_Inr [OF opened] n show ?thesis by blast
qed

section \<open>Health checks\<close>

lemma syscall_only: "raises_only is_os_error (syscall f)"
  by (auto simp: raises_only_def syscall_def Let_def split: option.splits sum.splits)

lemma opened_only:
  assumes "raises_only R m"
  shows "raises_only R (and_then m (\<lambda>a s. (Inr a, g s)))"
  using assms by (rule raises_only_and_then) (simp add: raises_only_def)

lemma os_open_write_only: "raises_only is_os_error (os_open_write p)"
proof (rule raises_onlyI)
  fix s e s' assume "os_open_write p s = (Inl e, s')"
  then show "is_os_error e"
    unfolding os_open_write_def by (rule raises_onlyD [OF opened_only [OF syscall_only]])
qed

lemma os_close_only: "raises_only is_os_error os_close"
proof (rule raises_onlyI)
  fix s e s' assume "os_close s = (Inl e, s')"
  then show "is_os_error e"
    unfolding os_close_def os_touch_def by (rule raises_onlyD [OF syscall_only])
qed

lemma write_and_remove_probe_only: "raises_only is_os_error (write_and_remove_probe p)"
proof -
  have "raises_only is_os_error (unlink_missing_ok p)"
    unfolding unlink_missing_ok_def os_unlink_def
    by (rule raises_only_trying [OF syscall_only]) (simp add: raises_only_def)
  then show ?thesis
    unfolding write_and_remove_probe_def write_bytes_def os_write_def
    by (intro raises_only_finally raises_only_and_then os_open_write_only os_close_only syscall_only)
qed

lemma path_is_dir_total: "raises_only (\<lambda>_. False) (path_is_dir p)"
  unfolding path_is_dir_def
  by (rule raises_only_trying [where R' = "\<lambda>_. True"]) (simp_all add: raises_only_def)

lemma to_thread_only: "raises_only R f \<Longrightarrow> raises_only (\<lambda>e. R e \<or> e = CancelledError) (to_thread f)"
  by (auto simp: raises_only_def to_thread_def split: option.splits abandonment.splits)

lemma check_health_only: "raises_only (\<lambda>e. e = CancelledError) (fs_check_health h self)"
  unfolding fs_check_health_def Let_def
proof (rule raises_only_trying)
  let ?R = "\<lambda>e. is_os_error e \<or> e = CancelledError"
  have "raises_only is_os_error (path_is_dir p)" for p
    using path_is_dir_total [of p] by (simp add: raises_only_def)
  then have "raises_only ?R (to_thread (path_is_dir p))" for p
    by (rule to_thread_only)
  moreover have "raises_only ?R (if \<not> d then returning False
      else and_then (to_thread (write_and_remove_probe p)) (\<lambda>_. returning True))" for d p
    by (auto intro: raises_only_and_then to_thread_only write_and_remove_probe_only)
  ultimately show "raises_only ?R (and_then (to_thread (path_is_dir (storage_root self))) (\<lambda>d.
           if \<not> d then returning False
           else and_then (to_thread (write_and_remove_probe (storage_root self @ [lit ''.health-'' @ h])))
             (\<lambda>_. returning True)))"
    by (intro raises_only_and_then)
qed (auto simp: raises_only_def)

text \<open>A task that nobody cancels always gets its answer.\<close>

definition uncancelled :: "os_state \<Rightarrow> bool" where
  "uncancelled s \<longleftrightarrow> cancels s = (\<lambda>_. None)"

lemma uncancelled_upd [simp]:
  "uncancelled (s\<lparr>tree := t\<rparr>) = uncancelled s"
  "uncancelled (s\<lparr>calls := n\<rparr>) = uncancelled s"
  "uncancelled (s\<lparr>next_temp := n\<rparr>) = uncancelled s"
  "uncancelled (s\<lparr>open_fds := n\<rparr>) = uncancelled s"
  by (simp_all add: uncancelled_def)

lemma to_thread_uncancelled: "uncancelled s \<Longrightarrow> to_thread f s = f s"
  by (simp add: to_thread_def uncancelled_def)

lemma uncancelled_syscall: "keeps uncancelled (syscall f)"
  by (auto simp: keeps_def syscall_def Let_def uncancelled_def split: option.split sum.split)

lemma uncancelled_path_is_dir: "keeps uncancelled (path_is_dir p)"
  unfolding path_is_dir_def stat_follow_def
  by (intro keeps_trying keeps_and_then keeps_returning uncancelled_syscall)

lemma check_health_uncancelled:
  assumes "uncancelled s"
  shows "\<exists>b. fst (fs_check_health h self s) = Inr b"
proof -
  obtain d s1 where dir: "path_is_dir (storage_root self) s = (Inr d, s1)"
    using raises_onlyD [OF path_is_dir_total] by (metis old.sum.exhaust prod.exhaust)
  with keepsD [OF uncancelled_path_is_dir assms, of "storage_root self"] have "uncancelled s1" by simp
  moreover obtain r s2 where "write_and_remove_probe (storage_root self @ [lit ''.health-'' @ h]) s1 = (r, s2)"
    by fastforce
  ultimately show ?thesis
    using dir assms raises_onlyD [OF write_and_remove_probe_only]
    by (cases r) (auto simp: fs_check_health_def Let_def and_then_def trying_def to_thread_uncancelled)
qed

lemma write_bytes_new_quiet:
  assumes "quiet s" and "closed (tree s)" and "dirs_plain (tree s) (butlast p)" and "is_dir_at (tree s) (butlast p)"
    and "p \<noteq> []" and "tree s p = None" and "\<And>q i c m. tree s q = Some (Regular i c m) \<Longrightarrow> i < calls s"
  shows "write_bytes p bs s = (Inr (), s\<lparr>tree := (tree s)(p \<mapsto> Regular (calls s) bs (wall s (Suc (calls s)))),
      calls := calls s + 3\<rparr>)"
proof -
  have plain: "dirs_plain (tree s) p"
    unfolding dirs_plain_def
  proof (intro allI impI)
    fix q assume q: "q \<noteq> []" "prefix q p"
    show "tree s q = None \<or> tree s q = Some Directory"
    proof (cases "q = p")
      case True
      with assms(6) show ?thesis by simp
    next
      case False
      with q(2) assms(5) have "prefix q (butlast p)"
        by (metis append_butlast_last_id prefix_snoc)
      with q(1) assms(3) show ?thesis by (simp add: dirs_plain_def)
    qed
  qed
  let ?t = "(tree s)(p \<mapsto> Regular (calls s) [] (wall s (calls s)))"
  have opened: "os_open_write p s = (Inr (calls s), s\<lparr>tree := ?t, calls := Suc (calls s), open_fds := Suc (open_fds s)\<rparr>)"
    using assms locate_follow_plain [OF assms(2) plain]
    by (simp add: os_open_write_def and_then_def syscall_quiet node_at_def)
  have "sole_inode ?t p (calls s)"
    using assms(7) by (intro sole_inode_new) auto
  then have "write_inode (calls s) bs time ?t = ?t(p \<mapsto> Regular (calls s) ([] @ bs) time)" for time
    by (rule write_inode_sole) simp
  then show ?thesis
    using assms(1) opened
    by (simp add: write_bytes_def and_then_def finally_do_def os_write_def syscall_quiet os_close_quiet
        numeral_3_eq_3)
qed

lemma check_health_quiet:
  assumes "fs_ready root s" and "tree s (root @ [lit ''.health-'' @ h]) = None"
  shows "\<exists>n. fs_check_health h (adapter root) s = (Inr (is_dir_at (tree s) root), s\<lparr>calls := n\<rparr>)"
proof -
  note r = fs_readyD [OF assms(1)]
  let ?probe = "root @ [lit ''.health-'' @ h]"
  have plain: "dirs_plain (tree s) root"
    using tree_okD(2) [OF r(2)] by (rule dirs_plain_prefix) (simp add: tmp_dir_def)
  have look: "path_is_dir root s = (Inr (is_dir_at (tree s) root), ticked s)"
    using path_is_dir_quiet [OF r(1) tree_okD(1) [OF r(2)] plain] .
  show ?thesis
  proof (cases "is_dir_at (tree s) root")
    case False
    with look show ?thesis
      by (intro exI [of _ "Suc (calls s)"])
        (simp add: to_thread_ready [OF assms(1)] fs_check_health_def Let_def trying_def and_then_def)
  next
    case True
    let ?n = "Regular (Suc (calls s)) HEALTH_PROBE_PAYLOAD (wall s (Suc (Suc (calls s))))"
    let ?s = "s\<lparr>tree := (tree s)(?probe \<mapsto> ?n), calls := calls s + 4\<rparr>"
    have wr: "write_bytes ?probe HEALTH_PROBE_PAYLOAD (ticked s) = (Inr (), ?s)"
      using write_bytes_new_quiet [of "ticked s" ?probe HEALTH_PROBE_PAYLOAD] r(1) tree_okD(1) [OF r(2)]
        plain True assms(2) r(4) by (simp add: less_Suc_eq)
    have "closed (tree ?s)"
      using tree_okD(1) [OF r(2)] assms(2) True by (simp add: closed_upd)
    moreover have "dirs_plain (tree ?s) root"
      using plain by (auto intro!: dirs_plain_upd dest: prefix_length_le)
    ultimately have "os_unlink ?probe ?s = (Inr (), ?s\<lparr>tree := (tree ?s)(?probe := None), calls := Suc (calls ?s)\<rparr>)"
      using r(1) by (intro os_unlink_quiet [where n = ?n]) simp_all
    moreover have "(tree ?s)(?probe := None) = tree s"
      using assms(2) by (simp add: fun_upd_idem)
    ultimately have "unlink_missing_ok ?probe ?s = (Inr (), s\<lparr>calls := calls s + 5\<rparr>)"
      by (simp add: unlink_missing_ok_def trying_def)
    with wr look True r(1) have "fs_check_health h (adapter root) s = (Inr True, s\<lparr>calls := calls s + 5\<rparr>)"
      by (simp add: fs_check_health_def Let_def trying_def and_then_def write_and_remove_probe_def finally_do_def)
    with True show ?thesis by auto
  qed
qed

section \<open>A concrete machine\<close>

text \<open>An empty disk, a clock that counts calls, no failures and no other process.\<close>

definition fresh_machine :: os_state where
  "fresh_machine = \<lparr>tree = (\<lambda>_. None), calls = 0, wall = (\<lambda>n. n), fault = (\<lambda>_. None),
     others = (\<lambda>_ t. t), temp_names = (\<lambda>n. replicate n 97), next_temp = 0, open_fds = 0,
     cancels = (\<lambda>_. None)\<rparr>"

definition srv :: path where
  "srv = [lit ''srv'']"

lemma tree_ok_empty: "tree_ok root (\<lambda>_. None)"
  by (simp add: tree_ok_def closed_def dirs_plain_def blob_ok_def)

lemma tree_stored_empty: "tree_stored root (\<lambda>_. None) k = None"
  by (simp add: tree_stored_def split: option.split)

lemma fresh_machine_ready: "fs_ready root fresh_machine"
  by (simp add: fs_ready_def fresh_machine_def quiet_def tree_ok_empty)

lemma fresh_machine_stored: "fs_stored root fresh_machine k = None"
  by (simp add: fresh_machine_def tree_stored_empty)

text \<open>A machine that refuses the calls listed, with the errors given.\<close>

definition refusing :: "(nat \<Rightarrow> errno option) \<Rightarrow> os_state" where
  "refusing f = fresh_machine\<lparr>fault := f\<rparr>"

text \<open>One blob already stored.\<close>

definition stocked_machine :: "path \<Rightarrow> os_state" where
  "stocked_machine root = snd (fs_put (adapter root) \<lparr>stream_chunks = [[1, 2], [3]], stream_error = None\<rparr> None fresh_machine)"

lemma stocked_machine_facts:
  "fs_ready root (stocked_machine root)"
  "fs_stored root (stocked_machine root) (content_key [1, 2, 3]) = Some [1, 2, 3]"
proof -
  let ?c = "\<lparr>stream_chunks = [[1, 2], [3]], stream_error = None\<rparr> :: byte_stream"
  have c: "stream_error ?c = None" "stream_data ?c = [1, 2, 3]" by (simp_all add: stream_data_def)
  from fs_put_stores [OF fresh_machine_ready c(1), of root None] obtain b s' where
    p: "fs_put (adapter root) ?c None fresh_machine = (Inr b, s')" "fs_ready root s'"
      "blob_key b = content_key [1, 2, 3]"
    and st: "fs_stored root s' = (if fs_stored root fresh_machine (blob_key b) = None
       then (fs_stored root fresh_machine)(blob_key b \<mapsto> [1, 2, 3]) else fs_stored root fresh_machine)"
    unfolding c by blast
  from p(1) have "stocked_machine root = s'" by (simp add: stocked_machine_def)
  with p st fresh_machine_stored show "fs_ready root (stocked_machine root)"
    and "fs_stored root (stocked_machine root) (content_key [1, 2, 3]) = Some [1, 2, 3]" by simp_all
qed

section \<open>Properties\<close>

lemma fs_put_entry:
  assumes "fs_ready root s" and "stream_error c = None"
  shows "\<exists>i d m s'. fs_put (adapter root) c ct s = (Inr (published_as c ct d m), s') \<and> fs_ready root s'
    \<and> tree s' (shard_path (adapter root) (sha256_hexdigest (stream_data c))) = Some (Regular i d m)"
proof (cases "tree s (shard_path (adapter root) (sha256_hexdigest (stream_data c)))")
  case None
  from fs_put_stores [OF assms] obtain b s1 where "fs_put (adapter root) c ct s = (Inr b, s1)" "fs_ready root s1"
    by blast
  moreover from fs_put_new [OF assms None] obtain n ino m where
    "fs_put (adapter root) c ct s = (Inr (published_as c ct (stream_data c) m),
     s\<lparr>tree := (add_dirs (shard_dir root (sha256_hexdigest (stream_data c))) (with_tmp root s))
         (shard_path (adapter root) (sha256_hexdigest (stream_data c)) \<mapsto> Regular ino (stream_data c) m),
       next_temp := Suc (next_temp s), calls := n\<rparr>)" by blast
  ultimately show ?thesis by auto
next
  case (Some n)
  with tree_okD(4) [OF fs_readyD(2) [OF assms(1)], of "sha256_hexdigest (stream_data c)"]
  obtain i d m where n: "tree s (shard_path (adapter root) (sha256_hexdigest (stream_data c))) = Some (Regular i d m)"
    by (cases n) (simp_all add: blob_ok_def)
  from fs_put_known [OF assms n] obtain k where k: "calls s \<le> k" and
    p: "fs_put (adapter root) c ct s = (Inr (published_as c ct d m),
      s\<lparr>tree := with_tmp root s, next_temp := Suc (next_temp s), calls := k\<rparr>)" by blast
  have "with_tmp root s (shard_path (adapter root) (sha256_hexdigest (stream_data c))) = Some (Regular i d m)"
    using n shard_not_prefix(1) by (simp add: with_tmp_def add_dirs_other)
  with p fs_ready_spooled [OF assms(1) k] show ?thesis by auto
qed

text \<open>C1. Content that is stored and read back is the same content: after a \<open>put\<close> of a stream,
  \<open>get\<close> of the key it returned opens, the iterator yields the stream's bytes cut into chunks of
  \<open>READ_CHUNK_SIZE\<close> and ends normally, and every descriptor opened on the way is closed.\<close>

theorem put_get_roundtrip:
  assumes "fs_ready root s" and "stream_error c = None"
    and "fs_stored root s (content_key (stream_data c)) = None"
  shows "\<exists>b s1 s2 s3. fs_put (adapter root) c ct s = (Inr b, s1)
    \<and> fs_get u (adapter root) (blob_key b) s1 = (Inr (Fresh (stream_data c)), s2)
    \<and> stream_drain (stream_data c) s2 = (chunks_of READ_CHUNK_SIZE (stream_data c), Inr (), s3)
    \<and> concat (chunks_of READ_CHUNK_SIZE (stream_data c)) = stream_data c
    \<and> blob_size b = length (stream_data c) \<and> open_fds s3 = open_fds s"
proof -
  from fs_put_stores [OF assms(1,2)] assms(3) obtain b s1 where
    put: "fs_put (adapter root) c ct s = (Inr b, s1)" "fs_ready root s1" "open_fds s1 = open_fds s"
    and st: "fs_stored root s1 (blob_key b) = Some (stream_data c)" "blob_size b = length (stream_data c)"
    by force
  from fs_get_stored [OF put(2) st(1)] obtain s2 where
    get: "fs_get u (adapter root) (blob_key b) s1 = (Inr (Fresh (stream_data c)), s2)"
      "fs_ready root s2" "open_fds s2 = Suc (open_fds s1)" by blast
  from drain_quiet [OF fs_readyD(1) [OF get(2)]] obtain n where
    "stream_drain (stream_data c) s2 =
      (chunks_of READ_CHUNK_SIZE (stream_data c), Inr (), s2\<lparr>open_fds := open_fds s2 - 1, calls := n\<rparr>)" by blast
  with put get st concat_chunks_of [OF READ_CHUNK_SIZE_pos] show ?thesis by simp
qed

lemma put_get_roundtrip_witness:
  "\<exists>b s1 s2 s3. fs_put (adapter srv) \<lparr>stream_chunks = [[1, 2], [3]], stream_error = None\<rparr> None fresh_machine = (Inr b, s1)
    \<and> fs_get plain_unicode (adapter srv) (blob_key b) s1 = (Inr (Fresh [1, 2, 3]), s2)
    \<and> stream_drain [1, 2, 3] s2 = (chunks_of READ_CHUNK_SIZE [1, 2, 3], Inr (), s3)
    \<and> concat (chunks_of READ_CHUNK_SIZE [1, 2, 3]) = ([1, 2, 3] :: bytes)
    \<and> blob_size b = 3 \<and> open_fds s3 = open_fds fresh_machine"
proof -
  let ?c = "\<lparr>stream_chunks = [[1, 2], [3]], stream_error = None\<rparr> :: byte_stream"
  have c: "stream_error ?c = None" "stream_data ?c = [1, 2, 3]" by (simp_all add: stream_data_def)
  have n: "length ([1, 2, 3] :: bytes) = 3" by simp
  show ?thesis
    by (rule put_get_roundtrip [of srv fresh_machine ?c None plain_unicode, unfolded c n,
          OF fresh_machine_ready refl fresh_machine_stored])
qed

text \<open>C2. A store is atomic whatever the machine refuses and whenever it is cancelled. From a sound
  tree holding \<open>S\<close>, with any system call free to fail and any wait free to be cancelled, \<open>put\<close>
  either returns the blob and leaves a sound tree holding \<open>S\<close> with the content under its key
  (unless the key was taken), or raises and leaves a sound tree holding exactly \<open>S\<close>; only
  \<open>CancelledError\<close> may also leave the whole content stored, and nothing else changed. A digest's
  path never shows partial content.\<close>

theorem put_atomic_under_faults:
  assumes "fs_sound root S s" and "fs_put (adapter root) c ct s = (r, s')"
  shows "case r of
      Inr b \<Rightarrow> stream_error c = None \<and> blob_key b = content_key (stream_data c)
        \<and> (\<exists>d. fs_stored root s' (blob_key b) = Some d \<and> blob_size b = length d)
        \<and> fs_sound root (if S (blob_key b) = None then S(blob_key b \<mapsto> stream_data c) else S) s'
    | Inl e \<Rightarrow> fs_sound root S s'
        \<or> e = CancelledError \<and> stream_error c = None \<and> S (content_key (stream_data c)) = None
          \<and> fs_sound root (S(content_key (stream_data c) \<mapsto> stream_data c)) s'"
  using tripleD [OF fs_put_triple assms(1), of c ct] assms(2)
  by (cases r) (auto simp: put_post_def put_left_def)

lemma fresh_machine_sound:
  "\<forall>n. f n \<noteq> Some ENOENT \<and> f n \<noteq> Some ENOTDIR \<Longrightarrow> fs_sound root (\<lambda>_. None) (refusing f\<lparr>cancels := g\<rparr>)"
  by (simp add: fs_sound_def refusing_def fresh_machine_def tree_ok_empty tree_stored_empty fun_eq_iff)

text \<open>The disk is full at the tenth call, or the task is cancelled while the fourteenth runs.\<close>

lemma put_atomic_under_faults_witness:
  "case fs_put (adapter srv) \<lparr>stream_chunks = [[7]], stream_error = None\<rparr> None
        ((refusing (\<lambda>n. if n = 9 then Some ENOSPC else None))
           \<lparr>cancels := (\<lambda>n. if n = 13 then Some Left_Running else None)\<rparr>) of
      (Inr b, s') \<Rightarrow> blob_key b = content_key [7]
    | (Inl e, s') \<Rightarrow> fs_sound srv (\<lambda>_. None) s'
        \<or> e = CancelledError \<and> fs_sound srv [content_key [7] \<mapsto> [7]] s'"
proof -
  let ?s = "(refusing (\<lambda>n. if n = 9 then Some ENOSPC else None))
    \<lparr>cancels := (\<lambda>n. if n = 13 then Some Left_Running else None)\<rparr>"
  let ?c = "\<lparr>stream_chunks = [[7]], stream_error = None\<rparr> :: byte_stream"
  obtain r s' where run: "fs_put (adapter srv) ?c None ?s = (r, s')" by fastforce
  have "fs_sound srv (\<lambda>_. None) ?s" by (rule fresh_machine_sound) simp
  from put_atomic_under_faults [OF this run] run show ?thesis
    by (cases r) (auto simp: stream_data_def)
qed

text \<open>Storing is idempotent: a second \<open>put\<close> of the same bytes, however they are cut into chunks,
  returns the blob of the first one (its key, its size and the time of the first write) with the
  media type of this call, and what is stored does not change.\<close>

theorem put_again:
  assumes "fs_ready root s" and "stream_error c = None" and "stream_error c' = None"
    and "stream_data c' = stream_data c"
  shows "\<exists>b s1 s2. fs_put (adapter root) c ct s = (Inr b, s1)
    \<and> fs_put (adapter root) c' ct' s1 = (Inr (b\<lparr>blob_content_type := ct'\<rparr>), s2)
    \<and> fs_stored root s2 = fs_stored root s1"
proof -
  from fs_put_entry [OF assms(1,2)] obtain i d m s1 where
    first: "fs_put (adapter root) c ct s = (Inr (published_as c ct d m), s1)" "fs_ready root s1"
    and entry: "tree s1 (shard_path (adapter root) (sha256_hexdigest (stream_data c'))) = Some (Regular i d m)"
    unfolding assms(4) by blast
  from fs_put_known [OF first(2) assms(3) entry] obtain n where
    "fs_put (adapter root) c' ct' s1 = (Inr (published_as c' ct' d m),
      s1\<lparr>tree := with_tmp root s1, next_temp := Suc (next_temp s1), calls := n\<rparr>)" by blast
  with first(1) with_tmp_facts(3) [OF first(2)] show ?thesis
    by (auto simp: published_as_def assms(4))
qed

lemma put_again_witness:
  "\<exists>b s1 s2. fs_put (adapter srv) \<lparr>stream_chunks = [[1, 2], [3]], stream_error = None\<rparr> None fresh_machine = (Inr b, s1)
    \<and> fs_put (adapter srv) \<lparr>stream_chunks = [[1], [2, 3]], stream_error = None\<rparr> (Some (lit ''text/plain'')) s1 =
        (Inr (b\<lparr>blob_content_type := Some (lit ''text/plain'')\<rparr>), s2)
    \<and> fs_stored srv s2 = fs_stored srv s1"
  by (rule put_again [OF fresh_machine_ready]) (simp_all add: stream_data_def)

text \<open>The four ways of asking agree: in a sound, undisturbed state \<open>exists\<close>, \<open>size\<close> and \<open>get\<close> answer
  from one map of what is stored. A key is present for all of them or absent for all of them,
  whatever text it is; absence is \<open>False\<close> or \<open>BlobNotFound\<close> with the bounded message.\<close>

theorem reads_agree:
  assumes "fs_ready root s"
  shows "fst (fs_exists (adapter root) k s) = Inr (fs_stored root s k \<noteq> None)
    \<and> fst (fs_size u (adapter root) k s) = (case fs_stored root s k of
         None \<Rightarrow> Inl (Storage (BlobNotFound (Some (unknown_key_message u k)))) | Some d \<Rightarrow> Inr (length d))
    \<and> fst (fs_get u (adapter root) k s) = (case fs_stored root s k of
         None \<Rightarrow> Inl (Storage (BlobNotFound (Some (unknown_key_message u k)))) | Some d \<Rightarrow> Inr (Fresh d))"
proof (intro conjI)
  show "fst (fs_exists (adapter root) k s) = Inr (fs_stored root s k \<noteq> None)"
    using fs_exists_stored [OF assms] by (metis fst_conv)
  show "fst (fs_size u (adapter root) k s) = (case fs_stored root s k of
         None \<Rightarrow> Inl (Storage (BlobNotFound (Some (unknown_key_message u k)))) | Some d \<Rightarrow> Inr (length d))"
    using fs_size_stored [OF assms] by (metis fst_conv)
  show "fst (fs_get u (adapter root) k s) = (case fs_stored root s k of
         None \<Rightarrow> Inl (Storage (BlobNotFound (Some (unknown_key_message u k)))) | Some d \<Rightarrow> Inr (Fresh d))"
    using fs_get_absent [OF assms, where k = k and u = u] fs_get_stored [OF assms, where k = k and u = u]
    by (cases "fs_stored root s k") auto
qed

lemma reads_agree_witness:
  "fst (fs_exists (adapter srv) (content_key [1, 2, 3]) (stocked_machine srv)) = Inr True
    \<and> fst (fs_size plain_unicode (adapter srv) (content_key [1, 2, 3]) (stocked_machine srv)) = Inr 3
    \<and> fst (fs_get plain_unicode (adapter srv) (content_key [1, 2, 3]) (stocked_machine srv)) = Inr (Fresh [1, 2, 3])"
  using reads_agree [OF stocked_machine_facts(1) [of srv], of "content_key [1, 2, 3]" plain_unicode]
  by (simp add: stocked_machine_facts(2))

text \<open>\<open>delete\<close> removes exactly one key: what is stored is the old map without it, a second
  \<open>delete\<close>, \<open>size\<close> and \<open>get\<close> of it raise \<open>BlobNotFound\<close> and \<open>exists\<close> is false.\<close>

theorem delete_removes:
  assumes "fs_ready root s" and "fs_stored root s k = Some d"
  shows "\<exists>s'. fs_delete u (adapter root) k s = (Inr (), s') \<and> fs_ready root s'
    \<and> fs_stored root s' = (fs_stored root s)(k := None)
    \<and> fst (fs_exists (adapter root) k s') = Inr False
    \<and> fst (fs_size u (adapter root) k s') = Inl (Storage (BlobNotFound (Some (unknown_key_message u k))))
    \<and> fst (fs_get u (adapter root) k s') = Inl (Storage (BlobNotFound (Some (unknown_key_message u k))))
    \<and> fst (fs_delete u (adapter root) k s') = Inl (Storage (BlobNotFound (Some (unknown_key_message u k))))"
proof -
  from fs_delete_stored [OF assms, where u = u] obtain s' where
    gone: "fs_delete u (adapter root) k s = (Inr (), s')" "fs_ready root s'"
      "fs_stored root s' = (fs_stored root s)(k := None)" by blast
  then have none: "fs_stored root s' k = None" by simp
  from fs_exists_stored [OF gone(2), of k] fs_size_stored [OF gone(2), where k = k and u = u]
    fs_get_absent [OF gone(2) none, where u = u] fs_delete_absent [OF gone(2) none, where u = u] gone none
  show ?thesis by auto
qed

lemma delete_removes_witness:
  "\<exists>s'. fs_delete plain_unicode (adapter srv) (content_key [1, 2, 3]) (stocked_machine srv) = (Inr (), s')
    \<and> fst (fs_exists (adapter srv) (content_key [1, 2, 3]) s') = Inr False"
  using delete_removes [OF stocked_machine_facts [of srv], of plain_unicode] by blast

text \<open>C24. A source that fails in the middle stores nothing: \<open>put\<close> raises the source's own exception,
  what is stored does not change, the scratch file is gone (the tree is the old one with at most
  the scratch directory made) and no descriptor stays open.\<close>

theorem failing_source_leaves_nothing:
  assumes "fs_ready root s" and "stream_error c = Some e"
  shows "\<exists>s'. fs_put (adapter root) c ct s = (Inl e, s') \<and> fs_ready root s'
    \<and> fs_stored root s' = fs_stored root s \<and> tree s' = add_dirs (tmp_dir root) (tree s)
    \<and> open_fds s' = open_fds s"
  by (rule fs_put_failing_source [OF assms])

lemma failing_source_leaves_nothing_witness:
  "\<exists>s'. fs_put (adapter srv) \<lparr>stream_chunks = [[1], [2]], stream_error = Some BodyTooLarge\<rparr> None fresh_machine = (Inl BodyTooLarge, s')
    \<and> tree s' = add_dirs (tmp_dir srv) (\<lambda>_. None) \<and> open_fds s' = 0"
  using failing_source_leaves_nothing
    [of srv fresh_machine "\<lparr>stream_chunks = [[1], [2]], stream_error = Some BodyTooLarge\<rparr>" BodyTooLarge None,
     OF fresh_machine_ready]
  by (auto simp: fresh_machine_def)

text \<open>C25. Only regular files inside the tree are ever served. Whatever the other processes do between
  the calls and whatever fails, if \<open>get\<close> returns an iterator then the key is the prefix and 64
  hexadecimal digits, and the bytes it will yield are those of the regular file found at the shard
  path at the moment of the open: never a link's target, a directory or a device.\<close>

theorem get_serves_regular_files:
  assumes "fs_get u (adapter root) k s = (Inr g, s')"
  shows "\<exists>d i c m. k = KEY_PREFIX @ d \<and> hex64 d \<and> g = Fresh c
    \<and> lookup (others s (calls s) (tree s)) (root @ [take 2 d, take 2 (drop 2 d), drop 4 d]) = Inr (Regular i c m)"
proof (rule resolve_key_cases [of root k])
  assume "resolve_key (adapter root) k = None"
  with assms show ?thesis by (simp add: fs_get_def)
next
  fix d assume k: "k = KEY_PREFIX @ d" "hex64 d" "resolve_key (adapter root) k = Some (shard_path (adapter root) d)"
  from assms k(3) obtain n s1 where "trying (to_thread (open_stored_blob (shard_path (adapter root) d)))
      (\<lambda>e. if is_os_error e then (if \<not> is_absent_blob e then raising e
        else raising (Storage (BlobNotFound (Some (unknown_key_message u k))))) else raising e) s = (Inr n, s1)"
    and g: "g = Fresh (file_bytes n)"
    unfolding fs_get_def by (auto elim!: and_then_InrE)
  then have "to_thread (open_stored_blob (shard_path (adapter root) d)) s = (Inr n, s1)"
    by (auto simp: trying_def split: prod.splits sum.splits if_splits)
  then have "open_stored_blob (shard_path (adapter root) d) s = (Inr n, s1)"
    by (rule to_thread_Inr)
  from open_stored_Inr [OF this] k g show ?thesis
    by (auto simp: file_bytes_def shard_path_root)
qed

lemma get_serves_regular_files_witness:
  "\<exists>d i c m. content_key [1, 2, 3] = KEY_PREFIX @ d \<and> hex64 d \<and> [1, 2, 3] = c
    \<and> lookup (tree (stocked_machine srv)) (srv @ [take 2 d, take 2 (drop 2 d), drop 4 d]) = Inr (Regular i c m)"
proof -
  from fs_get_stored [OF stocked_machine_facts [of srv]] obtain s' where
    "fs_get plain_unicode (adapter srv) (content_key [1, 2, 3]) (stocked_machine srv) = (Inr (Fresh [1, 2, 3]), s')" by blast
  from get_serves_regular_files [OF this] fs_readyD(1) [OF stocked_machine_facts(1) [of srv]]
  show ?thesis by (simp add: quiet_def)
qed

text \<open>C39. The iterator is faithful and closes its file. However reads fail, the chunks it yields are
  nonempty, at most \<open>READ_CHUNK_SIZE\<close> long and together a prefix of the content; if it ends
  normally they are the whole content; and once it ends, either way, its descriptor is released.\<close>

theorem drain_delivers_and_closes:
  "case stream_drain rest s of (cs, r, s') \<Rightarrow>
     prefix (concat cs) rest \<and> (concat cs = rest \<or> (\<exists>e. r = Inl e))
     \<and> (\<Union>c\<in>set cs. {length c}) \<subseteq> {1..READ_CHUNK_SIZE}
     \<and> open_fds s' = open_fds s - 1"
proof -
  obtain cs r s' where run: "stream_drain rest s = (cs, r, s')" by (metis prod_cases3)
  have "\<exists>e. r = Inl e" if "r \<noteq> Inr ()" using that by (cases r) auto
  then show ?thesis
    using drain_any [OF run] by (auto simp: run Suc_le_eq)
qed

text \<open>A broken store is not an absence: when opening a well-formed key's file fails with an error
  that is not one of absence, \<open>get\<close> raises that error itself, and when the error is one of absence
  it raises \<open>BlobNotFound\<close>; no descriptor is opened.\<close>

theorem open_error_classified:
  assumes "hex64 d" and "fault s (calls s) = Some x" and "cancels s (calls s) = None"
  shows "\<exists>s'. fs_get u (adapter root) (KEY_PREFIX @ d) s =
      (Inl (if x = ENOENT \<or> x = ENOTDIR \<or> x = ELOOP \<or> x = EMLINK
            then Storage (BlobNotFound (Some (unknown_key_message u (KEY_PREFIX @ d))))
            else OSErr (OSError x)), s') \<and> open_fds s' = open_fds s"
proof -
  have "open_stored_blob (shard_path (adapter root) d) s =
      (Inl (OSErr (OSError x)), s\<lparr>tree := others s (calls s) (tree s), calls := Suc (calls s)\<rparr>)"
    using assms(2) by (simp add: open_stored_blob_def os_open_read_def syscall_def Let_def and_then_def)
  then show ?thesis
    using assms(1,3) by (auto simp: fs_get_def and_then_def trying_def to_thread_def SYMLINK_OPEN_ERRNOS_def)
qed

lemma open_error_classified_witness:
  "\<exists>s'. fs_get plain_unicode (adapter srv) (KEY_PREFIX @ replicate 64 97) (refusing (\<lambda>_. Some EIO)) =
      (Inl (OSErr (OSError EIO)), s') \<and> open_fds s' = 0"
  using open_error_classified [of "replicate 64 97" "refusing (\<lambda>_. Some EIO)" EIO plain_unicode srv]
  by (simp add: hex64_def is_hex_def refusing_def fresh_machine_def)

text \<open>Storing accounts for its descriptors: a \<open>put\<close> that succeeds leaves as many open as before,
  whatever the other processes do; one that raises leaves at most one more.\<close>

theorem put_descriptors:
  "case fs_put (adapter root) c ct s of
     (Inr b, s') \<Rightarrow> open_fds s' = open_fds s
   | (Inl e, s') \<Rightarrow> open_fds s' = open_fds s \<or> open_fds s' = open_fds s + 1"
  using tripleD [OF fds_put [of "open_fds s" "adapter root" c ct], of s]
  by (simp add: fds_upto_def split: prod.splits sum.splits)

text \<open>The first calls of a first \<open>put\<close>: the directories and the scratch file.\<close>

abbreviation srv_dirs :: fs_tree where
  "srv_dirs \<equiv> (\<lambda>_. None)(srv \<mapsto> Directory, tmp_dir srv \<mapsto> Directory)"

abbreviation srv_scratch :: path where
  "srv_scratch \<equiv> tmp_dir srv @ [temp_file [] (lit ''.part'')]"

lemma srv_dirs_add: "srv_dirs = add_dirs (tmp_dir srv) (\<lambda>_. None)"
  by (auto simp: fun_eq_iff add_dirs_def tmp_dir_def srv_def prefix_Cons)

lemma first_put_opens:
  fixes f g
  defines "s \<equiv> refusing f\<lparr>cancels := g\<rparr>"
  assumes "f 0 = None" and "f 1 = None" and "f 2 = None" and "f 3 = None" and "f 4 = None"
  shows "makedirs (tmp_dir srv) s = (Inr (), s\<lparr>tree := srv_dirs, calls := 4\<rparr>)"
    and "mkstemp (tmp_dir srv) (lit ''.part'') (s\<lparr>tree := srv_dirs, calls := 4\<rparr>) =
      (Inr (4, srv_scratch), s\<lparr>tree := srv_dirs(srv_scratch \<mapsto> Regular 4 [] 4), calls := 5, next_temp := 1, open_fds := 1\<rparr>)"
proof -
  note eval = s_def refusing_def fresh_machine_def syscall_def Let_def and_then_def trying_def
    locate_def node_at_def is_dir_at_def tmp_dir_def srv_def max_symlinks_def eval_nat_numeral
  show "makedirs (tmp_dir srv) s = (Inr (), s\<lparr>tree := srv_dirs, calls := 4\<rparr>)"
    using assms(2-) by (simp add: makedirs_def path_exists_def stat_follow_def os_mkdir_def eval)
  let ?s = "s\<lparr>tree := srv_dirs, calls := 4\<rparr>"
  have "os_create_excl (tmp_dir srv @ [temp_file (temp_names ?s (next_temp ?s)) (lit ''.part'')])
      (?s\<lparr>next_temp := Suc (next_temp ?s)\<rparr>) =
    (Inr 4, s\<lparr>tree := srv_dirs(srv_scratch \<mapsto> Regular 4 [] 4), calls := 5, next_temp := 1, open_fds := 1\<rparr>)"
    using assms(6) by (simp add: os_create_excl_def eval)
  from mkstemp_try_first [OF this] show "mkstemp (tmp_dir srv) (lit ''.part'') ?s =
      (Inr (4, srv_scratch), s\<lparr>tree := srv_dirs(srv_scratch \<mapsto> Regular 4 [] 4), calls := 5, next_temp := 1, open_fds := 1\<rparr>)"
    by (simp add: s_def refusing_def fresh_machine_def)
qed

text \<open>The one that may be lost is real: when turning the scratch file's descriptor into a file
  object is refused (the sixth call of a first \<open>put\<close>), \<open>put\<close> raises that error with the scratch
  file removed and its descriptor still open.\<close>

theorem fdopen_failure_leaks_descriptor:
  "\<exists>s'. fs_put (adapter srv) c ct (refusing (\<lambda>n. if n = 5 then Some (EOther 24) else None))
     = (Inl (OSErr (OSError (EOther 24))), s')
   \<and> open_fds s' = 1 \<and> tree s' = add_dirs (tmp_dir srv) (\<lambda>_. None)"
proof -
  let ?s = "refusing (\<lambda>n. if n = 5 then Some (EOther 24) else None)\<lparr>cancels := (\<lambda>_. None)\<rparr>"
  let ?s2 = "?s\<lparr>tree := srv_dirs(srv_scratch \<mapsto> Regular 4 [] 4), calls := 5, next_temp := 1, open_fds := 1\<rparr>"
  let ?s3 = "?s\<lparr>tree := srv_dirs, calls := 7, next_temp := 1, open_fds := 1\<rparr>"
  note eval = refusing_def fresh_machine_def syscall_def Let_def and_then_def trying_def
    locate_def node_at_def is_dir_at_def
  note first_put_opens [of "\<lambda>n. if n = 5 then Some (EOther 24) else None" "\<lambda>_. None"]
  moreover have "os_touch ?s2 = (Inl (OSErr (OSError (EOther 24))), ?s2\<lparr>calls := 6\<rparr>)"
    by (simp add: os_touch_def eval)
  moreover have "unlink_missing_ok srv_scratch (?s2\<lparr>calls := 6\<rparr>) = (Inr (), ?s3)"
    by (simp add: unlink_missing_ok_def os_unlink_def eval tmp_dir_def srv_def max_symlinks_def
        eval_nat_numeral fun_upd_idem)
  ultimately have "fs_put (adapter srv) c ct ?s = (Inl (OSErr (OSError (EOther 24))), ?s3)"
    by (simp add: fs_put_def spool_def tmp_dir_def [symmetric] and_then_def trying_def to_thread_def)
  moreover have "?s = refusing (\<lambda>n. if n = 5 then Some (EOther 24) else None)"
    by (simp add: refusing_def fresh_machine_def)
  ultimately show ?thesis
    using srv_dirs_add by simp
qed

text \<open>A cancelled wait can leave a scratch file behind: when a first \<open>put\<close> is cancelled while
  \<open>mkstemp\<close> runs in its thread, neither the file it makes nor its descriptor is ever removed,
  since the block that cleans up after any exception begins only once its name is known.\<close>

theorem cancelled_mkstemp_leaves_scratch:
  "\<exists>s'. fs_put (adapter srv) c ct (fresh_machine\<lparr>cancels := (\<lambda>n. if n = 4 then Some Left_Running else None)\<rparr>)
     = (Inl CancelledError, s')
   \<and> open_fds s' = 1 \<and> tree s' srv_scratch = Some (Regular 4 [] 4)"
proof -
  let ?g = "\<lambda>n. if n = 4 then Some Left_Running else None"
  let ?s = "refusing (\<lambda>_. None)\<lparr>cancels := ?g\<rparr>"
  have "?s = fresh_machine\<lparr>cancels := ?g\<rparr>"
    by (simp add: refusing_def fresh_machine_def)
  moreover have "calls ?s = 0"
    by (simp add: refusing_def fresh_machine_def)
  with first_put_opens [of "\<lambda>_. None" ?g] have "fs_put (adapter srv) c ct ?s = (Inl CancelledError,
      ?s\<lparr>tree := srv_dirs(srv_scratch \<mapsto> Regular 4 [] 4), calls := 5, next_temp := 1, open_fds := 1\<rparr>)"
    by (simp add: fs_put_def spool_def tmp_dir_def [symmetric] and_then_def to_thread_def)
  ultimately show ?thesis by simp
qed

text \<open>The health check raises nothing of its own, whatever the machine and the other processes do: it
  answers unless it is cancelled; in a sound,
  undisturbed state it answers whether the storage root is a directory, and leaves the tree and
  the descriptors as they were.\<close>

theorem check_health_answers:
  "(fst (fs_check_health h (adapter root) s) = Inl CancelledError
      \<or> (\<exists>b. fst (fs_check_health h (adapter root) s) = Inr b))
   \<and> (fs_ready root s \<and> tree s (root @ [lit ''.health-'' @ h]) = None \<longrightarrow>
      (\<exists>n. fs_check_health h (adapter root) s = (Inr (is_dir_at (tree s) root), s\<lparr>calls := n\<rparr>)))"
proof (intro conjI impI)
  show "fst (fs_check_health h (adapter root) s) = Inl CancelledError
      \<or> (\<exists>b. fst (fs_check_health h (adapter root) s) = Inr b)"
    using raises_onlyD [OF check_health_only] by (metis prod.collapse old.sum.exhaust)
  show "\<exists>n. fs_check_health h (adapter root) s = (Inr (is_dir_at (tree s) root), s\<lparr>calls := n\<rparr>)"
    if "fs_ready root s \<and> tree s (root @ [lit ''.health-'' @ h]) = None"
    using that check_health_quiet by blast
qed

lemma check_health_answers_witness:
  "\<exists>n. fs_check_health (lit ''0f'') (adapter srv) fresh_machine = (Inr False, fresh_machine\<lparr>calls := n\<rparr>)"
  using check_health_answers [of "lit ''0f''" srv fresh_machine] fresh_machine_ready
  by (simp add: fresh_machine_def is_dir_at_def srv_def)

text \<open>C40. A link planted at a digest's path is not a blob for any read: \<open>exists\<close> is false, \<open>size\<close> and
  \<open>get\<close> raise \<open>BlobNotFound\<close>, and \<open>delete\<close> removes the link itself and nothing else.\<close>

theorem planted_link_is_no_blob:
  assumes "quiet s" and "closed (tree s)" and "dirs_plain (tree s) (root @ [take 2 d, take 2 (drop 2 d)])"
    and "hex64 d" and "tree s (root @ [take 2 d, take 2 (drop 2 d), drop 4 d]) = Some (Symlink l)"
  shows "fst (fs_exists (adapter root) (KEY_PREFIX @ d) s) = Inr False
    \<and> fst (fs_size u (adapter root) (KEY_PREFIX @ d) s) = Inl (Storage (BlobNotFound (Some (unknown_key_message u (KEY_PREFIX @ d)))))
    \<and> fst (fs_get u (adapter root) (KEY_PREFIX @ d) s) = Inl (Storage (BlobNotFound (Some (unknown_key_message u (KEY_PREFIX @ d)))))
    \<and> fs_delete u (adapter root) (KEY_PREFIX @ d) s = (Inr (),
        s\<lparr>tree := (tree s)(root @ [take 2 d, take 2 (drop 2 d), drop 4 d] := None), calls := Suc (calls s)\<rparr>)"
proof -
  let ?p = "shard_path (adapter root) d"
  have "dirs_plain (tree s) (butlast ?p)"
    unfolding butlast_shard_path shard_dir_def by (rule assms(3))
  moreover have "tree s ?p = Some (Symlink l)"
    unfolding shard_path_root by (rule assms(5))
  ultimately have p: "dirs_plain (tree s) (butlast ?p)" "tree s ?p = Some (Symlink l)" .
  have "os_lstat ?p s = (Inr (stat_of (Symlink l)), ticked s)"
    using os_lstat_quiet [OF assms(1,2) p(1)] p(2) by simp
  moreover have "os_open_read ?p BLOB_OPEN_FLAGS s = (Inl (OSErr (OSError ELOOP)), ticked s)"
    using os_open_read_quiet [OF assms(1,2) p(1) _ nofollow] p(2) by simp
  moreover have "os_unlink ?p s = (Inr (), s\<lparr>tree := (tree s)(?p := None), calls := Suc (calls s)\<rparr>)"
    using assms(1,2) p by (intro os_unlink_quiet [where n = "Symlink l"]) simp_all
  ultimately show ?thesis
    using assms(1,4)
    by (simp add: fs_exists_def fs_size_def fs_get_def fs_delete_def is_stored_blob_def open_stored_blob_def
        and_then_def trying_def s_isreg_def SYMLINK_OPEN_ERRNOS_def shard_path_root [symmetric])
qed

definition planted_machine :: os_state where
  "planted_machine = fresh_machine\<lparr>tree := add_dirs (srv @ [[97, 97], [97, 97]])
     (\<lambda>p. if p = srv @ [[97, 97], [97, 97], replicate 60 97] then Some (Symlink [lit ''etc'', lit ''passwd'']) else None)\<rparr>"

lemma planted_link_is_no_blob_witness:
  "fst (fs_get plain_unicode (adapter srv) (KEY_PREFIX @ replicate 64 97) planted_machine) =
     Inl (Storage (BlobNotFound (Some (unknown_key_message plain_unicode (KEY_PREFIX @ replicate 64 97)))))"
proof -
  let ?d = "replicate 64 97 :: pystr"
  have cut: "take 2 ?d = [97, 97]" "take 2 (drop 2 ?d) = [97, 97]" "drop 4 ?d = replicate 60 97"
    by (simp_all add: numeral_2_eq_2)
  have "quiet planted_machine"
    by (simp add: planted_machine_def fresh_machine_def quiet_def)
  moreover have "closed (tree planted_machine)"
    unfolding closed_def planted_machine_def
    by (auto simp: srv_def add_dirs_def is_dir_at_def prefix_Cons split: if_splits)
  moreover have "dirs_plain (tree planted_machine) (srv @ [take 2 ?d, take 2 (drop 2 ?d)])"
    unfolding cut by (auto simp: planted_machine_def dirs_plain_def add_dirs_def)
  moreover have "hex64 ?d" by (simp add: hex64_def is_hex_def)
  moreover have "tree planted_machine (srv @ [take 2 ?d, take 2 (drop 2 ?d), drop 4 ?d]) = Some (Symlink [lit ''etc'', lit ''passwd''])"
    unfolding cut by (simp add: planted_machine_def add_dirs_def srv_def)
  ultimately show ?thesis
    using planted_link_is_no_blob [of planted_machine srv ?d "[lit ''etc'', lit ''passwd'']" plain_unicode] by blast
qed

text \<open>The message about an unknown key is bounded and safe to show: whatever the key, it is at most
  827 characters long, and each of them is printing ASCII or a character the interpreter's tables
  call printable, so no control character of the key reaches a log line or a response.\<close>

theorem unknown_key_message_bounded:
  "length (unknown_key_message u key) \<le> 827 \<and> set (unknown_key_message u key) \<subseteq> {c. safe_char u c}"
proof -
  have lits: "set (lit ''unknown key: '') \<subseteq> {c. safe_char u c}" "set (lit '' (truncated)'') \<subseteq> {c. safe_char u c}"
    by (simp_all add: lit_def safe_char_def)
  have "length (repr_str u (take KEY_ECHO_LIMIT key)) \<le> 802"
    using length_repr_str [of u "take KEY_ECHO_LIMIT key"] by (simp add: KEY_ECHO_LIMIT_def)
  then have "length (unknown_key_message u key) \<le> 827"
    using length_repr_str [of u key] by (auto simp: unknown_key_message_def KEY_ECHO_LIMIT_def)
  moreover have "set (unknown_key_message u key) \<subseteq> {c. safe_char u c}"
    using lits repr_str_safe unfolding unknown_key_message_def by auto
  ultimately show ?thesis ..
qed

end
