(* ===== verification/Adapter_Steps.thy ===== *)
theory Adapter_Steps
  imports Filesystem_Properties
begin

text \<open>
  The adapter among others of its kind. Any number of tasks and processes run the operations of
  \<open>filesystem.py\<close> on one directory at the same time, their system calls interleaved in any
  order. What such a call does to the tree is a step of the relation below; an operation is
  specified with the steps of the others between its own calls (their \<open>others\<close>), and each of its
  own calls is proved to be a step again. An operation's answer is the truth of one moment during
  the operation. The task's own calls may be refused and its waits cancelled; the parameter \<open>calm\<close> of
  the invariants says that none is.
\<close>

section \<open>The steps of the adapters\<close>

text \<open>
  \<open>names\<close> are the scratch names a step may use and \<open>inos\<close> the inode numbers of the files it may
  create. Files are created and written under \<open>tmp\<close> and, for a health check, beside it.
\<close>

definition work_path :: "path \<Rightarrow> pystr set \<Rightarrow> path \<Rightarrow> bool" where
  "work_path root names p \<longleftrightarrow> (\<exists>x\<in>names. p = tmp_dir root @ [x]) \<or> (\<exists>h. p = root @ [lit ''.health-'' @ h])"

inductive adapter_step :: "path \<Rightarrow> pystr set \<Rightarrow> nat set \<Rightarrow> fs_tree \<Rightarrow> fs_tree \<Rightarrow> bool" for root names inos where
  Mkdir: "adapter_dir root q \<Longrightarrow> q \<noteq> [] \<Longrightarrow> t q = None \<Longrightarrow> is_dir_at t (butlast q)
    \<Longrightarrow> adapter_step root names inos t (t(q \<mapsto> Directory))"
| Create: "work_path root names p \<Longrightarrow> i \<in> inos \<Longrightarrow> t p = None \<Longrightarrow> is_dir_at t (butlast p)
    \<Longrightarrow> adapter_step root names inos t (t(p \<mapsto> Regular i [] m))"
| Write: "work_path root names p \<Longrightarrow> t p = Some (Regular i c m)
    \<Longrightarrow> adapter_step root names inos t (t(p \<mapsto> Regular i (c @ bs) m'))"
| Discard: "work_path root names p \<Longrightarrow> t p = Some (Regular i c m)
    \<Longrightarrow> adapter_step root names inos t (t(p := None))"
| Publish: "x \<in> names \<Longrightarrow> t (tmp_dir root @ [x]) = Some (Regular i c m) \<Longrightarrow> is_dir_at t (shard_dir root (sha256_hexdigest c))
    \<Longrightarrow> adapter_step root names inos t
         ((t(tmp_dir root @ [x] := None))(shard_path (adapter root) (sha256_hexdigest c) \<mapsto> Regular i c m))"
| Remove: "hex64 d \<Longrightarrow> t (shard_path (adapter root) d) = Some (Regular i c m)
    \<Longrightarrow> adapter_step root names inos t (t(shard_path (adapter root) d := None))"

abbreviation evolves :: "path \<Rightarrow> fs_tree \<Rightarrow> fs_tree \<Rightarrow> bool" where
  "evolves root \<equiv> (adapter_step root UNIV UNIV)\<^sup>*\<^sup>*"

lemma work_path_mono: "work_path root names p \<Longrightarrow> names \<subseteq> names' \<Longrightarrow> work_path root names' p"
  unfolding work_path_def by blast

lemma work_path_aside:
  assumes "work_path root names p"
  shows "p \<noteq> []" and "\<not> prefix p (tmp_dir root)" and "hex64 d \<Longrightarrow> \<not> prefix p (shard_dir root d)"
    and "shard_path (adapter root) d \<noteq> p" and "y \<notin> names \<Longrightarrow> p \<noteq> tmp_dir root @ [y]"
proof -
  consider (scratch) x where "x \<in> names" "p = tmp_dir root @ [x]" | (probe) h where "p = root @ [lit ''.health-'' @ h]"
    using assms unfolding work_path_def by blast
  note kinds = this
  have long: "lit ''.health-'' @ h \<noteq> x" if "length x \<le> 3" for h x
    using that by (auto simp: lit_def)
  from kinds show "p \<noteq> []" by cases simp_all
  from kinds show "\<not> prefix p (tmp_dir root)"
    by cases (use tmp_child_not_prefix long in \<open>simp_all add: tmp_dir_def\<close>)
  from kinds show "\<not> prefix p (shard_dir root d)" if "hex64 d"
    by cases (use that tmp_child_not_prefix long in \<open>simp_all add: shard_dir_def\<close>)
  from kinds show "shard_path (adapter root) d \<noteq> p"
    by cases (simp, simp add: shard_path_root)
  from kinds show "p \<noteq> tmp_dir root @ [y]" if "y \<notin> names"
    by cases (use that in \<open>auto simp: tmp_dir_def\<close>)
qed

lemma tree_ok_work:
  assumes "tree_ok root t" and "work_path root names p" and "t p \<noteq> Some Directory"
    and "n = None \<or> is_dir_at t (butlast p)"
  shows "tree_ok root (t(p := n))"
  using assms work_path_aside [OF assms(2)] by (auto simp: tree_ok_def intro!: closed_upd dirs_plain_upd)

lemma work_path_parent: "tree_ok root t \<Longrightarrow> work_path root names p \<Longrightarrow> t p \<noteq> None \<Longrightarrow> is_dir_at t (butlast p)"
  using tree_okD(1) work_path_aside(1) unfolding closed_def by blast

lemma adapter_step_mono:
  "adapter_step root names inos t t' \<Longrightarrow> names \<subseteq> names' \<Longrightarrow> inos \<subseteq> inos' \<Longrightarrow> adapter_step root names' inos' t t'"
  by (induction rule: adapter_step.induct) (blast intro: adapter_step.intros work_path_mono)+

lemma peers_evolve:
  assumes "(adapter_step root names inos)\<^sup>*\<^sup>* t t'"
  shows "evolves root t t'"
  using assms adapter_step_mono [where names' = UNIV and inos' = UNIV]
  by (metis mono_rtranclp top_greatest)

lemma tree_ok_publish:
  assumes "tree_ok root t" and "t (tmp_dir root @ [x]) = Some (Regular i c m)"
    and "is_dir_at t (shard_dir root (sha256_hexdigest c))"
  shows "tree_ok root ((t(tmp_dir root @ [x] := None))(shard_path (adapter root) (sha256_hexdigest c) \<mapsto> Regular i c m))"
proof (rule tree_ok_blob)
  show "tree_ok root (t(tmp_dir root @ [x] := None))"
    using assms(1,2) by (intro tree_ok_scratch) auto
  show "Some (Regular i c m) = None \<or> is_dir_at (t(tmp_dir root @ [x] := None)) (shard_dir root (sha256_hexdigest c))"
    using assms(3) by (simp add: is_dir_at_def)
qed (simp_all add: blob_ok_def)

lemma adapter_step_ok: "adapter_step root names inos t t' \<Longrightarrow> tree_ok root t \<Longrightarrow> tree_ok root t'"
proof (induction rule: adapter_step.induct)
  case (Mkdir q t)
  from tree_ok_mkdir [OF Mkdir(5,1-4)] show ?case .
next
  case (Create p i t m)
  then show ?case by (intro tree_ok_work) simp_all
next
  case (Write p t i c m bs m')
  then show ?case using work_path_parent [OF Write(3,1)] by (intro tree_ok_work) simp_all
next
  case (Discard p t i c m)
  then show ?case by (intro tree_ok_work) simp_all
next
  case (Publish x t i c m)
  from tree_ok_publish [OF Publish(4,2,3)] show ?case .
next
  case (Remove d t i c m)
  then show ?case by (intro tree_ok_blob) (simp_all add: blob_ok_def)
qed

lemma adapter_steps_ok: "(adapter_step root names inos)\<^sup>*\<^sup>* t t' \<Longrightarrow> tree_ok root t \<Longrightarrow> tree_ok root t'"
  by (induction rule: rtranclp_induct) (blast intro: adapter_step_ok)+

text \<open>Directories stay.\<close>

lemma is_dir_at_upd: "is_dir_at t q \<Longrightarrow> t p \<noteq> Some Directory \<Longrightarrow> is_dir_at (t(p := n)) q"
  by (auto simp: is_dir_at_def)

lemma adapter_step_dir: "adapter_step root names inos t t' \<Longrightarrow> tree_ok root t \<Longrightarrow> is_dir_at t q \<Longrightarrow> is_dir_at t' q"
proof (induction rule: adapter_step.induct)
  case (Publish x t i c m)
  have "t (shard_path (adapter root) (sha256_hexdigest c)) \<noteq> Some Directory"
    using tree_okD(4) [OF Publish(4) hex64_sha256 [of c]] by (auto simp: blob_ok_def)
  with Publish show ?case by (intro is_dir_at_upd) simp_all
next
  case (Mkdir q' t)
  then show ?case by (simp add: is_dir_at_def)
qed (intro is_dir_at_upd; simp)+

section \<open>A task among the others\<close>

text \<open>
  The scratch files of a task have names in \<open>mine\<close>, which the others do not draw, and inode
  numbers from \<open>k\<close> on. \<open>scratch_is\<close> says which of them exists, \<open>dirs\<close> are directories the
  task has seen, and \<open>t0\<close> is a tree of some moment before. When \<open>calm\<close> is true no call of the
  task is refused and no wait cancelled, and it knows all of its scratch files; otherwise both
  happen at any time, and a scratch file whose removal failed may be lying about.
\<close>

definition scratch_is :: "bool \<Rightarrow> path \<Rightarrow> pystr set \<Rightarrow> nat \<Rightarrow> (pystr \<times> nat \<times> bytes) option \<Rightarrow> fs_tree \<Rightarrow> bool" where
  "scratch_is calm root mine k F t \<longleftrightarrow> (case F of
       None \<Rightarrow> calm \<longrightarrow> (\<forall>y\<in>mine. t (tmp_dir root @ [y]) = None)
     | Some (x, ino, data) \<Rightarrow> x \<in> mine \<and> k \<le> ino \<and> sole_inode t (tmp_dir root @ [x]) ino
         \<and> (\<exists>m. t (tmp_dir root @ [x]) = Some (Regular ino data m))
         \<and> (calm \<longrightarrow> (\<forall>y\<in>mine. y \<noteq> x \<longrightarrow> t (tmp_dir root @ [y]) = None)))"

definition shared_tree ::
  "bool \<Rightarrow> path \<Rightarrow> pystr set \<Rightarrow> nat \<Rightarrow> fs_tree \<Rightarrow> path set \<Rightarrow> (pystr \<times> nat \<times> bytes) option \<Rightarrow> nat \<Rightarrow> fs_tree \<Rightarrow> bool" where
  "shared_tree calm root mine k t0 dirs F n t \<longleftrightarrow> k \<le> n \<and> tree_ok root t \<and> evolves root t0 t \<and> (\<forall>q\<in>dirs. is_dir_at t q)
     \<and> (\<forall>p i c m. t p = Some (Regular i c m) \<longrightarrow> i < n) \<and> scratch_is calm root mine k F t"

definition among_peers :: "bool \<Rightarrow> path \<Rightarrow> pystr set \<Rightarrow> nat \<Rightarrow> os_state \<Rightarrow> bool" where
  "among_peers calm root mine k s \<longleftrightarrow> (calm \<longrightarrow> fault s = (\<lambda>_. None) \<and> uncancelled s)
     \<and> (\<forall>n t. (adapter_step root (- mine) {..<k})\<^sup>*\<^sup>* t (others s n t))
     \<and> (\<forall>n. temp_file (temp_names s n) (lit ''.part'') \<in> mine)"

definition sharing ::
  "bool \<Rightarrow> path \<Rightarrow> pystr set \<Rightarrow> nat \<Rightarrow> fs_tree \<Rightarrow> path set \<Rightarrow> (pystr \<times> nat \<times> bytes) option \<Rightarrow> os_state \<Rightarrow> bool" where
  "sharing calm root mine k t0 dirs F s \<longleftrightarrow> among_peers calm root mine k s \<and> shared_tree calm root mine k t0 dirs F (calls s) (tree s)"

lemma among_peers_upd [simp]:
  "among_peers calm root mine k (s\<lparr>tree := t\<rparr>) = among_peers calm root mine k s"
  "among_peers calm root mine k (s\<lparr>calls := n\<rparr>) = among_peers calm root mine k s"
  "among_peers calm root mine k (s\<lparr>next_temp := n\<rparr>) = among_peers calm root mine k s"
  "among_peers calm root mine k (s\<lparr>open_fds := n\<rparr>) = among_peers calm root mine k s"
  by (simp_all add: among_peers_def)

lemma sharing_upd [simp]:
  "sharing calm root mine k t0 dirs F (s\<lparr>next_temp := n\<rparr>) = sharing calm root mine k t0 dirs F s"
  "sharing calm root mine k t0 dirs F (s\<lparr>open_fds := n\<rparr>) = sharing calm root mine k t0 dirs F s"
  by (simp_all add: sharing_def)

text \<open>No step of the others touches the task's scratch file.\<close>

lemma scratch_is_other:
  assumes "scratch_is calm root mine k F t" and "\<And>y. y \<in> mine \<Longrightarrow> t' (tmp_dir root @ [y]) = t (tmp_dir root @ [y])"
    and other: "\<And>p i c m. t' p = Some (Regular i c m) \<Longrightarrow> k \<le> i \<Longrightarrow>
      \<exists>p' c' m'. t p' = Some (Regular i c' m') \<and> (p' = p \<or> (\<forall>y\<in>mine. p' \<noteq> tmp_dir root @ [y]))"
  shows "scratch_is calm root mine k F t'"
proof (cases F)
  case None
  with assms(1,2) show ?thesis by (simp add: scratch_is_def)
next
  case (Some G)
  obtain x ino data where G: "G = (x, ino, data)" by (cases G)
  from assms(1) have x: "x \<in> mine" "k \<le> ino" and sole: "sole_inode t (tmp_dir root @ [x]) ino"
    by (simp_all add: scratch_is_def Some G)
  have "sole_inode t' (tmp_dir root @ [x]) ino"
    unfolding sole_inode_def
  proof (intro allI impI)
    fix q c m assume "t' q = Some (Regular ino c m)"
    from other [OF this x(2)] x(1) sole show "q = tmp_dir root @ [x]"
      unfolding sole_inode_def by blast
  qed
  with assms(1,2) show ?thesis unfolding Some G by (simp add: scratch_is_def)
qed

lemma peer_scratch:
  assumes "adapter_step root (- mine) {..<k} t t'" and "scratch_is calm root mine k F t"
  shows "scratch_is calm root mine k F t'"
  using assms
proof (induction rule: adapter_step.induct)
  case (Publish x t i c m)
  show ?case
  proof (rule scratch_is_other [OF Publish(4)])
    fix p i' c' m'
    assume "((t(tmp_dir root @ [x] := None))(shard_path (adapter root) (sha256_hexdigest c) \<mapsto> Regular i c m)) p
        = Some (Regular i' c' m')"
    with Publish(1,2) show "\<exists>p' c' m'. t p' = Some (Regular i' c' m')
        \<and> (p' = p \<or> (\<forall>y\<in>mine. p' \<noteq> tmp_dir root @ [y]))"
      by (auto split: if_splits)
  qed (use Publish in auto)
next
  case (Mkdir q t)
  have q: "q \<noteq> tmp_dir root @ [y]" for y
    using Mkdir(1) tmp_child_not_prefix unfolding adapter_dir_def by blast
  show ?case
    by (rule scratch_is_other [OF Mkdir(5)]) (use q in \<open>auto split: if_splits\<close>)
next
  case (Create p i t m)
  show ?case
    by (rule scratch_is_other [OF Create(5)]) (use Create(2) work_path_aside(5) [OF Create(1)] in \<open>auto split: if_splits\<close>)
next
  case (Write p t i c m bs m')
  show ?case
    by (rule scratch_is_other [OF Write(3)]) (use Write(2) work_path_aside(5) [OF Write(1)] in \<open>auto split: if_splits\<close>)
next
  case (Discard p t i c m)
  show ?case
    by (rule scratch_is_other [OF Discard(3)]) (use Discard(2) work_path_aside(5) [OF Discard(1)] in \<open>auto split: if_splits\<close>)
next
  case (Remove d t i c m)
  show ?case
    by (rule scratch_is_other [OF Remove(3)]) (auto split: if_splits)
qed

lemma adapter_step_inodes:
  "adapter_step root names inos t t' \<Longrightarrow> t' p = Some (Regular i c m) \<Longrightarrow>
   i \<in> inos \<or> (\<exists>p' c' m'. t p' = Some (Regular i c' m'))"
  by (induction rule: adapter_step.induct) (auto split: if_splits)

lemma peers_shared:
  assumes "(adapter_step root (- mine) {..<k})\<^sup>*\<^sup>* t t'" and "shared_tree calm root mine k t0 dirs F n t"
  shows "shared_tree calm root mine k t0 dirs F n t'"
  using assms
proof (induction rule: rtranclp_induct)
  case (step t' t'')
  then have old: "shared_tree calm root mine k t0 dirs F n t'" by simp
  have "evolves root t' t''" using step(2) by (intro peers_evolve [OF r_into_rtranclp])
  moreover have "i < n" if "t'' p = Some (Regular i c m)" for p i c m
    using adapter_step_inodes [OF step(2) that] old unfolding shared_tree_def by fastforce
  ultimately show ?case
    using old step(2) peer_scratch [OF step(2)] adapter_step_ok [OF step(2)] adapter_step_dir [OF step(2)]
    unfolding shared_tree_def by (meson rtranclp_trans)
qed

text \<open>One call: the others move, then the call is refused, or looks at the tree and may change it.\<close>

lemma shared_syscall:
  assumes "sharing calm root mine k t0 dirs F s"
  obtains (made) t where "shared_tree calm root mine k t0 dirs F (calls s) t"
    and "syscall f s = (case f (wall s (calls s)) t of
        Inl e \<Rightarrow> (Inl (OSErr (OSError e)), s\<lparr>tree := t, calls := Suc (calls s)\<rparr>)
      | Inr (a, t') \<Rightarrow> (Inr a, s\<lparr>tree := t', calls := Suc (calls s)\<rparr>))"
  | (refused) t e where "\<not> calm" and "shared_tree calm root mine k t0 dirs F (calls s) t"
    and "syscall f s = (Inl (OSErr (OSError e)), s\<lparr>tree := t, calls := Suc (calls s)\<rparr>)"
proof (cases "fault s (calls s)")
  let ?t = "others s (calls s) (tree s)"
  have t: "shared_tree calm root mine k t0 dirs F (calls s) ?t"
    using assms peers_shared unfolding sharing_def among_peers_def by blast
  case None
  then have "syscall f s = (case f (wall s (calls s)) ?t of
        Inl e \<Rightarrow> (Inl (OSErr (OSError e)), s\<lparr>tree := ?t, calls := Suc (calls s)\<rparr>)
      | Inr (a, t') \<Rightarrow> (Inr a, s\<lparr>tree := t', calls := Suc (calls s)\<rparr>))"
    by (simp add: syscall_def Let_def split: sum.split)
  with t show ?thesis by (rule made)
next
  let ?t = "others s (calls s) (tree s)"
  have t: "shared_tree calm root mine k t0 dirs F (calls s) ?t"
    using assms peers_shared unfolding sharing_def among_peers_def by blast
  case (Some e)
  with assms have "\<not> calm" by (auto simp: sharing_def among_peers_def)
  moreover have "syscall f s = (Inl (OSErr (OSError e)), s\<lparr>tree := ?t, calls := Suc (calls s)\<rparr>)"
    by (simp add: syscall_def Let_def Some)
  ultimately show ?thesis using t by (intro refused)
qed

lemma sharing_step:
  assumes "sharing calm root mine k t0 dirs F s" and "shared_tree calm root mine k t1 dirs' F' (Suc (calls s)) t"
  shows "sharing calm root mine k t1 dirs' F' (s\<lparr>tree := t, calls := Suc (calls s)\<rparr>)"
  using assms by (simp add: sharing_def among_peers_def)

lemma shared_tree_Suc: "shared_tree calm root mine k t0 dirs F n t \<Longrightarrow> shared_tree calm root mine k t0 dirs F (Suc n) t"
  unfolding shared_tree_def by (fastforce simp: less_Suc_eq)

lemma sharing_ticked: "sharing calm root mine k t0 dirs F s \<Longrightarrow> sharing calm root mine k t0 dirs F (ticked s)"
  using shared_tree_Suc by (simp add: sharing_def)

text \<open>
  After a refusal or a cancellation nothing is known but that the tree is in order. The error
  clause of a call is this, or a fact that its own error states.
\<close>

definition upset :: "bool \<Rightarrow> path \<Rightarrow> pystr set \<Rightarrow> nat \<Rightarrow> fs_tree \<Rightarrow> exn \<Rightarrow> os_state \<Rightarrow> bool" where
  "upset calm root mine k t0 e s \<longleftrightarrow> \<not> calm \<and> sharing calm root mine k t0 {} None s"

lemma upsetI: "\<not> calm \<Longrightarrow> sharing calm root mine k t0 dirs F s \<Longrightarrow> upset calm root mine k t0 e s"
  by (simp add: upset_def sharing_def shared_tree_def scratch_is_def)

lemma upset_calm [simp]: "\<not> upset True root mine k t0 e s"
  by (simp add: upset_def)

lemma shared_triple:
  assumes "\<And>n time t a t'. shared_tree calm root mine k t0 dirs F n t \<Longrightarrow> f time t = Inr (a, t') \<Longrightarrow>
      \<exists>t1. shared_tree calm root mine k t1 (D a) (F' a) (Suc n) t' \<and> A a t1"
    and "\<And>n time t e. shared_tree calm root mine k t0 dirs F n t \<Longrightarrow> f time t = Inl e \<Longrightarrow>
      \<exists>t1. shared_tree calm root mine k t1 (D' e) F (Suc n) t \<and> B e t1"
  shows "triple (sharing calm root mine k t0 dirs F) (syscall f)
    (\<lambda>a s. \<exists>t1. A a t1 \<and> sharing calm root mine k t1 (D a) (F' a) s)
    (\<lambda>x s. (\<exists>e t1. x = OSErr (OSError e) \<and> B e t1 \<and> sharing calm root mine k t1 (D' e) F s)
      \<or> \<not> calm \<and> sharing calm root mine k t0 dirs F s)"
  unfolding triple_def
proof (intro allI impI)
  fix s assume s: "sharing calm root mine k t0 dirs F s"
  show "case syscall f s of
       (Inl x, s') \<Rightarrow> (\<exists>e t1. x = OSErr (OSError e) \<and> B e t1 \<and> sharing calm root mine k t1 (D' e) F s')
         \<or> \<not> calm \<and> sharing calm root mine k t0 dirs F s'
     | (Inr a, s') \<Rightarrow> \<exists>t1. A a t1 \<and> sharing calm root mine k t1 (D a) (F' a) s'"
  proof (rule shared_syscall [OF s, of f])
    fix t e
    assume "\<not> calm" and "shared_tree calm root mine k t0 dirs F (calls s) t"
      and "syscall f s = (Inl (OSErr (OSError e)), s\<lparr>tree := t, calls := Suc (calls s)\<rparr>)"
    with sharing_step [OF s shared_tree_Suc] show ?thesis by simp
  next
    fix t
    assume t: "shared_tree calm root mine k t0 dirs F (calls s) t"
      and run: "syscall f s = (case f (wall s (calls s)) t of
          Inl e \<Rightarrow> (Inl (OSErr (OSError e)), s\<lparr>tree := t, calls := Suc (calls s)\<rparr>)
        | Inr (a, t') \<Rightarrow> (Inr a, s\<lparr>tree := t', calls := Suc (calls s)\<rparr>))"
    show ?thesis
    proof (cases "f (wall s (calls s)) t")
      case (Inl e)
      from assms(2) [OF t Inl] sharing_step [OF s] show ?thesis by (fastforce simp: run Inl)
    next
      case (Inr q)
      obtain a t' where q: "q = (a, t')" by (cases q)
      from assms(1) [OF t Inr [unfolded q]] sharing_step [OF s] show ?thesis by (auto simp: run Inr q)
    qed
  qed
qed

lemma shared_same:
  assumes "\<And>n time t a t'. shared_tree calm root mine k t0 dirs F n t \<Longrightarrow> f time t = Inr (a, t') \<Longrightarrow>
      A a \<and> shared_tree calm root mine k t0 (D a) (F' a) (Suc n) t'"
    and "\<And>n time t e. shared_tree calm root mine k t0 dirs F n t \<Longrightarrow> f time t = Inl e \<Longrightarrow>
      B e \<and> shared_tree calm root mine k t0 (D' e) F n t"
  shows "triple (sharing calm root mine k t0 dirs F) (syscall f)
    (\<lambda>a s. A a \<and> sharing calm root mine k t0 (D a) (F' a) s)
    (\<lambda>x s. (\<exists>e. x = OSErr (OSError e) \<and> B e \<and> sharing calm root mine k t0 (D' e) F s)
      \<or> \<not> calm \<and> sharing calm root mine k t0 dirs F s)"
proof (rule triple_weaken)
  show "triple (sharing calm root mine k t0 dirs F) (syscall f)
    (\<lambda>a s. \<exists>t1. (A a \<and> t1 = t0) \<and> sharing calm root mine k t1 (D a) (F' a) s)
    (\<lambda>x s. (\<exists>e t1. x = OSErr (OSError e) \<and> (B e \<and> t1 = t0) \<and> sharing calm root mine k t1 (D' e) F s)
      \<or> \<not> calm \<and> sharing calm root mine k t0 dirs F s)"
    by (rule shared_triple) (use assms shared_tree_Suc in blast)+
qed auto

text \<open>A call in a thread, whose wait may be cancelled.\<close>

lemma shared_thread:
  assumes "triple P f Q E" and "\<And>s. P s \<Longrightarrow> calm \<Longrightarrow> uncancelled s"
    and "\<And>s. P s \<Longrightarrow> \<not> calm \<Longrightarrow> E CancelledError (ticked s)"
    and "\<And>a s. Q a s \<Longrightarrow> \<not> calm \<Longrightarrow> E CancelledError s" and "\<And>e s. E e s \<Longrightarrow> \<not> calm \<Longrightarrow> E CancelledError s"
  shows "triple P (to_thread f) Q E"
proof (cases calm)
  case True
  with tripleD [OF assms(1)] assms(2) show ?thesis by (simp add: triple_def to_thread_uncancelled)
next
  case False
  from assms(1) assms(3-5) [OF _ False] show ?thesis by (rule to_thread_triple)
qed

lemma sharing_calm: "sharing calm root mine k t0 dirs F s \<Longrightarrow> calm \<Longrightarrow> uncancelled s"
  by (simp add: sharing_def among_peers_def)

section \<open>The calls of an operation\<close>

lemma sharing_fewer: "sharing calm root mine k t0 dirs F s \<Longrightarrow> dirs' \<subseteq> dirs \<Longrightarrow> sharing calm root mine k t0 dirs' F s"
  unfolding sharing_def shared_tree_def by blast

lemma shared_treeD:
  assumes "shared_tree calm root mine k t0 dirs F n t"
  shows "tree_ok root t" and "evolves root t0 t" and "q \<in> dirs \<Longrightarrow> is_dir_at t q"
    and "scratch_is calm root mine k F t" and "k \<le> n" and "t p = Some (Regular i c m) \<Longrightarrow> i < n"
  using assms unfolding shared_tree_def by blast+

lemma shared_tree_seen: "shared_tree calm root mine k t0 dirs F n t \<Longrightarrow> is_dir_at t q \<Longrightarrow> shared_tree calm root mine k t0 (insert q dirs) F n t"
  by (simp add: shared_tree_def)

text \<open>A step of the task itself.\<close>

lemma own_step:
  assumes "shared_tree calm root mine k t0 dirs F n t" and "adapter_step root UNIV {..n} t t'" and "scratch_is calm root mine k F' t'"
  shows "shared_tree calm root mine k t0 dirs F' (Suc n) t'"
proof -
  note d = shared_treeD [OF assms(1)]
  have "i < Suc n" if "t' p = Some (Regular i c m)" for p i c m
    using adapter_step_inodes [OF assms(2) that] d(6) by (force simp: less_Suc_eq)
  moreover have "evolves root t0 t'"
    using d(2) adapter_step_mono [OF assms(2), of UNIV UNIV] by (simp add: rtranclp.rtrancl_into_rtrancl)
  ultimately show ?thesis
    using d(5) adapter_step_ok [OF assms(2) d(1)] adapter_step_dir [OF assms(2) d(1)] d(3) assms(3)
    unfolding shared_tree_def by (meson le_SucI)
qed

lemma locate_adapter_dir:
  assumes "tree_ok root t" and "adapter_dir root q"
  shows "locate t q = (if is_dir_at t (butlast q) then Inr q else Inl ENOENT)"
proof (cases "q = []")
  case True
  then show ?thesis by (simp add: is_dir_at_def)
next
  case False
  with locate_plain [OF tree_okD(1) [OF assms(1)] dirs_plain_butlast [OF adapter_dir_plain [OF assms]]]
  show ?thesis .
qed

lemma node_at_adapter_dir:
  "tree_ok root t \<Longrightarrow> adapter_dir root q \<Longrightarrow> node_at t q = None \<and> q \<noteq> [] \<and> t q = None \<or> node_at t q = Some Directory \<and> is_dir_at t q"
  using dirs_plain_here [OF adapter_dir_plain] by (auto simp: node_at_def is_dir_at_def)

lemma shared_mkdir:
  assumes "adapter_dir root q" and "calm \<Longrightarrow> butlast q \<in> insert [] dirs"
  shows "triple (sharing calm root mine k t0 dirs F) (os_mkdir q) (\<lambda>_. sharing calm root mine k t0 (insert q dirs) F)
    (\<lambda>_. sharing calm root mine k t0 (if calm then insert q dirs else dirs) F)"
proof (rule triple_weaken)
  show "triple (sharing calm root mine k t0 dirs F) (os_mkdir q)
    (\<lambda>_ s. True \<and> sharing calm root mine k t0 (insert q dirs) F s)
    (\<lambda>x s. (\<exists>e. x = OSErr (OSError e) \<and> True \<and> sharing calm root mine k t0 (if calm then insert q dirs else dirs) F s)
      \<or> \<not> calm \<and> sharing calm root mine k t0 dirs F s)"
    unfolding os_mkdir_def
  proof (rule shared_same)
    fix n and time :: nat and t a t'
    assume t: "shared_tree calm root mine k t0 dirs F n t"
      and run: "(case locate t q of Inl e \<Rightarrow> Inl e | Inr q \<Rightarrow> (case node_at t q of
         None \<Rightarrow> Inr ((), t(q \<mapsto> Directory)) | Some _ \<Rightarrow> Inl EEXIST)) = Inr (a, t')"
    note d = shared_treeD [OF t]
    from run node_at_adapter_dir [OF d(1) assms(1)] have "is_dir_at t (butlast q)" "q \<noteq> []" "t q = None"
      and t': "t' = t(q \<mapsto> Directory)"
      by (auto simp: locate_adapter_dir [OF d(1) assms(1)] split: if_splits)
    have q: "q \<noteq> tmp_dir root @ [y]" for y
      using assms(1) tmp_child_not_prefix unfolding adapter_dir_def by blast
    have "scratch_is calm root mine k F t'"
      by (rule scratch_is_other [OF d(4)]) (use q in \<open>auto simp: t' split: if_splits\<close>)
    moreover have "adapter_step root UNIV {..n} t t'"
      unfolding t' by (rule adapter_step.Mkdir) fact+
    ultimately have "shared_tree calm root mine k t0 dirs F (Suc n) t'" by (intro own_step [OF t])
    moreover have "is_dir_at t' q" by (simp add: t' is_dir_at_def)
    ultimately show "True \<and> shared_tree calm root mine k t0 (insert q dirs) F (Suc n) t'"
      by (simp add: shared_tree_seen)
  next
    fix n and time :: nat and t e
    assume t: "shared_tree calm root mine k t0 dirs F n t"
      and run: "(case locate t q of Inl e \<Rightarrow> Inl e | Inr q \<Rightarrow> (case node_at t q of
         None \<Rightarrow> Inr ((), t(q \<mapsto> Directory)) | Some _ \<Rightarrow> Inl EEXIST)) = Inl e"
    note d = shared_treeD [OF t]
    have "is_dir_at t q" if calm
    proof -
      have "is_dir_at t (butlast q)" using assms(2) [OF that] d(3) by (auto simp: is_dir_at_def)
      with run node_at_adapter_dir [OF d(1) assms(1)] show ?thesis
        by (auto simp: locate_adapter_dir [OF d(1) assms(1)])
    qed
    with t show "True \<and> shared_tree calm root mine k t0 (if calm then insert q dirs else dirs) F n t"
      by (cases calm) (simp_all add: shared_tree_seen)
  qed
qed auto

lemma shared_stat_dir:
  assumes "adapter_dir root q"
  shows "triple (sharing calm root mine k t0 dirs F) (stat_follow q)
      (\<lambda>st s. st_mode st = Dir \<and> sharing calm root mine k t0 (insert q dirs) F s)
      (\<lambda>_ s. (calm \<longrightarrow> q \<notin> dirs) \<and> sharing calm root mine k t0 dirs F s)"
proof (rule triple_weaken)
  have stat: "(case locate_follow max_symlinks t q of Inl e \<Rightarrow> Inl e
       | Inr q \<Rightarrow> (case node_at t q of None \<Rightarrow> Inl ENOENT | Some n \<Rightarrow> Inr (stat_of n, t))) =
     (if is_dir_at t q then Inr (stat_of Directory, t) else Inl ENOENT)" if ok: "tree_ok root t" for t
  proof (cases "is_dir_at t q")
    case True
    with tree_okD(1) [OF ok] have "q = [] \<or> is_dir_at t (butlast q)" by (auto simp: is_dir_at_def closed_def)
    with True node_at_adapter_dir [OF ok assms] show ?thesis
      by (auto simp: locate_follow_plain [OF tree_okD(1) [OF ok] adapter_dir_plain [OF ok assms]] is_dir_at_def)
  next
    case False
    with node_at_adapter_dir [OF ok assms] show ?thesis
      by (auto simp: locate_follow_plain [OF tree_okD(1) [OF ok] adapter_dir_plain [OF ok assms]])
  qed
  show "triple (sharing calm root mine k t0 dirs F) (stat_follow q)
      (\<lambda>st s. st_mode st = Dir \<and> sharing calm root mine k t0 (insert q dirs) F s)
      (\<lambda>x s. (\<exists>e. x = OSErr (OSError e) \<and> q \<notin> dirs \<and> sharing calm root mine k t0 dirs F s)
        \<or> \<not> calm \<and> sharing calm root mine k t0 dirs F s)"
    unfolding stat_follow_def
  proof (rule shared_same)
    fix n and time :: nat and t
    assume t: "shared_tree calm root mine k t0 dirs F n t"
    show "st_mode a = Dir \<and> shared_tree calm root mine k t0 (insert q dirs) F (Suc n) t'"
      if "(case locate_follow max_symlinks t q of Inl e \<Rightarrow> Inl e
       | Inr q \<Rightarrow> (case node_at t q of None \<Rightarrow> Inl ENOENT | Some n \<Rightarrow> Inr (stat_of n, t))) = Inr (a, t')" for a t'
      using that shared_tree_Suc [OF t] unfolding stat [OF shared_treeD(1) [OF t]]
      by (auto split: if_splits intro: shared_tree_seen)
    show "q \<notin> dirs \<and> shared_tree calm root mine k t0 dirs F n t"
      if "(case locate_follow max_symlinks t q of Inl e \<Rightarrow> Inl e
       | Inr q \<Rightarrow> (case node_at t q of None \<Rightarrow> Inl ENOENT | Some n \<Rightarrow> Inr (stat_of n, t))) = Inl e" for e
      using that t shared_treeD(3) [OF t] unfolding stat [OF shared_treeD(1) [OF t]]
      by (auto split: if_splits)
  qed
qed auto

lemma shared_path_exists:
  assumes "adapter_dir root q"
  shows "triple (sharing calm root mine k t0 dirs F) (path_exists q)
      (\<lambda>b s. sharing calm root mine k t0 (if b then insert q dirs else dirs) F s) E"
  unfolding path_exists_def
proof (rule triple_trying)
  show "triple (sharing calm root mine k t0 dirs F) (and_then (stat_follow q) (\<lambda>_. returning True))
      (\<lambda>b s. sharing calm root mine k t0 (if b then insert q dirs else dirs) F s)
      (\<lambda>_ s. (calm \<longrightarrow> q \<notin> dirs) \<and> sharing calm root mine k t0 dirs F s)"
    by (rule triple_and_then [OF shared_stat_dir [OF assms]]) (simp add: triple_def)
qed (simp add: triple_def)

lemma shared_path_is_dir:
  assumes "adapter_dir root q"
  shows "triple (sharing calm root mine k t0 dirs F) (path_is_dir q)
      (\<lambda>b s. (calm \<longrightarrow> q \<in> dirs \<longrightarrow> b) \<and> sharing calm root mine k t0 (if b then insert q dirs else dirs) F s) E"
  unfolding path_is_dir_def
proof (rule triple_trying)
  show "triple (sharing calm root mine k t0 dirs F) (and_then (stat_follow q) (\<lambda>st. returning (st_mode st = Dir)))
      (\<lambda>b s. (calm \<longrightarrow> q \<in> dirs \<longrightarrow> b) \<and> sharing calm root mine k t0 (if b then insert q dirs else dirs) F s)
      (\<lambda>_ s. (calm \<longrightarrow> q \<notin> dirs) \<and> sharing calm root mine k t0 dirs F s)"
    by (rule triple_and_then [OF shared_stat_dir [OF assms]]) (simp add: triple_def)
qed (simp add: triple_returning)

lemma shared_mkdir_or_there:
  assumes "adapter_dir root q" and "calm \<Longrightarrow> butlast q \<in> insert [] dirs"
  shows "triple (sharing calm root mine k t0 dirs F) (mkdir_or_there q)
    (\<lambda>_. sharing calm root mine k t0 (insert q dirs) F) (\<lambda>_ s. \<not> calm \<and> sharing calm root mine k t0 dirs F s)"
  unfolding mkdir_or_there_def
proof (rule triple_trying [OF shared_mkdir [OF assms]])
  fix e :: exn
  show "triple (sharing calm root mine k t0 (if calm then insert q dirs else dirs) F)
     (and_then (path_is_dir q) (\<lambda>d. if d then returning () else raising e))
     (\<lambda>_. sharing calm root mine k t0 (insert q dirs) F) (\<lambda>_ s. \<not> calm \<and> sharing calm root mine k t0 dirs F s)"
    by (rule triple_and_then [OF shared_path_is_dir [OF assms(1)]]) (cases calm; simp add: triple_def)
qed

lemma shared_makedirs:
  assumes "adapter_dir root q"
  shows "triple (sharing calm root mine k t0 dirs F) (makedirs q)
    (\<lambda>_. sharing calm root mine k t0 (insert q dirs) F) (\<lambda>_ s. \<not> calm \<and> sharing calm root mine k t0 dirs F s)"
proof -
  let ?E = "\<lambda>_ s. \<not> calm \<and> sharing calm root mine k t0 dirs F s"
  have "adapter_dir root (rev rs) \<Longrightarrow> triple (sharing calm root mine k t0 dirs F) (makedirs_rev rs)
      (\<lambda>_. sharing calm root mine k t0 (insert (rev rs) dirs) F) ?E" for rs
  proof (induction rs)
    case Nil
    then show ?case
      using shared_mkdir_or_there [of root "[]"] by (simp add: mkdir_or_there_def)
  next
    case (Cons c rs)
    let ?dirs = "if calm then insert (rev rs) dirs else dirs"
    have parent: "adapter_dir root (rev rs)"
      using Cons.prems unfolding adapter_dir_def by (auto dest: append_prefixD)
    have "triple (sharing calm root mine k t0 dirs F)
        (and_then (path_exists (rev rs)) (\<lambda>there. if there then returning ()
          else trying (makedirs_rev rs) (\<lambda>e. if file_exists_error e then returning () else raising e)))
        (\<lambda>_. sharing calm root mine k t0 ?dirs F) ?E"
    proof (rule triple_and_then [OF shared_path_exists [OF parent]])
      fix there :: bool
      have "triple (sharing calm root mine k t0 dirs F)
          (trying (makedirs_rev rs) (\<lambda>e. if file_exists_error e then returning () else raising e))
          (\<lambda>_. sharing calm root mine k t0 ?dirs F) ?E"
        by (rule triple_trying [OF triple_weaken [OF Cons.IH [OF parent], where E' = ?E]])
          (cases calm; auto simp: triple_def elim: sharing_fewer)+
      then show "triple (sharing calm root mine k t0 (if there then insert (rev rs) dirs else dirs) F)
          (if there then returning ()
            else trying (makedirs_rev rs) (\<lambda>e. if file_exists_error e then returning () else raising e))
          (\<lambda>_. sharing calm root mine k t0 ?dirs F) ?E"
        by (cases there) (auto simp: triple_returning intro!: triple_returning elim: sharing_fewer)
    qed
    moreover have "triple (sharing calm root mine k t0 ?dirs F) (mkdir_or_there (rev (c # rs)))
        (\<lambda>_. sharing calm root mine k t0 (insert (rev (c # rs)) dirs) F) ?E"
    proof (rule triple_weaken)
      show "triple (sharing calm root mine k t0 ?dirs F) (mkdir_or_there (rev (c # rs)))
          (\<lambda>_. sharing calm root mine k t0 (insert (rev (c # rs)) ?dirs) F)
          (\<lambda>_ s. \<not> calm \<and> sharing calm root mine k t0 ?dirs F s)"
        by (rule shared_mkdir_or_there [OF Cons.prems]) simp
      show "sharing calm root mine k t0 (insert (rev (c # rs)) dirs) F s"
        if "sharing calm root mine k t0 (insert (rev (c # rs)) ?dirs) F s" for s
        by (rule sharing_fewer [OF that]) auto
    qed (cases calm; simp)+
    ultimately show ?case
      unfolding makedirs_rev.simps mkdir_or_there_def [symmetric] by (rule triple_and_then)
  qed
  from this [of "rev q"] assms show ?thesis
    unfolding makedirs_def by simp
qed

text \<open>The scratch file, from its creation to its end.\<close>

lemma locate_tmp_child:
  assumes "tree_ok root t" and "is_dir_at t (tmp_dir root)"
  shows "locate t (tmp_dir root @ [x]) = Inr (tmp_dir root @ [x])"
  using locate_plain [OF tree_okD(1) [OF assms(1)], of "tmp_dir root @ [x]"] tree_okD(2) [OF assms(1)] assms(2) by simp

lemma scratch_isD:
  assumes "scratch_is calm root mine k (Some (x, ino, data)) t"
  shows "x \<in> mine" and "k \<le> ino" and "sole_inode t (tmp_dir root @ [x]) ino"
    and "\<exists>m. t (tmp_dir root @ [x]) = Some (Regular ino data m)"
    and "calm \<Longrightarrow> y \<in> mine \<Longrightarrow> y \<noteq> x \<Longrightarrow> t (tmp_dir root @ [y]) = None"
  using assms by (simp_all add: scratch_is_def)

lemma shared_create:
  assumes "x \<in> mine" and "tmp_dir root \<in> dirs"
  shows "triple (sharing calm root mine k t0 dirs None) (os_create_excl (tmp_dir root @ [x]))
    (\<lambda>ino. sharing calm root mine k t0 dirs (Some (x, ino, []))) (\<lambda>_ s. \<not> calm \<and> sharing calm root mine k t0 dirs None s)"
  unfolding triple_def
proof (intro allI impI)
  let ?file = "tmp_dir root @ [x]"
  fix s assume s: "sharing calm root mine k t0 dirs None s"
  let ?f = "\<lambda>time t. case locate t ?file of Inl e \<Rightarrow> Inl e
          | Inr q \<Rightarrow> (case node_at t q of Some _ \<Rightarrow> Inl EEXIST
            | None \<Rightarrow> Inr (calls s, t(q \<mapsto> Regular (calls s) [] time)))"
  note step = sharing_step [OF s]
  show "case os_create_excl ?file s of (Inl e, s') \<Rightarrow> \<not> calm \<and> sharing calm root mine k t0 dirs None s'
      | (Inr ino, s') \<Rightarrow> sharing calm root mine k t0 dirs (Some (x, ino, [])) s'"
  proof (rule shared_syscall [OF s, of ?f])
    fix t e
    assume "\<not> calm" and "shared_tree calm root mine k t0 dirs None (calls s) t"
      and "syscall ?f s = (Inl (OSErr (OSError e)), s\<lparr>tree := t, calls := Suc (calls s)\<rparr>)"
    with step [OF shared_tree_Suc] show ?thesis by (simp add: os_create_excl_def and_then_def)
  next
    fix t
    assume t: "shared_tree calm root mine k t0 dirs None (calls s) t"
      and run: "syscall ?f s = (case ?f (wall s (calls s)) t of
          Inl e \<Rightarrow> (Inl (OSErr (OSError e)), s\<lparr>tree := t, calls := Suc (calls s)\<rparr>)
        | Inr (a, t') \<Rightarrow> (Inr a, s\<lparr>tree := t', calls := Suc (calls s)\<rparr>))"
    note d = shared_treeD [OF t]
    have dir: "is_dir_at t (tmp_dir root)" using d(3) assms(2) .
    show ?thesis
    proof (cases "t ?file")
      case (Some n)
      with d(4) assms(1) have "\<not> calm" by (auto simp: scratch_is_def)
      moreover have "syscall ?f s = (Inl (OSErr (OSError EEXIST)), s\<lparr>tree := t, calls := Suc (calls s)\<rparr>)"
        using Some by (simp add: run locate_tmp_child [OF d(1) dir] node_at_def)
      ultimately show ?thesis using step [OF shared_tree_Suc [OF t]] by (simp add: os_create_excl_def and_then_def)
    next
      case None
      let ?t = "t(?file \<mapsto> Regular (calls s) [] (wall s (calls s)))"
      have "adapter_step root UNIV {..calls s} t ?t"
        by (rule adapter_step.Create) (use None assms(1) dir in \<open>auto simp: work_path_def\<close>)
      moreover have "scratch_is calm root mine k (Some (x, calls s, [])) ?t"
        using assms(1) d(4,5) sole_inode_new [OF d(6)] by (simp add: scratch_is_def)
      ultimately have "sharing calm root mine k t0 dirs (Some (x, calls s, [])) (s\<lparr>tree := ?t, calls := Suc (calls s)\<rparr>)"
        by (intro step own_step [OF t])
      moreover have "syscall ?f s = (Inr (calls s), s\<lparr>tree := ?t, calls := Suc (calls s)\<rparr>)"
        using None by (simp add: run locate_tmp_child [OF d(1) dir] node_at_def)
      ultimately show ?thesis by (simp add: os_create_excl_def and_then_def)
    qed
  qed
qed

lemma shared_mkstemp:
  assumes "tmp_dir root \<in> dirs"
  shows "triple (sharing calm root mine k t0 dirs None) (mkstemp (tmp_dir root) (lit ''.part''))
    (\<lambda>r s. \<exists>x. snd r = tmp_dir root @ [x] \<and> sharing calm root mine k t0 dirs (Some (x, fst r, [])) s)
    (\<lambda>_ s. \<not> calm \<and> sharing calm root mine k t0 dirs None s)"
  (is "triple ?P _ ?Q ?E")
proof -
  have "triple ?P (mkstemp_try n (tmp_dir root) (lit ''.part'')) ?Q ?E" if "n \<noteq> 0 \<or> \<not> calm" for n
    using that
  proof (induction n)
    case 0
    then show ?case by (simp add: triple_def)
  next
    case (Suc n)
    show ?case
      unfolding mkstemp_try.simps Let_def
    proof (rule triple_and_then)
      show "triple ?P take_temp_name (\<lambda>name s. temp_file name (lit ''.part'') \<in> mine \<and> ?P s) ?E"
        by (simp add: triple_def take_temp_name_def) (simp add: sharing_def among_peers_def)
      fix name
      let ?x = "lit ''tmp'' @ name @ lit ''.part''"
      have made: "triple ?P (and_then (os_create_excl (tmp_dir root @ [?x])) (\<lambda>ino. returning (ino, tmp_dir root @ [?x]))) ?Q ?E"
        if "?x \<in> mine"
        by (rule triple_and_then [OF shared_create [OF that assms]]) (simp add: triple_returning)
      have "triple ?P (trying (and_then (os_create_excl (tmp_dir root @ [?x])) (\<lambda>ino. returning (ino, tmp_dir root @ [?x])))
          (\<lambda>e. if file_exists_error e then mkstemp_try n (tmp_dir root) (lit ''.part'') else raising e)) ?Q ?E"
        if "?x \<in> mine"
      proof (rule triple_trying [OF made [OF that]], rule triple_fact)
        fix e assume "\<not> calm"
        with Suc.IH show "triple ?P (if file_exists_error e then mkstemp_try n (tmp_dir root) (lit ''.part'') else raising e) ?Q ?E"
          by (simp add: triple_raising)
      qed
      then show "triple (\<lambda>s. temp_file name (lit ''.part'') \<in> mine \<and> ?P s)
          (trying (and_then (os_create_excl (tmp_dir root @ [?x])) (\<lambda>ino. returning (ino, tmp_dir root @ [?x])))
            (\<lambda>e. if file_exists_error e then mkstemp_try n (tmp_dir root) (lit ''.part'') else raising e)) ?Q ?E"
        unfolding temp_file_def by (rule triple_fact)
    qed
  qed
  then show ?thesis by (simp add: mkstemp_def tmp_max_def)
qed

lemma shared_touch:
  "triple (sharing calm root mine k t0 dirs F) os_touch (\<lambda>_. sharing calm root mine k t0 dirs F)
     (\<lambda>_ s. \<not> calm \<and> sharing calm root mine k t0 dirs F s)"
proof (rule triple_weaken)
  show "triple (sharing calm root mine k t0 dirs F) os_touch (\<lambda>_ s. True \<and> sharing calm root mine k t0 dirs F s)
      (\<lambda>x s. (\<exists>e. x = OSErr (OSError e) \<and> False \<and> sharing calm root mine k t0 dirs F s)
        \<or> \<not> calm \<and> sharing calm root mine k t0 dirs F s)"
    unfolding os_touch_def by (rule shared_same) (auto dest: shared_tree_Suc)
qed auto

lemma shared_close:
  "triple (sharing calm root mine k t0 dirs F) os_close (\<lambda>_. sharing calm root mine k t0 dirs F)
     (\<lambda>_ s. \<not> calm \<and> sharing calm root mine k t0 dirs F s)"
proof -
  have "sharing calm root mine k t0 dirs F (s\<lparr>open_fds := open_fds s - 1\<rparr>)" if "sharing calm root mine k t0 dirs F s" for s
    using that by simp
  from tripleD [OF shared_touch this] show ?thesis by (simp add: triple_def os_close_def)
qed

lemma shared_write:
  "triple (sharing calm root mine k t0 dirs (Some (x, ino, data))) (os_write ino bs)
     (\<lambda>_. sharing calm root mine k t0 dirs (Some (x, ino, data @ bs)))
     (\<lambda>_ s. \<not> calm \<and> sharing calm root mine k t0 dirs (Some (x, ino, data)) s)"
proof (rule triple_weaken)
  let ?file = "tmp_dir root @ [x]"
  show "triple (sharing calm root mine k t0 dirs (Some (x, ino, data))) (os_write ino bs)
     (\<lambda>_ s. True \<and> sharing calm root mine k t0 dirs (Some (x, ino, data @ bs)) s)
     (\<lambda>y s. (\<exists>e. y = OSErr (OSError e) \<and> False \<and> sharing calm root mine k t0 dirs (Some (x, ino, data)) s)
       \<or> \<not> calm \<and> sharing calm root mine k t0 dirs (Some (x, ino, data)) s)"
    unfolding os_write_def
  proof (rule shared_same)
    fix n time t a t'
    assume t: "shared_tree calm root mine k t0 dirs (Some (x, ino, data)) n t"
      and step: "Inr ((), write_inode ino bs time t) = Inr (a, t')"
    note d = shared_treeD [OF t]
    note f = scratch_isD [OF d(4)]
    from f(4) obtain m where here: "t ?file = Some (Regular ino data m)" by blast
    from step have t': "t' = t(?file \<mapsto> Regular ino (data @ bs) time)"
      by (simp add: write_inode_sole [OF f(3) here])
    have "adapter_step root UNIV {..n} t t'"
      unfolding t' by (rule adapter_step.Write) (simp add: work_path_def, rule here)
    moreover have "scratch_is calm root mine k (Some (x, ino, data @ bs)) t'"
      using f sole_inode_upd [OF f(3)] by (simp add: t' scratch_is_def)
    ultimately show "True \<and> shared_tree calm root mine k t0 dirs (Some (x, ino, data @ bs)) (Suc n) t'"
      by (simp add: own_step [OF t])
  qed auto
qed auto

lemma shared_unlink_scratch:
  "triple (sharing calm root mine k t0 dirs (Some (x, ino, data))) (os_unlink (tmp_dir root @ [x]))
     (\<lambda>_. sharing calm root mine k t0 dirs None)
     (\<lambda>_ s. \<not> calm \<and> sharing calm root mine k t0 dirs (Some (x, ino, data)) s)"
proof (rule triple_weaken)
  let ?file = "tmp_dir root @ [x]"
  have node: "\<exists>m. t ?file = Some (Regular ino data m) \<and> locate t ?file = Inr ?file
       \<and> shared_tree calm root mine k t0 dirs None (Suc n) (t(?file := None))"
    if t: "shared_tree calm root mine k t0 dirs (Some (x, ino, data)) n t" for n t
  proof -
    note d = shared_treeD [OF t]
    note f = scratch_isD [OF d(4)]
    from f(4) obtain m where here: "t ?file = Some (Regular ino data m)" by blast
    have "adapter_step root UNIV {..n} t (t(?file := None))"
      by (rule adapter_step.Discard) (simp add: work_path_def, rule here)
    moreover have "scratch_is calm root mine k None (t(?file := None))"
      using f(5) by (simp add: scratch_is_def)
    ultimately show ?thesis
      using here closedD [OF tree_okD(1) [OF d(1)] here]
      by (simp add: own_step [OF t] locate_tmp_child [OF d(1)])
  qed
  show "triple (sharing calm root mine k t0 dirs (Some (x, ino, data))) (os_unlink ?file)
     (\<lambda>_ s. True \<and> sharing calm root mine k t0 dirs None s)
     (\<lambda>y s. (\<exists>e. y = OSErr (OSError e) \<and> False \<and> sharing calm root mine k t0 dirs (Some (x, ino, data)) s)
       \<or> \<not> calm \<and> sharing calm root mine k t0 dirs (Some (x, ino, data)) s)"
    unfolding os_unlink_def
    by (rule shared_same) (auto dest!: node simp: node_at_def)
qed auto

end
