(* ===== verification/Filesystem_Concurrent.thy ===== *)
theory Filesystem_Concurrent
  imports Adapter_Steps
begin

text \<open>
  The operations of the adapter among others of its kind: what a store, a read and a delete promise
  when any number of other tasks and processes work on the same tree. The steps of the others and the
  specifications of the single calls are those of \<open>Adapter_Steps\<close>. In calm (no call refused, no wait
  cancelled) an operation fails only for a reason of its own; otherwise it may fail at any call, but
  an answer that it gives is still true.
\<close>

section \<open>What the task learns\<close>

text \<open>Since \<open>t0\<close> there was a moment at which \<open>A\<close> held of what is stored.\<close>

definition moment ::
  "bool \<Rightarrow> path \<Rightarrow> pystr set \<Rightarrow> nat \<Rightarrow> fs_tree \<Rightarrow> path set \<Rightarrow> (pystr \<times> nat \<times> bytes) option
     \<Rightarrow> ((pystr \<Rightarrow> bytes option) \<Rightarrow> bool) \<Rightarrow> os_state \<Rightarrow> bool" where
  "moment calm root mine k t0 dirs F A s \<longleftrightarrow>
     (\<exists>t1. (evolves root t0 t1 \<and> A (tree_stored root t1)) \<and> sharing calm root mine k t1 dirs F s)"

lemma momentE:
  assumes "moment calm root mine k t0 dirs F A s"
  obtains t1 where "evolves root t0 t1" and "A (tree_stored root t1)" and "sharing calm root mine k t1 dirs F s"
  using assms unfolding moment_def by blast

lemma moment_impl: "moment calm root mine k t0 dirs F A s \<Longrightarrow> (\<And>S. A S \<Longrightarrow> B S) \<Longrightarrow> moment calm root mine k t0 dirs F B s"
  unfolding moment_def by blast

lemma moment_keep:
  assumes "\<And>t1. triple (sharing calm root mine k t1 dirs F) m (\<lambda>_. sharing calm root mine k t1 dirs' F')
      (\<lambda>_ s. \<not> calm \<and> sharing calm root mine k t1 dirs F s)"
  shows "triple (moment calm root mine k t0 dirs F A) m (\<lambda>_. moment calm root mine k t0 dirs' F' A)
      (\<lambda>_ s. \<not> calm \<and> moment calm root mine k t0 dirs F A s)"
  unfolding moment_def
  by (rule triple_ex, rule triple_fact, rule triple_weaken [OF assms]) blast+

lemma moment_forget: "moment calm root mine k t0 dirs F A s \<Longrightarrow> sharing calm root mine k t0 dirs F s"
  unfolding moment_def sharing_def shared_tree_def by (auto intro: rtranclp_trans)

lemma moment_fewer: "moment calm root mine k t0 dirs F A s \<Longrightarrow> moment calm root mine k t0 {} F A s"
  unfolding moment_def by (blast intro: sharing_fewer)

lemma moment_fact: "moment calm root mine k t0 dirs F A s \<Longrightarrow> (\<And>S. A S \<Longrightarrow> P) \<Longrightarrow> P"
  unfolding moment_def by blast

lemma moment_any: "sharing calm root mine k t0 dirs F s \<Longrightarrow> (\<And>S. A S) \<Longrightarrow> moment calm root mine k t0 dirs F A s"
  unfolding moment_def by blast

text \<open>A call in a thread that, refused or cancelled, ends in what is known in any case.\<close>

lemma thread_step:
  assumes "triple (sharing calm root mine k t0 dirs F) f Q (\<lambda>_ s. \<not> calm \<and> sharing calm root mine k t0 dirs F s)"
    and "\<And>e s. \<not> calm \<Longrightarrow> sharing calm root mine k t0 dirs F s \<Longrightarrow> E e s"
    and "\<And>a e s. \<not> calm \<Longrightarrow> Q a s \<Longrightarrow> E e s"
  shows "triple (sharing calm root mine k t0 dirs F) (to_thread f) Q E"
proof -
  let ?E = "\<lambda>_ s. \<not> calm \<and> (sharing calm root mine k t0 dirs F s \<or> (\<exists>a. Q a s))"
  have "triple (sharing calm root mine k t0 dirs F) (to_thread f) Q ?E"
  proof (rule shared_thread [where calm = calm])
    show "triple (sharing calm root mine k t0 dirs F) f Q ?E"
      using assms(1) by (rule triple_weaken) blast+
  qed (use sharing_calm sharing_ticked in blast)+
  then show ?thesis
    by (rule triple_weaken) (use assms(2,3) in blast)+
qed

lemma moment_now:
  assumes "shared_tree calm root mine k t0 dirs F n t"
  shows "evolves root t0 t" and "shared_tree calm root mine k t dirs F n t"
  using assms by (simp_all add: shared_tree_def)

lemma moment_triple:
  assumes "\<And>n time t a t'. shared_tree calm root mine k t0 dirs F n t \<Longrightarrow> f time t = Inr (a, t') \<Longrightarrow>
      t' = t \<and> A a (tree_stored root t)"
    and "\<And>n time t e. shared_tree calm root mine k t0 dirs F n t \<Longrightarrow> f time t = Inl e \<Longrightarrow> e = ENOENT \<and> B (tree_stored root t)"
  shows "triple (sharing calm root mine k t0 dirs F) (syscall f)
    (\<lambda>a. moment calm root mine k t0 dirs F (A a))
    (\<lambda>x s. x = OSErr (OSError ENOENT) \<and> moment calm root mine k t0 dirs F B s
      \<or> \<not> calm \<and> sharing calm root mine k t0 dirs F s)"
proof (rule triple_weaken)
  show "triple (sharing calm root mine k t0 dirs F) (syscall f)
    (\<lambda>a s. \<exists>t1. (evolves root t0 t1 \<and> A a (tree_stored root t1)) \<and> sharing calm root mine k t1 dirs F s)
    (\<lambda>x s. (\<exists>e t1. x = OSErr (OSError e) \<and> (evolves root t0 t1 \<and> e = ENOENT \<and> B (tree_stored root t1))
       \<and> sharing calm root mine k t1 dirs F s) \<or> \<not> calm \<and> sharing calm root mine k t0 dirs F s)"
  proof (rule shared_triple)
    fix n time t a t'
    assume t: "shared_tree calm root mine k t0 dirs F n t" and "f time t = Inr (a, t')"
    from assms(1) [OF this] moment_now [OF t] show "\<exists>t1. shared_tree calm root mine k t1 dirs F (Suc n) t'
        \<and> evolves root t0 t1 \<and> A a (tree_stored root t1)"
      by (blast intro: shared_tree_Suc)
  next
    fix n time t e
    assume t: "shared_tree calm root mine k t0 dirs F n t" and "f time t = Inl e"
    from assms(2) [OF this] moment_now [OF t] show "\<exists>t1. shared_tree calm root mine k t1 dirs F (Suc n) t
        \<and> evolves root t0 t1 \<and> e = ENOENT \<and> B (tree_stored root t1)"
      by (blast intro: shared_tree_Suc)
  qed
qed (auto simp: moment_def)

lemma lookup_target:
  assumes "tree_ok root t" and "hex64 d"
  shows "lookup t (shard_path (adapter root) d) =
    (case t (shard_path (adapter root) d) of None \<Rightarrow> Inl ENOENT | Some n \<Rightarrow> Inr n)"
  using lookup_plain [OF tree_okD(1) [OF assms(1)], of "shard_path (adapter root) d"] tree_okD(3) [OF assms] by simp

text \<open>What is at a digest's path.\<close>

lemma target_cases:
  assumes "tree_ok root t" and "hex64 d"
  obtains (absent) "t (shard_path (adapter root) d) = None" and "tree_stored root t (KEY_PREFIX @ d) = None"
  | (stored) i c m where "t (shard_path (adapter root) d) = Some (Regular i c m)"
      and "tree_stored root t (KEY_PREFIX @ d) = Some c" and "sha256_hexdigest c = d"
  using tree_okD(4) [OF assms] assms(2)
  by (cases "t (shard_path (adapter root) d)") (auto simp: blob_ok_def tree_stored_def split: node.splits)

lemma shared_lstat_target:
  assumes "hex64 d"
  shows "triple (sharing calm root mine k t0 dirs F) (os_lstat (shard_path (adapter root) d))
    (\<lambda>st. moment calm root mine k t0 dirs F (\<lambda>S. entry_agrees (S (KEY_PREFIX @ d)) (Some st)))
    (\<lambda>x s. x = OSErr (OSError ENOENT) \<and> moment calm root mine k t0 dirs F (\<lambda>S. S (KEY_PREFIX @ d) = None) s
      \<or> \<not> calm \<and> sharing calm root mine k t0 dirs F s)"
  unfolding os_lstat_def
proof (rule moment_triple)
  fix n and time :: nat and t
  assume "shared_tree calm root mine k t0 dirs F n t"
  then have ok: "tree_ok root t" by (rule shared_treeD)
  let ?look = "case lookup t (shard_path (adapter root) d) of Inl e \<Rightarrow> Inl e | Inr n \<Rightarrow> Inr (stat_of n, t)"
  show "t' = t \<and> entry_agrees (tree_stored root t (KEY_PREFIX @ d)) (Some a)" if "?look = Inr (a, t')" for a t'
    using ok assms by (cases rule: target_cases) (use that in \<open>auto simp: lookup_target [OF ok assms] entry_agrees_def\<close>)
  show "e = ENOENT \<and> tree_stored root t (KEY_PREFIX @ d) = None" if "?look = Inl e" for e
    using ok assms by (cases rule: target_cases) (use that in \<open>auto simp: lookup_target [OF ok assms]\<close>)
qed

text \<open>That nothing is there may be untrue when the call was refused.\<close>

lemma shared_lstat_or_none:
  assumes "hex64 d"
  shows "triple (sharing calm root mine k t0 dirs F) (lstat_or_none (shard_path (adapter root) d))
    (\<lambda>r. moment calm root mine k t0 dirs F (\<lambda>S. entry_agrees (S (KEY_PREFIX @ d)) r \<or> r = None \<and> \<not> calm))
    (\<lambda>_ s. \<not> calm \<and> sharing calm root mine k t0 dirs F s)"
  unfolding lstat_or_none_def
proof (rule triple_trying [OF triple_and_then [OF shared_lstat_target [OF assms]]])
  let ?Q = "\<lambda>r. moment calm root mine k t0 dirs F (\<lambda>S. entry_agrees (S (KEY_PREFIX @ d)) r \<or> r = None \<and> \<not> calm)"
  show "triple (moment calm root mine k t0 dirs F (\<lambda>S. entry_agrees (S (KEY_PREFIX @ d)) (Some st)))
      (returning (Some st)) ?Q (\<lambda>x s. x = OSErr (OSError ENOENT) \<and> moment calm root mine k t0 dirs F (\<lambda>S. S (KEY_PREFIX @ d) = None) s
      \<or> \<not> calm \<and> sharing calm root mine k t0 dirs F s)" for st
    by (rule triple_returning) (erule moment_impl, simp)
  fix e
  have "?Q None s" if "moment calm root mine k t0 dirs F (\<lambda>S. S (KEY_PREFIX @ d) = None) s" for s
    using that by (rule moment_impl) (simp add: entry_agrees_def)
  moreover have "?Q None s" if "\<not> calm" and "sharing calm root mine k t0 dirs F s" for s
    using that by (intro moment_any) simp_all
  ultimately show "triple (\<lambda>s. e = OSErr (OSError ENOENT) \<and> moment calm root mine k t0 dirs F (\<lambda>S. S (KEY_PREFIX @ d) = None) s
      \<or> \<not> calm \<and> sharing calm root mine k t0 dirs F s)
      (if file_not_found e \<or> not_a_directory e then returning None else raising e) ?Q
      (\<lambda>_ s. \<not> calm \<and> sharing calm root mine k t0 dirs F s)"
    by (auto simp: triple_def file_not_found_def)
qed

lemma shared_lstat_scratch:
  "triple (sharing calm root mine k t0 dirs (Some (x, ino, data))) (os_lstat (tmp_dir root @ [x]))
    (\<lambda>st s. st_size st = length data \<and> sharing calm root mine k t0 dirs (Some (x, ino, data)) s)
    (\<lambda>_ s. \<not> calm \<and> sharing calm root mine k t0 dirs (Some (x, ino, data)) s)"
proof (rule triple_weaken)
  let ?file = "tmp_dir root @ [x]" and ?F = "Some (x, ino, data)"
  have look: "\<exists>m. lookup t ?file = Inr (Regular ino data m)" if t: "shared_tree calm root mine k t0 dirs ?F n t" for n t
  proof -
    note d = shared_treeD [OF t]
    from scratch_isD(4) [OF d(4)] obtain m where here: "t ?file = Some (Regular ino data m)" by blast
    then show ?thesis
      using closedD [OF tree_okD(1) [OF d(1)] here] by (simp add: lookup_def locate_tmp_child [OF d(1)] node_at_def)
  qed
  show "triple (sharing calm root mine k t0 dirs ?F) (os_lstat ?file)
     (\<lambda>st s. st_size st = length data \<and> sharing calm root mine k t0 dirs ?F s)
     (\<lambda>x s. (\<exists>e. x = OSErr (OSError e) \<and> False \<and> sharing calm root mine k t0 dirs ?F s)
       \<or> \<not> calm \<and> sharing calm root mine k t0 dirs ?F s)"
    unfolding os_lstat_def by (rule shared_same; frule look) (auto dest: shared_tree_Suc)
qed auto

lemma shared_rename:
  assumes "sha256_hexdigest data = d" and "shard_dir root d \<in> dirs"
  shows "triple (sharing calm root mine k t0 dirs (Some (x, ino, data)))
    (os_rename (tmp_dir root @ [x]) (shard_path (adapter root) d))
    (\<lambda>_. moment calm root mine k t0 dirs None (\<lambda>S. S (KEY_PREFIX @ d) = Some data))
    (\<lambda>_ s. \<not> calm \<and> sharing calm root mine k t0 dirs (Some (x, ino, data)) s)"
proof (rule triple_weaken)
  let ?file = "tmp_dir root @ [x]" and ?F = "Some (x, ino, data)" and ?target = "shard_path (adapter root) d"
  have d64: "hex64 d" using assms(1) by auto
  let ?f = "\<lambda>t. case locate t ?file of Inl e \<Rightarrow> Inl e
     | Inr a \<Rightarrow> (case node_at t a of
         None \<Rightarrow> Inl ENOENT
       | Some Directory \<Rightarrow> Inl EINVAL
       | Some n \<Rightarrow> (case locate t ?target of Inl e \<Rightarrow> Inl e
           | Inr b \<Rightarrow> if node_at t b = Some Directory then Inl EISDIR
                      else Inr ((), (t(a := None))(b \<mapsto> n))))"
  have move: "\<exists>m. ?f t = Inr ((), (t(?file := None))(?target \<mapsto> Regular ino data m))
      \<and> shared_tree calm root mine k t0 dirs None (Suc n) ((t(?file := None))(?target \<mapsto> Regular ino data m))"
    if t: "shared_tree calm root mine k t0 dirs ?F n t" for n t
  proof -
    note d = shared_treeD [OF t]
    note f = scratch_isD [OF d(4)]
    from f(4) obtain m where here: "t ?file = Some (Regular ino data m)" by blast
    let ?t = "(t(?file := None))(?target \<mapsto> Regular ino data m)"
    have dir: "is_dir_at t (shard_dir root d)" using d(3) assms(2) .
    have "locate t ?target = Inr ?target"
      using locate_plain [OF tree_okD(1) [OF d(1)], of ?target] tree_okD(3) [OF d(1) d64] dir by simp
    moreover have "node_at t ?target \<noteq> Some Directory"
      using d(1) d64 by (cases rule: target_cases) (simp_all add: node_at_def)
    ultimately have "?f t = Inr ((), ?t)"
      using here closedD [OF tree_okD(1) [OF d(1)] here] by (simp add: locate_tmp_child [OF d(1)] node_at_def)
    moreover have "adapter_step root UNIV {..n} t ?t"
      unfolding assms(1) [symmetric] by (rule adapter_step.Publish) (use here dir assms(1) in simp_all)
    moreover have "scratch_is calm root mine k None ?t"
      using f(5) by (simp add: scratch_is_def)
    ultimately show ?thesis using own_step [OF t] by blast
  qed
  show "triple (sharing calm root mine k t0 dirs ?F) (os_rename ?file ?target)
     (\<lambda>a s. \<exists>t1. (evolves root t0 t1 \<and> tree_stored root t1 (KEY_PREFIX @ d) = Some data) \<and> sharing calm root mine k t1 dirs None s)
     (\<lambda>x s. (\<exists>e t1. x = OSErr (OSError e) \<and> False \<and> sharing calm root mine k t1 dirs ?F s)
       \<or> \<not> calm \<and> sharing calm root mine k t0 dirs ?F s)"
    unfolding os_rename_def
  proof (rule shared_triple)
    fix n t a t'
    assume t: "shared_tree calm root mine k t0 dirs ?F n t" and "?f t = Inr (a, t')"
    with move [OF t] obtain m where t': "t' = (t(?file := None))(?target \<mapsto> Regular ino data m)"
      and after: "shared_tree calm root mine k t0 dirs None (Suc n) t'" by auto
    have "tree_stored root t' (KEY_PREFIX @ d) = Some data"
      unfolding t' tree_stored_blob [OF d64] by simp
    with moment_now [OF after] show "\<exists>t1. shared_tree calm root mine k t1 dirs None (Suc n) t'
        \<and> evolves root t0 t1 \<and> tree_stored root t1 (KEY_PREFIX @ d) = Some data" by blast
  next
    fix n t e
    assume t: "shared_tree calm root mine k t0 dirs ?F n t" and "?f t = Inl e"
    with move [OF t] show "\<exists>t1. shared_tree calm root mine k t1 dirs ?F (Suc n) t \<and> False" by auto
  qed
qed (auto simp: moment_def)

section \<open>Storing among the others\<close>

definition shared_partial :: "bool \<Rightarrow> path \<Rightarrow> pystr set \<Rightarrow> nat \<Rightarrow> fs_tree \<Rightarrow> pystr \<Rightarrow> nat \<Rightarrow> os_state \<Rightarrow> bool" where
  "shared_partial calm root mine k t0 x ino s \<longleftrightarrow> (\<exists>data. sharing calm root mine k t0 {} (Some (x, ino, data)) s)"

lemma shared_partialI: "sharing calm root mine k t0 {} (Some (x, ino, data)) s \<Longrightarrow> shared_partial calm root mine k t0 x ino s"
  unfolding shared_partial_def by blast

lemma sharing_let_go: "\<not> calm \<Longrightarrow> sharing calm root mine k t0 dirs F s \<Longrightarrow> sharing calm root mine k t0 {} None s"
  using upsetI by (simp add: upset_def)

lemma partial_let_go: "\<not> calm \<Longrightarrow> shared_partial calm root mine k t0 x ino s \<Longrightarrow> sharing calm root mine k t0 {} None s"
  unfolding shared_partial_def using sharing_let_go by blast

lemma shared_spool_chunks:
  "triple (sharing calm root mine k t0 {} (Some (x, ino, data))) (spool_chunks ino cs err digest)
     (\<lambda>d s. d = digest @ concat cs \<and> err = None \<and> sharing calm root mine k t0 {} (Some (x, ino, data @ concat cs)) s)
     (\<lambda>e s. (calm \<longrightarrow> err = Some e) \<and> shared_partial calm root mine k t0 x ino s)"
proof (induction cs arbitrary: data digest)
  case Nil
  show ?case by (cases err) (auto simp: triple_def shared_partial_def)
next
  case (Cons chunk cs)
  have "triple (sharing calm root mine k t0 {} (Some (x, ino, data))) (to_thread (os_write ino chunk))
      (\<lambda>_. sharing calm root mine k t0 {} (Some (x, ino, data @ chunk)))
      (\<lambda>e s. (calm \<longrightarrow> err = Some e) \<and> shared_partial calm root mine k t0 x ino s)"
    by (rule thread_step [OF shared_write]) (auto intro: shared_partialI)
  then show ?case
    unfolding spool_chunks.simps
    by (rule triple_and_then) (use Cons.IH [of "data @ chunk" "digest @ chunk"] in simp)
qed

lemma shared_unlink_partial:
  "triple (shared_partial calm root mine k t0 x ino) (to_thread (unlink_missing_ok (tmp_dir root @ [x])))
     (\<lambda>_. sharing calm root mine k t0 {} None) (\<lambda>_ s. \<not> calm \<and> sharing calm root mine k t0 {} None s)"
  unfolding shared_partial_def
proof (rule triple_ex, rule thread_step)
  fix data
  let ?P = "sharing calm root mine k t0 {} (Some (x, ino, data))"
  show "triple ?P (unlink_missing_ok (tmp_dir root @ [x])) (\<lambda>_. sharing calm root mine k t0 {} None) (\<lambda>_ s. \<not> calm \<and> ?P s)"
    unfolding unlink_missing_ok_def
    by (rule triple_trying [OF shared_unlink_scratch]) (auto simp: triple_def intro: sharing_let_go)
qed (auto intro: sharing_let_go)

lemma shared_spool_body:
  "triple (sharing calm root mine k t0 {} (Some (x, ino, [])))
     (finally_do
        (and_then (spool_chunks ino (stream_chunks c) (stream_error c) [])
           (\<lambda>digest. and_then (to_thread os_touch) (\<lambda>_. and_then (to_thread os_touch) (\<lambda>_.
              returning (tmp_path, sha256_hexdigest digest)))))
        (to_thread os_close))
     (\<lambda>r s. (r = (tmp_path, sha256_hexdigest (stream_data c)) \<and> stream_error c = None)
        \<and> sharing calm root mine k t0 {} (Some (x, ino, stream_data c)) s)
     (\<lambda>e s. (calm \<longrightarrow> stream_error c = Some e) \<and> shared_partial calm root mine k t0 x ino s)"
proof (rule triple_finally)
  let ?F = "Some (x, ino, stream_data c)"
  let ?Q = "\<lambda>r s. (r = (tmp_path, sha256_hexdigest (stream_data c)) \<and> stream_error c = None)
    \<and> sharing calm root mine k t0 {} ?F s"
  let ?E = "\<lambda>e s. (calm \<longrightarrow> stream_error c = Some e) \<and> shared_partial calm root mine k t0 x ino s"
  have touch: "triple (sharing calm root mine k t0 {} F) (to_thread os_touch) (\<lambda>_. sharing calm root mine k t0 {} F) ?E"
    if "F = Some (x, ino, data)" for F data
    by (rule thread_step [OF shared_touch]) (auto simp: that intro: shared_partialI)
  have close: "triple (sharing calm root mine k t0 {} F) (to_thread os_close) (\<lambda>_. sharing calm root mine k t0 {} F) ?E"
    if "F = Some (x, ino, data)" for F data
    by (rule thread_step [OF shared_close]) (auto simp: that intro: shared_partialI)
  show "triple (sharing calm root mine k t0 {} (Some (x, ino, [])))
     (and_then (spool_chunks ino (stream_chunks c) (stream_error c) [])
       (\<lambda>digest. and_then (to_thread os_touch) (\<lambda>_. and_then (to_thread os_touch) (\<lambda>_. returning (tmp_path, sha256_hexdigest digest)))))
     ?Q ?E"
  proof (rule triple_and_then [OF shared_spool_chunks])
    fix digest
    have "triple (sharing calm root mine k t0 {} ?F)
        (and_then (to_thread os_touch) (\<lambda>_. and_then (to_thread os_touch) (\<lambda>_. returning (tmp_path, sha256_hexdigest digest)))) ?Q ?E"
      if "digest = stream_data c" and "stream_error c = None"
      by (rule triple_and_then [OF touch], rule refl, rule triple_and_then [OF touch], rule refl)
        (simp add: that triple_returning)
    then show "triple (\<lambda>s. digest = [] @ concat (stream_chunks c) \<and> stream_error c = None
          \<and> sharing calm root mine k t0 {} (Some (x, ino, [] @ concat (stream_chunks c))) s)
        (and_then (to_thread os_touch) (\<lambda>_. and_then (to_thread os_touch) (\<lambda>_. returning (tmp_path, sha256_hexdigest digest)))) ?Q ?E"
      by (intro triple_fact) (simp add: stream_data_def)
  qed
  show "triple (?Q r) (to_thread os_close) (\<lambda>_. ?Q r) ?E" for r
    by (rule triple_fact, rule triple_weaken [OF close [OF refl]]) auto
  show "triple (?E e) (to_thread os_close) (\<lambda>_. ?E e) ?E" for e
    unfolding shared_partial_def
    by (rule triple_fact, rule triple_ex, rule triple_weaken [OF close [OF refl]]) (auto simp: shared_partial_def)
qed

lemma shared_spool:
  "triple (sharing calm root mine k t0 {} None) (spool (adapter root) c)
     (\<lambda>r s. (stream_error c = None \<and> snd r = sha256_hexdigest (stream_data c))
        \<and> (\<exists>x ino. fst r = tmp_dir root @ [x] \<and> sharing calm root mine k t0 {} (Some (x, ino, stream_data c)) s))
     (\<lambda>e s. (calm \<longrightarrow> stream_error c = Some e) \<and> sharing calm root mine k t0 {} None s)"
  (is "triple _ _ ?Q ?E")
  unfolding spool_def adapter_simps tmp_dir_def [symmetric]
proof (rule triple_and_then)
  have "adapter_dir root (tmp_dir root)" by (simp add: adapter_dir_def)
  then show "triple (sharing calm root mine k t0 {} None) (to_thread (makedirs (tmp_dir root)))
      (\<lambda>_. sharing calm root mine k t0 {tmp_dir root} None) ?E"
    by (intro thread_step [OF shared_makedirs]) (auto intro: sharing_let_go)
  fix u :: unit
  let ?fill = "\<lambda>(descriptor, tmp_path). trying
       (and_then (to_thread os_touch) (\<lambda>_.
          finally_do
            (and_then (spool_chunks descriptor (stream_chunks c) (stream_error c) [])
               (\<lambda>digest. and_then (to_thread os_touch) (\<lambda>_. and_then (to_thread os_touch) (\<lambda>_.
                 returning (tmp_path, sha256_hexdigest digest)))))
            (to_thread os_close)))
       (\<lambda>e. and_then (to_thread (unlink_missing_ok tmp_path)) (\<lambda>_. raising e))"
  have written: "triple (sharing calm root mine k t0 {} (Some (x, ino, []))) (?fill (ino, tmp_dir root @ [x])) ?Q ?E" for x ino
    unfolding prod.case
  proof (rule triple_trying)
    let ?R = "\<lambda>e s. (calm \<longrightarrow> stream_error c = Some e) \<and> shared_partial calm root mine k t0 x ino s"
    have touch: "triple (sharing calm root mine k t0 {} (Some (x, ino, []))) (to_thread os_touch)
        (\<lambda>_. sharing calm root mine k t0 {} (Some (x, ino, []))) ?R"
      by (rule thread_step [OF shared_touch]) (auto intro: shared_partialI)
    show "triple (sharing calm root mine k t0 {} (Some (x, ino, [])))
     (and_then (to_thread os_touch) (\<lambda>_. finally_do
        (and_then (spool_chunks ino (stream_chunks c) (stream_error c) [])
           (\<lambda>digest. and_then (to_thread os_touch) (\<lambda>_. and_then (to_thread os_touch) (\<lambda>_.
              returning (tmp_dir root @ [x], sha256_hexdigest digest)))))
        (to_thread os_close))) ?Q ?R"
      by (rule triple_and_then [OF touch], rule triple_weaken [OF shared_spool_body]) auto
    show "triple (?R e) (and_then (to_thread (unlink_missing_ok (tmp_dir root @ [x]))) (\<lambda>_. raising e)) ?Q ?E" for e
    proof (rule triple_fact, rule triple_and_then)
      show "triple (shared_partial calm root mine k t0 x ino) (to_thread (unlink_missing_ok (tmp_dir root @ [x])))
          (\<lambda>_. sharing calm root mine k t0 {} None) ?E"
        by (rule triple_weaken [OF shared_unlink_partial]) auto
      assume "calm \<longrightarrow> stream_error c = Some e"
      then show "triple (sharing calm root mine k t0 {} None) (raising e) ?Q ?E" by (simp add: triple_raising)
    qed
  qed
  show "triple (sharing calm root mine k t0 {tmp_dir root} None)
      (and_then (to_thread (mkstemp (tmp_dir root) (lit ''.part''))) ?fill) ?Q ?E"
  proof (rule triple_and_then [OF thread_step [OF shared_mkstemp]])
    show "triple (\<lambda>s. \<exists>x. snd r = tmp_dir root @ [x] \<and> sharing calm root mine k t0 {tmp_dir root} (Some (x, fst r, [])) s)
        (?fill r) ?Q ?E" for r
    proof (rule triple_ex, rule triple_fact)
      fix x assume "snd r = tmp_dir root @ [x]"
      then have r: "r = (fst r, tmp_dir root @ [x])" by (cases r) simp
      have "sharing calm root mine k t0 {tmp_dir root} (Some (x, fst r, [])) s \<Longrightarrow> sharing calm root mine k t0 {} (Some (x, fst r, [])) s" for s
        by (erule sharing_fewer) simp
      then show "triple (sharing calm root mine k t0 {tmp_dir root} (Some (x, fst r, []))) (?fill r) ?Q ?E"
        by (subst r, intro triple_weaken [OF written])
    qed
  qed (auto intro: sharing_let_go)
qed

text \<open>An answer of a store that is true of one moment.\<close>

definition put_answer :: "byte_stream \<Rightarrow> pystr option \<Rightarrow> stored_blob \<Rightarrow> (pystr \<Rightarrow> bytes option) \<Rightarrow> bool" where
  "put_answer c ct b S \<longleftrightarrow> stream_error c = None \<and> blob_key b = content_key (stream_data c)
     \<and> blob_content_type b = ct \<and> (\<exists>d. S (blob_key b) = Some d \<and> blob_size b = length d)"

lemma shared_publish:
  assumes "d = sha256_hexdigest (stream_data c)" and "stream_error c = None"
  shows "triple (sharing calm root mine k t0 {} (Some (x, ino, stream_data c)))
    (and_then (and_then (to_thread (makedirs (shard_dir root d))) (\<lambda>_.
       and_then (to_thread (os_lstat (tmp_dir root @ [x]))) (\<lambda>published.
       and_then (to_thread (os_rename (tmp_dir root @ [x]) (shard_path (adapter root) d))) (\<lambda>_. returning published))))
     (\<lambda>published. returning \<lparr>blob_key = KEY_PREFIX @ d, blob_size = st_size published,
         blob_content_type = ct, blob_created_at = st_mtime published\<rparr>))
    (\<lambda>b. moment calm root mine k t0 {} None (put_answer c ct b))
    (\<lambda>_ s. \<not> calm \<and> sharing calm root mine k t0 {} None s)"
proof -
  let ?E = "\<lambda>_ s. \<not> calm \<and> sharing calm root mine k t0 {} None s"
  let ?dirs = "{shard_dir root d}" and ?F = "Some (x, ino, stream_data c)"
  have dir: "adapter_dir root (shard_dir root d)"
    unfolding adapter_dir_def using assms(1) hex64_sha256 by blast
  let ?P = "\<lambda>S. S (KEY_PREFIX @ d) = Some (stream_data c)"
  have rename: "triple (\<lambda>s. st_size st = length (stream_data c) \<and> sharing calm root mine k t0 ?dirs ?F s)
      (and_then (to_thread (os_rename (tmp_dir root @ [x]) (shard_path (adapter root) d))) (\<lambda>_. returning st))
      (\<lambda>st s. st_size st = length (stream_data c) \<and> moment calm root mine k t0 ?dirs None ?P s) ?E" for st
    by (rule triple_fact, rule triple_and_then [OF thread_step [OF shared_rename]])
      (auto simp: assms(1) triple_returning intro: sharing_let_go dest: moment_forget)
  have "triple (sharing calm root mine k t0 {} ?F)
     (and_then (to_thread (makedirs (shard_dir root d))) (\<lambda>_.
       and_then (to_thread (os_lstat (tmp_dir root @ [x]))) (\<lambda>published.
       and_then (to_thread (os_rename (tmp_dir root @ [x]) (shard_path (adapter root) d))) (\<lambda>_. returning published))))
     (\<lambda>st s. st_size st = length (stream_data c) \<and> moment calm root mine k t0 ?dirs None ?P s) ?E"
  proof (rule triple_and_then [OF thread_step [OF shared_makedirs [OF dir]]])
    show "triple (sharing calm root mine k t0 ?dirs ?F) (and_then (to_thread (os_lstat (tmp_dir root @ [x]))) (\<lambda>published.
       and_then (to_thread (os_rename (tmp_dir root @ [x]) (shard_path (adapter root) d))) (\<lambda>_. returning published)))
      (\<lambda>st s. st_size st = length (stream_data c) \<and> moment calm root mine k t0 ?dirs None ?P s) ?E"
      by (rule triple_and_then [OF thread_step [OF shared_lstat_scratch] rename]) (auto intro: sharing_let_go)
  qed (auto intro: sharing_let_go)
  then show ?thesis
  proof (rule triple_and_then)
    fix st
    let ?b = "\<lparr>blob_key = KEY_PREFIX @ d, blob_size = st_size st, blob_content_type = ct, blob_created_at = st_mtime st\<rparr>"
    show "triple (\<lambda>s. st_size st = length (stream_data c) \<and> moment calm root mine k t0 ?dirs None ?P s)
        (returning ?b) (\<lambda>b. moment calm root mine k t0 {} None (put_answer c ct b))
    (\<lambda>_ s. \<not> calm \<and> sharing calm root mine k t0 {} None s)"
      by (rule triple_fact, rule triple_returning, drule moment_fewer, erule moment_impl)
        (simp add: put_answer_def assms content_key_def)
  qed
qed

lemma shared_known:
  assumes "d = sha256_hexdigest (stream_data c)" and "stream_error c = None"
  shows "triple (moment calm root mine k t0 {} (Some (x, ino, data)) (\<lambda>S. entry_agrees (S (KEY_PREFIX @ d)) (Some st)))
    (and_then (and_then (to_thread (os_unlink (tmp_dir root @ [x]))) (\<lambda>_. returning st))
     (\<lambda>published. returning \<lparr>blob_key = KEY_PREFIX @ d, blob_size = st_size published,
         blob_content_type = ct, blob_created_at = st_mtime published\<rparr>))
    (\<lambda>b. moment calm root mine k t0 {} None (put_answer c ct b))
    (\<lambda>_ s. \<not> calm \<and> sharing calm root mine k t0 {} None s)"
proof (rule triple_and_then)
  let ?A = "\<lambda>S. entry_agrees (S (KEY_PREFIX @ d)) (Some st)"
  let ?E = "\<lambda>_ s. \<not> calm \<and> sharing calm root mine k t0 {} None s"
  have unlink: "triple (moment calm root mine k t0 {} (Some (x, ino, data)) ?A) (to_thread (os_unlink (tmp_dir root @ [x])))
      (\<lambda>_. moment calm root mine k t0 {} None ?A) ?E"
  proof (rule shared_thread [where calm = calm])
    show "triple (moment calm root mine k t0 {} (Some (x, ino, data)) ?A) (os_unlink (tmp_dir root @ [x]))
        (\<lambda>_. moment calm root mine k t0 {} None ?A) ?E"
      by (rule triple_weaken [OF moment_keep [OF shared_unlink_scratch]]) (auto intro: sharing_let_go dest: moment_forget)
  qed (auto intro: sharing_calm sharing_let_go sharing_ticked dest: moment_forget)
  show "triple (moment calm root mine k t0 {} (Some (x, ino, data)) ?A)
      (and_then (to_thread (os_unlink (tmp_dir root @ [x]))) (\<lambda>_. returning st))
      (\<lambda>p s. p = st \<and> moment calm root mine k t0 {} None ?A s) ?E"
    by (rule triple_and_then [OF unlink]) (simp add: triple_returning)
  fix p :: stat_result
  let ?b = "\<lparr>blob_key = KEY_PREFIX @ d, blob_size = st_size p, blob_content_type = ct, blob_created_at = st_mtime p\<rparr>"
  show "triple (\<lambda>s. p = st \<and> moment calm root mine k t0 {} None ?A s) (returning ?b)
      (\<lambda>b. moment calm root mine k t0 {} None (put_answer c ct b)) ?E"
    by (rule triple_fact, rule triple_returning, erule moment_impl)
      (auto simp: put_answer_def assms content_key_def entry_agrees_def)
qed

lemma shared_put:
  "triple (sharing calm root mine k t0 {} None) (fs_put (adapter root) c ct)
     (\<lambda>b. moment calm root mine k t0 {} None (put_answer c ct b))
     (\<lambda>e s. (calm \<longrightarrow> stream_error c = Some e) \<and> sharing calm root mine k t0 {} None s)"
  (is "triple _ _ ?Q ?E")
  unfolding fs_put_def
proof (rule triple_and_then [OF shared_spool], clarify)
  fix tmp_path d
  let ?rest = "\<lambda>tmp_path existing. and_then
       (case existing of
          None \<Rightarrow>
            and_then (to_thread (makedirs (shard_dir root d))) (\<lambda>_.
            and_then (to_thread (os_lstat tmp_path)) (\<lambda>published.
            and_then (to_thread (os_rename tmp_path (shard_path (adapter root) d))) (\<lambda>_. returning published)))
        | Some st \<Rightarrow>
            if \<not> s_isreg (st_mode st)
            then raising (Storage (StorageException (Some
                   (lit ''corrupt storage tree: '' @ path_str (shard_path (adapter root) d)
                    @ lit '' exists and is not a regular file''))))
            else and_then (to_thread (os_unlink tmp_path)) (\<lambda>_. returning st))
     (\<lambda>published. returning
        \<lparr>blob_key = KEY_PREFIX @ d, blob_size = st_size published, blob_content_type = ct,
         blob_created_at = st_mtime published\<rparr>)"
  have "triple (sharing calm root mine k t0 {} (Some (x, ino, stream_data c)))
      (and_then (to_thread (lstat_or_none (shard_path (adapter root) d))) (?rest (tmp_dir root @ [x]))) ?Q ?E"
    if d: "d = sha256_hexdigest (stream_data c)" and ok: "stream_error c = None" for x ino
  proof (rule triple_and_then)
    let ?F = "Some (x, ino, stream_data c)"
    let ?A = "\<lambda>r S. entry_agrees (S (KEY_PREFIX @ d)) r \<or> r = None \<and> \<not> calm"
    show "triple (sharing calm root mine k t0 {} ?F) (to_thread (lstat_or_none (shard_path (adapter root) d)))
        (\<lambda>r. moment calm root mine k t0 {} ?F (?A r)) ?E"
      by (rule thread_step [OF shared_lstat_or_none]) (auto simp: d intro: sharing_let_go dest: moment_forget)
    have known: "triple P m Q (\<lambda>_ s. \<not> calm \<and> sharing calm root mine k t0 {} None s) \<Longrightarrow> triple P m Q ?E"
      for P and m :: "stored_blob os" and Q
      by (erule triple_weaken) auto
    show "triple (moment calm root mine k t0 {} ?F (?A r))
        (?rest (tmp_dir root @ [x]) r) ?Q ?E" for r
    proof (cases r)
      case None
      then show ?thesis
        using known [OF triple_weaken [OF shared_publish [OF d ok] moment_forget]] by simp
    next
      case (Some st)
      show ?thesis
      proof (cases "st_mode st = Reg")
        case True
        with Some known [OF shared_known [OF d ok]] show ?thesis by (simp add: s_isreg_def)
      next
        case False
        have "\<not> moment calm root mine k t0 {} ?F (?A r) s" for s
          using False by (auto simp: Some entry_agrees_def elim: moment_fact)
        then show ?thesis by (simp add: triple_def)
      qed
    qed
  qed
  then show "triple (\<lambda>s. (stream_error c = None \<and> snd (tmp_path, d) = sha256_hexdigest (stream_data c))
        \<and> (\<exists>x ino. fst (tmp_path, d) = tmp_dir root @ [x] \<and> sharing calm root mine k t0 {} (Some (x, ino, stream_data c)) s))
     (let target = shard_path (adapter root) d in
      and_then (to_thread (lstat_or_none target)) (\<lambda>existing. and_then
       (case existing of
          None \<Rightarrow>
            and_then (to_thread (makedirs (butlast target))) (\<lambda>_.
            and_then (to_thread (os_lstat tmp_path)) (\<lambda>published.
            and_then (to_thread (os_rename tmp_path target)) (\<lambda>_. returning published)))
        | Some st \<Rightarrow>
            if \<not> s_isreg (st_mode st)
            then raising (Storage (StorageException (Some
                   (lit ''corrupt storage tree: '' @ path_str target
                    @ lit '' exists and is not a regular file''))))
            else and_then (to_thread (os_unlink tmp_path)) (\<lambda>_. returning st))
     (\<lambda>published. returning
        \<lparr>blob_key = KEY_PREFIX @ d, blob_size = st_size published, blob_content_type = ct,
         blob_created_at = st_mtime published\<rparr>))) ?Q ?E"
    unfolding Let_def butlast_shard_path fst_conv snd_conv
    by (intro triple_fact triple_ex) (simp only: refl)
qed

section \<open>Reading and deleting among the others\<close>

lemma shared_unlink_target:
  assumes "hex64 d"
  shows "triple (sharing calm root mine k t0 {} None) (os_unlink (shard_path (adapter root) d))
    (\<lambda>_ s. \<exists>t1. ((\<exists>t. evolves root t0 t \<and> adapter_step root UNIV UNIV t t1 \<and> tree_stored root t (KEY_PREFIX @ d) \<noteq> None
         \<and> tree_stored root t1 = (tree_stored root t)(KEY_PREFIX @ d := None)))
       \<and> sharing calm root mine k t1 {} None s)
    (\<lambda>x s. x = OSErr (OSError ENOENT) \<and> moment calm root mine k t0 {} None (\<lambda>S. S (KEY_PREFIX @ d) = None) s
      \<or> \<not> calm \<and> sharing calm root mine k t0 {} None s)"
proof (rule triple_weaken)
  let ?target = "shard_path (adapter root) d"
  let ?gone = "\<lambda>t1. \<exists>t. evolves root t0 t \<and> adapter_step root UNIV UNIV t t1 \<and> tree_stored root t (KEY_PREFIX @ d) \<noteq> None
         \<and> tree_stored root t1 = (tree_stored root t)(KEY_PREFIX @ d := None)"
  let ?f = "\<lambda>t. case locate t ?target of Inl e \<Rightarrow> Inl e
     | Inr q \<Rightarrow> (case node_at t q of
         None \<Rightarrow> Inl ENOENT
       | Some Directory \<Rightarrow> Inl EISDIR
       | Some _ \<Rightarrow> Inr ((), t(q := None)))"
  have loc: "locate t ?target = (if is_dir_at t (shard_dir root d) then Inr ?target else Inl ENOENT)"
    if "tree_ok root t" for t
    using locate_plain [OF tree_okD(1) [OF that], of ?target] tree_okD(3) [OF that assms] by simp
  show "triple (sharing calm root mine k t0 {} None) (os_unlink ?target)
    (\<lambda>_ s. \<exists>t1. ?gone t1 \<and> sharing calm root mine k t1 {} None s)
    (\<lambda>x s. (\<exists>e t1. x = OSErr (OSError e) \<and> (evolves root t0 t1 \<and> e = ENOENT \<and> tree_stored root t1 (KEY_PREFIX @ d) = None)
       \<and> sharing calm root mine k t1 {} None s)
      \<or> \<not> calm \<and> sharing calm root mine k t0 {} None s)"
    unfolding os_unlink_def
  proof (rule shared_triple)
    fix n t a t'
    assume t: "shared_tree calm root mine k t0 {} None n t" and run: "?f t = Inr (a, t')"
    note d = shared_treeD [OF t] and now = moment_now [OF t]
    from d(1) assms show "\<exists>t1. shared_tree calm root mine k t1 {} None (Suc n) t' \<and> ?gone t1"
    proof (cases rule: target_cases)
      case absent
      with run show ?thesis by (simp add: loc [OF d(1)] node_at_def split: if_splits)
    next
      case (stored i c m)
      with run have t': "t' = t(?target := None)" by (simp add: loc [OF d(1)] node_at_def split: if_splits)
      have step: "adapter_step root UNIV {..n} t t'"
        unfolding t' by (rule adapter_step.Remove) (rule assms, rule stored(1))
      have "scratch_is calm root mine k None t'"
        using d(4) by (auto simp: scratch_is_def t')
      from moment_now(2) [OF own_step [OF t step this]]
      have after: "shared_tree calm root mine k t' {} None (Suc n) t'" .
      moreover have "?gone t'"
        using now(1) adapter_step_mono [OF step] stored(2) tree_stored_blob [OF assms, of root t None]
        by (intro exI [of _ t]) (simp add: t')
      ultimately show ?thesis by blast
    qed
  next
    fix n t e
    assume t: "shared_tree calm root mine k t0 {} None n t" and run: "?f t = Inl e"
    note d = shared_treeD [OF t] and now = moment_now [OF t]
    from d(1) assms show "\<exists>t1. shared_tree calm root mine k t1 {} None (Suc n) t
        \<and> evolves root t0 t1 \<and> e = ENOENT \<and> tree_stored root t1 (KEY_PREFIX @ d) = None"
    proof (cases rule: target_cases)
      case absent
      with run have "e = ENOENT" by (simp add: loc [OF d(1)] node_at_def split: if_splits)
      with absent now show ?thesis by (blast intro: shared_tree_Suc)
    next
      case (stored i c m)
      have "is_dir_at t (shard_dir root d)"
        using tree_okD(1) [OF d(1)] stored(1) unfolding closed_def by (metis butlast_shard_path shard_path_not_Nil option.distinct(1))
      with stored run show ?thesis by (simp add: loc [OF d(1)] node_at_def)
    qed
  qed
qed (auto simp: moment_def)

lemma shared_open:
  assumes "hex64 d"
  shows "triple (sharing calm root mine k t0 {} None) (open_stored_blob (shard_path (adapter root) d))
    (\<lambda>n. moment calm root mine k t0 {} None (\<lambda>S. S (KEY_PREFIX @ d) = Some (file_bytes n)))
    (\<lambda>x s. x = OSErr (OSError ENOENT) \<and> moment calm root mine k t0 {} None (\<lambda>S. S (KEY_PREFIX @ d) = None) s
      \<or> \<not> calm \<and> sharing calm root mine k t0 {} None s)"
  (is "triple _ _ ?Q ?E")
  unfolding open_stored_blob_def
proof (rule triple_and_then)
  let ?target = "shard_path (adapter root) d"
  let ?A = "\<lambda>n S. s_isreg (st_mode (stat_of n)) \<and> S (KEY_PREFIX @ d) = Some (file_bytes n)"
  let ?f = "\<lambda>t. case open_target BLOB_OPEN_FLAGS t ?target of Inl e \<Rightarrow> Inl e | Inr n \<Rightarrow> Inr (n, t)"
  have "triple (sharing calm root mine k t0 {} None) (syscall (\<lambda>_. ?f)) (\<lambda>n. moment calm root mine k t0 {} None (?A n)) ?E"
  proof (rule moment_triple)
    fix n t assume "shared_tree calm root mine k t0 {} None n t"
    then have ok: "tree_ok root t" by (rule shared_treeD)
    show "t' = t \<and> ?A a (tree_stored root t)" if "?f t = Inr (a, t')" for a t'
      using ok assms by (cases rule: target_cases)
        (use that in \<open>auto simp: lookup_target [OF ok assms] open_target_def s_isreg_def file_bytes_def\<close>)
    show "e = ENOENT \<and> tree_stored root t (KEY_PREFIX @ d) = None" if "?f t = Inl e" for e
      using ok assms by (cases rule: target_cases) (use that in \<open>auto simp: lookup_target [OF ok assms] open_target_def\<close>)
  qed
  then show "triple (sharing calm root mine k t0 {} None) (os_open_read ?target BLOB_OPEN_FLAGS) (\<lambda>n. moment calm root mine k t0 {} None (?A n)) ?E"
    unfolding os_open_read_def by (rule triple_and_then) (simp add: triple_def moment_def)
  fix n
  let ?U = "\<lambda>t1 s. \<not> calm \<and> sharing calm root mine k t1 {} None s"
  have fstat: "triple (sharing calm root mine k t1 {} None) (os_fstat n)
      (\<lambda>st s. st = stat_of n \<and> sharing calm root mine k t1 {} None s) (\<lambda>_. ?U t1)" for t1
  proof (rule triple_weaken)
    show "triple (sharing calm root mine k t1 {} None) (os_fstat n)
      (\<lambda>st s. st = stat_of n \<and> sharing calm root mine k t1 {} None s)
      (\<lambda>x s. (\<exists>e. x = OSErr (OSError e) \<and> False \<and> sharing calm root mine k t1 {} None s) \<or> ?U t1 s)"
      unfolding os_fstat_def by (rule shared_same) (auto dest: shared_tree_Suc)
  qed auto
  have check: "triple (sharing calm root mine k t1 {} None) (trying
         (and_then (os_fstat n) (\<lambda>st. if \<not> s_isreg (st_mode st) then raising (OSErr NotARegularFile) else returning ()))
         (\<lambda>e. and_then os_close (\<lambda>_. raising e))) (\<lambda>_. sharing calm root mine k t1 {} None) (\<lambda>_. ?U t1)"
    if "s_isreg (st_mode (stat_of n))" for t1
  proof (rule triple_trying)
    show "triple (sharing calm root mine k t1 {} None)
        (and_then (os_fstat n) (\<lambda>st. if \<not> s_isreg (st_mode st) then raising (OSErr NotARegularFile) else returning ()))
        (\<lambda>_. sharing calm root mine k t1 {} None) (\<lambda>_. ?U t1)"
      by (rule triple_and_then [OF fstat]) (use that in \<open>auto simp: triple_def\<close>)
    show "triple (?U t1) (and_then os_close (\<lambda>_. raising e)) (\<lambda>_. sharing calm root mine k t1 {} None) (\<lambda>_. ?U t1)" for e
      by (rule triple_fact, rule triple_and_then [OF shared_close]) (simp add: triple_raising)
  qed
  have "triple (sharing calm root mine k t1 {} None) (and_then (trying
         (and_then (os_fstat n) (\<lambda>st. if \<not> s_isreg (st_mode st) then raising (OSErr NotARegularFile) else returning ()))
         (\<lambda>e. and_then os_close (\<lambda>_. raising e)))
      (\<lambda>_. and_then os_touch (\<lambda>_. returning n)))
      (\<lambda>r s. r = n \<and> sharing calm root mine k t1 {} None s) (\<lambda>_. ?U t1)"
    if "s_isreg (st_mode (stat_of n))" for t1
    by (rule triple_and_then [OF check [OF that]], rule triple_and_then [OF shared_touch]) (simp add: triple_returning)
  note tail = this
  show "triple (moment calm root mine k t0 {} None (?A n)) (and_then (trying
         (and_then (os_fstat n) (\<lambda>st. if \<not> s_isreg (st_mode st) then raising (OSErr NotARegularFile) else returning ()))
         (\<lambda>e. and_then os_close (\<lambda>_. raising e)))
      (\<lambda>_. and_then os_touch (\<lambda>_. returning n))) ?Q ?E"
    unfolding moment_def
  proof (rule triple_ex, rule triple_fact)
    fix t1 assume t1: "evolves root t0 t1 \<and> ?A n (tree_stored root t1)"
    then have "sharing calm root mine k t0 {} None s" if "sharing calm root mine k t1 {} None s" for s
      using that moment_forget [of calm root mine k t0 "{}" None "\<lambda>_. True" s] unfolding moment_def by blast
    with t1 show "triple (sharing calm root mine k t1 {} None) (and_then (trying
         (and_then (os_fstat n) (\<lambda>st. if \<not> s_isreg (st_mode st) then raising (OSErr NotARegularFile) else returning ()))
         (\<lambda>e. and_then os_close (\<lambda>_. raising e)))
      (\<lambda>_. and_then os_touch (\<lambda>_. returning n)))
      (\<lambda>n s. \<exists>t1. (evolves root t0 t1 \<and> tree_stored root t1 (KEY_PREFIX @ d) = Some (file_bytes n)) \<and> sharing calm root mine k t1 {} None s)
      (\<lambda>x s. x = OSErr (OSError ENOENT) \<and> (\<exists>t1. (evolves root t0 t1 \<and> tree_stored root t1 (KEY_PREFIX @ d) = None) \<and> sharing calm root mine k t1 {} None s)
      \<or> \<not> calm \<and> sharing calm root mine k t0 {} None s)"
      by (intro triple_weaken [OF tail]) auto
  qed
qed

lemma moment_unknown:
  assumes "resolve_key (adapter root) key = None" and "sharing calm root mine k t0 dirs F s"
  shows "moment calm root mine k t0 dirs F (\<lambda>S. S key = None) s"
  using assms(2) stored_unknown [OF assms(1)]
  unfolding moment_def sharing_def shared_tree_def by (intro exI [of _ t0]) auto

text \<open>The error of a read: nothing was there, unless a call was refused or the wait cancelled.\<close>

definition absent_moment :: "bool \<Rightarrow> path \<Rightarrow> pystr set \<Rightarrow> nat \<Rightarrow> fs_tree \<Rightarrow> pystr \<Rightarrow> exn \<Rightarrow> os_state \<Rightarrow> bool" where
  "absent_moment calm root mine k t0 key e s \<longleftrightarrow>
     blob_missing e \<and> moment calm root mine k t0 {} None (\<lambda>S. S key = None) s
     \<or> \<not> calm \<and> sharing calm root mine k t0 {} None s"

lemma absent_momentI:
  "\<not> calm \<Longrightarrow> sharing calm root mine k t0 {} None s \<Longrightarrow> absent_moment calm root mine k t0 key e s"
  by (simp add: absent_moment_def)

lemma shared_unknown:
  "resolve_key (adapter root) key = None \<Longrightarrow>
   triple (sharing calm root mine k t0 {} None) (raising (Storage (BlobNotFound m))) Q (absent_moment calm root mine k t0 key)"
  by (rule triple_raising) (simp add: absent_moment_def blob_missing_def moment_unknown)

text \<open>A read in a thread: what it knows of an error outlives a cancellation.\<close>

lemma thread_read:
  assumes "triple (sharing calm root mine k t0 {} None) f Q
      (\<lambda>x s. x = OSErr (OSError ENOENT) \<and> moment calm root mine k t0 {} None A s \<or> \<not> calm \<and> sharing calm root mine k t0 {} None s)"
    and "\<And>a s. \<not> calm \<Longrightarrow> Q a s \<Longrightarrow> sharing calm root mine k t0 {} None s"
  shows "triple (sharing calm root mine k t0 {} None) (to_thread f) Q
      (\<lambda>x s. x = OSErr (OSError ENOENT) \<and> moment calm root mine k t0 {} None A s \<or> \<not> calm \<and> sharing calm root mine k t0 {} None s)"
  using assms(1)
proof (rule shared_thread [where calm = calm])
  fix s assume "sharing calm root mine k t0 {} None s" and calm
  then show "uncancelled s" by (rule sharing_calm)
next
  fix s assume "sharing calm root mine k t0 {} None s"
  then have "sharing calm root mine k t0 {} None (ticked s)" by (rule sharing_ticked)
  moreover assume "\<not> calm"
  ultimately show "CancelledError = OSErr (OSError ENOENT) \<and> moment calm root mine k t0 {} None A (ticked s)
      \<or> \<not> calm \<and> sharing calm root mine k t0 {} None (ticked s)" by blast
qed (use assms(2) moment_forget in blast)+

lemma shared_get:
  "triple (sharing calm root mine k t0 {} None) (fs_get u (adapter root) key)
     (\<lambda>g. moment calm root mine k t0 {} None (\<lambda>S. \<exists>d. g = Fresh d \<and> S key = Some d)) (absent_moment calm root mine k t0 key)"
proof (cases rule: resolve_key_cases [of root key])
  case unknown
  with shared_unknown [OF unknown] show ?thesis by (simp add: fs_get_def)
next
  case (digest d)
  have "triple (sharing calm root mine k t0 {} None)
      (trying (to_thread (open_stored_blob (shard_path (adapter root) d)))
              (\<lambda>e. if is_os_error e
                   then (if \<not> is_absent_blob e then raising e
                         else raising (Storage (BlobNotFound (Some (unknown_key_message u key)))))
                   else raising e))
      (\<lambda>n. moment calm root mine k t0 {} None (\<lambda>S. S key = Some (file_bytes n))) (absent_moment calm root mine k t0 key)"
    unfolding digest(1)
    by (rule triple_trying [OF thread_read [OF shared_open [OF digest(2)]]])
      (auto simp: triple_def blob_missing_def absent_moment_def dest: moment_forget)
  then have "triple (sharing calm root mine k t0 {} None)
      (and_then (trying (to_thread (open_stored_blob (shard_path (adapter root) d)))
              (\<lambda>e. if is_os_error e
                   then (if \<not> is_absent_blob e then raising e
                         else raising (Storage (BlobNotFound (Some (unknown_key_message u key)))))
                   else raising e)) (\<lambda>handle. returning (Fresh (file_bytes handle))))
     (\<lambda>g. moment calm root mine k t0 {} None (\<lambda>S. \<exists>d. g = Fresh d \<and> S key = Some d)) (absent_moment calm root mine k t0 key)"
    by (rule triple_and_then) (rule triple_returning, erule moment_impl, blast)
  then show ?thesis by (simp add: fs_get_def digest(3))
qed

lemma shared_size:
  "triple (sharing calm root mine k t0 {} None) (fs_size u (adapter root) key)
     (\<lambda>n. moment calm root mine k t0 {} None (\<lambda>S. \<exists>d. S key = Some d \<and> n = length d)) (absent_moment calm root mine k t0 key)"
proof (cases rule: resolve_key_cases [of root key])
  case unknown
  with shared_unknown [OF unknown] show ?thesis by (simp add: fs_size_def)
next
  case (digest d)
  have "triple (sharing calm root mine k t0 {} None)
      (trying (to_thread (os_lstat (shard_path (adapter root) d)))
              (\<lambda>e. if file_not_found e \<or> not_a_directory e
                   then raising (Storage (BlobNotFound (Some (unknown_key_message u key))))
                   else raising e))
      (\<lambda>st. moment calm root mine k t0 {} None (\<lambda>S. entry_agrees (S key) (Some st))) (absent_moment calm root mine k t0 key)"
    unfolding digest(1)
    by (rule triple_trying [OF thread_read [OF shared_lstat_target [OF digest(2)]]])
      (auto simp: triple_def blob_missing_def file_not_found_def absent_moment_def dest: moment_forget)
  then have "triple (sharing calm root mine k t0 {} None)
      (and_then (trying (to_thread (os_lstat (shard_path (adapter root) d)))
              (\<lambda>e. if file_not_found e \<or> not_a_directory e
                   then raising (Storage (BlobNotFound (Some (unknown_key_message u key))))
                   else raising e))
        (\<lambda>entry. if \<not> s_isreg (st_mode entry)
                 then raising (Storage (BlobNotFound (Some (unknown_key_message u key))))
                 else returning (st_size entry)))
     (\<lambda>n. moment calm root mine k t0 {} None (\<lambda>S. \<exists>d. S key = Some d \<and> n = length d)) (absent_moment calm root mine k t0 key)"
  proof (rule triple_and_then)
    fix st :: stat_result
    show "triple (moment calm root mine k t0 {} None (\<lambda>S. entry_agrees (S key) (Some st)))
        (if \<not> s_isreg (st_mode st) then raising (Storage (BlobNotFound (Some (unknown_key_message u key))))
         else returning (st_size st))
        (\<lambda>n. moment calm root mine k t0 {} None (\<lambda>S. \<exists>d. S key = Some d \<and> n = length d)) (absent_moment calm root mine k t0 key)"
    proof (cases "st_mode st = Reg")
      case True
      then show ?thesis
        by (simp add: s_isreg_def) (rule triple_returning, erule moment_impl, auto simp: entry_agrees_def)
    next
      case False
      then have "\<not> moment calm root mine k t0 {} None (\<lambda>S. entry_agrees (S key) (Some st)) s" for s
        by (auto simp: entry_agrees_def elim: moment_fact)
      then show ?thesis by (simp add: triple_def)
    qed
  qed
  then show ?thesis by (simp add: fs_size_def digest(3))
qed

lemma shared_exists:
  "triple (sharing calm root mine k t0 {} None) (fs_exists (adapter root) key)
     (\<lambda>b. moment calm root mine k t0 {} None (\<lambda>S. (b \<longleftrightarrow> S key \<noteq> None) \<or> \<not> calm \<and> \<not> b))
     (\<lambda>_ s. \<not> calm \<and> sharing calm root mine k t0 {} None s)"
  (is "triple _ _ ?Q ?E")
proof (cases rule: resolve_key_cases [of root key])
  case unknown
  have "triple (sharing calm root mine k t0 {} None) (returning False) ?Q ?E"
    by (rule triple_returning, drule moment_unknown [OF unknown], erule moment_impl) simp
  then show ?thesis by (simp add: fs_exists_def unknown)
next
  case (digest d)
  have "triple (sharing calm root mine k t0 {} None) (is_stored_blob (shard_path (adapter root) d)) ?Q ?E"
    unfolding is_stored_blob_def digest(1)
  proof (rule triple_trying, rule triple_and_then [OF shared_lstat_target [OF digest(2)]])
    fix st :: stat_result
    show "triple (moment calm root mine k t0 {} None (\<lambda>S. entry_agrees (S (KEY_PREFIX @ d)) (Some st)))
        (returning (s_isreg (st_mode st)))
        (\<lambda>b. moment calm root mine k t0 {} None (\<lambda>S. (b \<longleftrightarrow> S (KEY_PREFIX @ d) \<noteq> None) \<or> \<not> calm \<and> \<not> b))
        (\<lambda>x s. x = OSErr (OSError ENOENT) \<and> moment calm root mine k t0 {} None (\<lambda>S. S (KEY_PREFIX @ d) = None) s
          \<or> \<not> calm \<and> sharing calm root mine k t0 {} None s)"
      by (rule triple_returning, erule moment_impl) (auto simp: entry_agrees_def s_isreg_def)
  next
    fix e
    let ?B = "\<lambda>S. (False \<longleftrightarrow> S (KEY_PREFIX @ d) \<noteq> None) \<or> \<not> calm \<and> \<not> False"
    have "moment calm root mine k t0 {} None ?B s" if "moment calm root mine k t0 {} None (\<lambda>S. S (KEY_PREFIX @ d) = None) s" for s
      using that by (rule moment_impl) simp
    moreover have "moment calm root mine k t0 {} None ?B s" if "\<not> calm" and "sharing calm root mine k t0 {} None s" for s
      using that by (intro moment_any) simp_all
    ultimately show "triple (\<lambda>s. e = OSErr (OSError ENOENT) \<and> moment calm root mine k t0 {} None (\<lambda>S. S (KEY_PREFIX @ d) = None) s
          \<or> \<not> calm \<and> sharing calm root mine k t0 {} None s)
        (if is_os_error e then returning False else raising e)
        (\<lambda>b. moment calm root mine k t0 {} None (\<lambda>S. (b \<longleftrightarrow> S (KEY_PREFIX @ d) \<noteq> None) \<or> \<not> calm \<and> \<not> b)) ?E"
      by (auto simp: triple_def)
  qed
  then have "triple (sharing calm root mine k t0 {} None)
      (to_thread (is_stored_blob (shard_path (adapter root) d))) ?Q ?E"
    by (rule thread_step) (auto dest: moment_forget)
  then show ?thesis by (simp add: fs_exists_def digest(3))
qed

text \<open>A delete that succeeds is the one call that took the entry away.\<close>

definition removal :: "path \<Rightarrow> pystr \<Rightarrow> fs_tree \<Rightarrow> fs_tree \<Rightarrow> bool" where
  "removal root key t t1 \<longleftrightarrow> adapter_step root UNIV UNIV t t1 \<and> tree_stored root t key \<noteq> None
     \<and> tree_stored root t1 = (tree_stored root t)(key := None)"

lemma shared_since:
  assumes "evolves root t0 t" and "removal root key t t1" and "sharing calm root mine k t1 {} None s"
  shows "sharing calm root mine k t0 {} None s"
proof -
  have "evolves root t0 t1" using assms(1,2) unfolding removal_def by (meson rtranclp.rtrancl_into_rtrancl)
  then have "moment calm root mine k t0 {} None (\<lambda>_. True) s" using assms(3) unfolding moment_def by blast
  then show ?thesis by (rule moment_forget)
qed

lemma shared_delete:
  "triple (sharing calm root mine k t0 {} None) (fs_delete u (adapter root) key)
     (\<lambda>_ s. \<exists>t1. (\<exists>t. evolves root t0 t \<and> removal root key t t1) \<and> sharing calm root mine k t1 {} None s)
     (absent_moment calm root mine k t0 key)"
proof (cases rule: resolve_key_cases [of root key])
  case unknown
  with shared_unknown [OF unknown] show ?thesis by (simp add: fs_delete_def)
next
  case (digest d)
  have "triple (sharing calm root mine k t0 {} None)
      (trying (to_thread (os_unlink (shard_path (adapter root) d)))
           (\<lambda>e. if file_not_found e \<or> not_a_directory e
                then raising (Storage (BlobNotFound (Some (unknown_key_message u key))))
                else raising e))
     (\<lambda>_ s. \<exists>t1. (\<exists>t. evolves root t0 t \<and> removal root key t t1) \<and> sharing calm root mine k t1 {} None s)
     (absent_moment calm root mine k t0 key)"
    unfolding digest(1)
  proof (rule triple_trying [OF thread_read [OF shared_unlink_target [OF digest(2), folded removal_def]]])
    fix s
    assume "\<exists>t1. (\<exists>t. evolves root t0 t \<and> removal root (KEY_PREFIX @ d) t t1) \<and> sharing calm root mine k t1 {} None s"
    then show "sharing calm root mine k t0 {} None s" using shared_since by blast
  qed (auto simp: triple_def blob_missing_def file_not_found_def absent_moment_def)
  then show ?thesis by (simp add: fs_delete_def digest(3))
qed

section \<open>Properties\<close>

text \<open>
  The states an operation may start in and leaves: the tree is in order, the others keep to the
  steps above, and, when nothing is refused or cancelled, no scratch file of this task exists.
\<close>

definition fs_shared :: "bool \<Rightarrow> path \<Rightarrow> pystr set \<Rightarrow> nat \<Rightarrow> os_state \<Rightarrow> bool" where
  "fs_shared calm root mine k s \<longleftrightarrow> among_peers calm root mine k s \<and> tree_ok root (tree s) \<and> k \<le> calls s
     \<and> (\<forall>p i c m. tree s p = Some (Regular i c m) \<longrightarrow> i < calls s)
     \<and> (calm \<longrightarrow> (\<forall>y\<in>mine. tree s (tmp_dir root @ [y]) = None))"

lemma fs_shared_sharing: "fs_shared calm root mine k s \<longleftrightarrow> sharing calm root mine k (tree s) {} None s"
  by (auto simp: fs_shared_def sharing_def shared_tree_def scratch_is_def)

lemma sharing_fs_shared: "sharing calm root mine k t0 {} None s \<Longrightarrow> fs_shared calm root mine k s \<and> evolves root t0 (tree s)"
  by (simp add: fs_shared_sharing) (simp add: sharing_def shared_tree_def)

text \<open>At some moment between two states \<open>A\<close> held of what is stored.\<close>

definition true_between :: "path \<Rightarrow> fs_tree \<Rightarrow> fs_tree \<Rightarrow> ((pystr \<Rightarrow> bytes option) \<Rightarrow> bool) \<Rightarrow> bool" where
  "true_between root t t' A \<longleftrightarrow> (\<exists>t1. evolves root t t1 \<and> A (tree_stored root t1) \<and> evolves root t1 t')"

lemma moment_between:
  assumes "moment calm root mine k (tree s) {} None A s'"
  shows "true_between root (tree s) (tree s') A" and "fs_shared calm root mine k s'"
proof -
  from assms obtain t1 where "evolves root (tree s) t1" "A (tree_stored root t1)" "sharing calm root mine k t1 {} None s'"
    by (rule momentE)
  with sharing_fs_shared show "true_between root (tree s) (tree s') A" and "fs_shared calm root mine k s'"
    unfolding true_between_def by blast+
qed

lemma between_now: "A (tree_stored root t) \<Longrightarrow> true_between root t t A"
  unfolding true_between_def by blast

text \<open>A machine with another process that deletes one blob before every call, if it is there.\<close>

definition deleting_peer :: "path \<Rightarrow> pystr \<Rightarrow> nat \<Rightarrow> fs_tree \<Rightarrow> fs_tree" where
  "deleting_peer root d n t = (case t (shard_path (adapter root) d) of
       Some (Regular i c m) \<Rightarrow> t(shard_path (adapter root) d := None) | _ \<Rightarrow> t)"

definition busy_machine :: "pystr \<Rightarrow> os_state" where
  "busy_machine d = fresh_machine\<lparr>others := deleting_peer srv d\<rparr>"

text \<open>The same, where every seventh call is refused and the task cancelled at the third.\<close>

definition broken_machine :: "pystr \<Rightarrow> os_state" where
  "broken_machine d = (busy_machine d)\<lparr>fault := (\<lambda>n. if n mod 7 = 6 then Some EIO else None),
     cancels := (\<lambda>n. if n = 2 then Some Left_Running else None)\<rparr>"

definition my_names :: "pystr set" where
  "my_names = range (\<lambda>n. temp_file (replicate n 97) (lit ''.part''))"

lemma deleting_peer_steps:
  "hex64 d \<Longrightarrow> (adapter_step root names inos)\<^sup>*\<^sup>* t (deleting_peer root d n t)"
  unfolding deleting_peer_def by (auto split: option.split node.split intro: adapter_step.Remove)

lemma busy_machine_shared:
  assumes "hex64 d"
  shows "fs_shared True srv my_names 0 (busy_machine d)" and "fs_shared False srv my_names 0 (broken_machine d)"
  using deleting_peer_steps [OF assms]
  by (simp_all add: fs_shared_def among_peers_def busy_machine_def broken_machine_def fresh_machine_def
      uncancelled_def tree_ok_empty my_names_def)







end
