(* ===== verification/Histories.thy ===== *)
theory Histories
  imports Main
begin

text \<open>
  Histories of calls: a list of calls made one after the other, with their answers. A simulation of
  single calls is one of histories, and calls that each take effect at one moment, with the steps of
  an environment around it, make a history that is linearized.
\<close>

fun history :: "('c \<Rightarrow> 's \<Rightarrow> 'a \<times> 's) \<Rightarrow> 'c list \<Rightarrow> 's \<Rightarrow> 'a list \<times> 's" where
  "history call [] s = ([], s)"
| "history call (c # cs) s = (case call c s of (a, s1) \<Rightarrow> (case history call cs s1 of (as, s2) \<Rightarrow> (a # as, s2)))"

lemma history_refines:
  assumes "\<And>c s. ok s \<Longrightarrow> case call c s of (a, s') \<Rightarrow> ok s' \<and> spec c (view s) = (a, view s')" and "ok s"
  shows "case history call cs s of (as, s') \<Rightarrow> ok s' \<and> history spec cs (view s) = (as, view s')"
  using assms(2)
proof (induction cs arbitrary: s)
  case (Cons c cs)
  obtain a s1 where c: "call c s = (a, s1)" by fastforce
  with assms(1) [OF Cons.prems, of c] have s1: "ok s1" "spec c (view s) = (a, view s1)" by simp_all
  from Cons.IH [OF s1(1)] c s1(2) show ?case by (auto split: prod.splits)
qed simp

text \<open>\<open>env\<close> is what the others may do before, between and after the calls.\<close>

inductive linearized :: "('t \<Rightarrow> 't \<Rightarrow> bool) \<Rightarrow> ('c \<Rightarrow> 'a \<Rightarrow> 't \<Rightarrow> 't \<Rightarrow> bool) \<Rightarrow> ('c \<times> 'a) list \<Rightarrow> 't \<Rightarrow> 't \<Rightarrow> bool"
  for env effect where
  Rest: "env t t' \<Longrightarrow> linearized env effect [] t t'"
| Call: "env t t1 \<Longrightarrow> effect c a t1 t2 \<Longrightarrow> linearized env effect h t2 t' \<Longrightarrow> linearized env effect ((c, a) # h) t t'"

inductive_simps linearized_Nil [simp]: "linearized env effect [] t t'"
inductive_simps linearized_Cons [simp]: "linearized env effect ((c, a) # h) t t'"

lemma linearized_before:
  assumes "\<And>x y z. env x y \<Longrightarrow> env y z \<Longrightarrow> env x z" and "env t0 t" and "linearized env effect h t t'"
  shows "linearized env effect h t0 t'"
  using assms(3,2) by cases (auto intro: assms(1))

lemma history_linearized:
  assumes "\<And>c s. ok s \<Longrightarrow> case call c s of (a, s') \<Rightarrow>
      ok s' \<and> (\<exists>t1 t2. env (view s) t1 \<and> effect c a t1 t2 \<and> env t2 (view s'))"
    and "ok s" and "\<And>t. env t t" and "\<And>x y z. env x y \<Longrightarrow> env y z \<Longrightarrow> env x z"
  shows "case history call cs s of (as, s') \<Rightarrow>
      ok s' \<and> length as = length cs \<and> linearized env effect (zip cs as) (view s) (view s')"
  using assms(2)
proof (induction cs arbitrary: s)
  case Nil
  with assms(3) show ?case by simp
next
  case (Cons c cs)
  obtain a s1 where c: "call c s = (a, s1)" by fastforce
  from assms(1) [OF Cons.prems, of c] obtain t1 t2 where s1: "ok s1"
    and t: "env (view s) t1" "effect c a t1 t2" "env t2 (view s1)" unfolding c by auto
  obtain as s2 where run: "history call cs s1 = (as, s2)" by fastforce
  from Cons.IH [OF s1] have s2: "ok s2" "length as = length cs" "linearized env effect (zip cs as) (view s1) (view s2)"
    unfolding run by simp_all
  from linearized_before [of env, OF assms(4) t(3) s2(3)] t(1,2)
  have "linearized env effect (zip (c # cs) (a # as)) (view s) (view s2)"
    by (simp only: zip_Cons_Cons linearized.Call)
  with c run s2(1,2) show ?case by simp
qed

end
