(* ===== verification/Blob_History.thy ===== *)
theory Blob_History
  imports Filesystem_Concurrent Histories
begin

text \<open>
  Histories of calls of the blob storage port: any list of stores, reads and deletions, one after the
  other. Over a backend that keeps the contract a history answers exactly as a map from keys to
  contents does, which the interpretation carries to the file system adapter. Among other tasks, and
  with refused calls and cancelled waits, a history keeps what makes the directory a store: every key
  names the digest of what is under it, at every moment.
\<close>

section \<open>Calls and their answers\<close>

datatype blob_call =
    Put_Call byte_stream "pystr option"
  | Get_Call pystr
  | Exists_Call pystr
  | Size_Call pystr
  | Delete_Call pystr

datatype blob_answer =
    Stored pystr nat "pystr option"
  | Content bytes
  | Present bool
  | Sized nat
  | Removed
  | Missing
  | Failed exn

definition failure :: "exn \<Rightarrow> blob_answer" where
  "failure e = (if blob_missing e then Missing else Failed e)"

text \<open>One call of a backend. Of a download, what it delivers when it is read to its end.\<close>

fun call_blob :: "('s, 'g) blob_storage \<Rightarrow> ('g \<Rightarrow> bytes) \<Rightarrow> blob_call \<Rightarrow> 's \<Rightarrow> blob_answer \<times> 's" where
  "call_blob st deliver (Put_Call c ct) s = (case blob_put st c ct s of
      (Inr b, s') \<Rightarrow> (Stored (blob_key b) (blob_size b) (blob_content_type b), s') | (Inl e, s') \<Rightarrow> (failure e, s'))"
| "call_blob st deliver (Get_Call k) s = (case blob_get st k s of
      (Inr g, s') \<Rightarrow> (Content (deliver g), s') | (Inl e, s') \<Rightarrow> (failure e, s'))"
| "call_blob st deliver (Exists_Call k) s = (case blob_exists st k s of
      (Inr b, s') \<Rightarrow> (Present b, s') | (Inl e, s') \<Rightarrow> (failure e, s'))"
| "call_blob st deliver (Size_Call k) s = (case blob_size_of st k s of
      (Inr n, s') \<Rightarrow> (Sized n, s') | (Inl e, s') \<Rightarrow> (failure e, s'))"
| "call_blob st deliver (Delete_Call k) s = (case blob_delete st k s of
      (Inr _, s') \<Rightarrow> (Removed, s') | (Inl e, s') \<Rightarrow> (failure e, s'))"

text \<open>The same call of a map from keys to contents.\<close>

fun call_map :: "(bytes \<Rightarrow> pystr) \<Rightarrow> blob_call \<Rightarrow> (pystr \<Rightarrow> bytes option) \<Rightarrow> blob_answer \<times> (pystr \<Rightarrow> bytes option)" where
  "call_map key_of (Put_Call c ct) m = (case stream_error c of
      Some e \<Rightarrow> (failure e, m)
    | None \<Rightarrow> (let key = key_of (stream_data c) in case m key of
          None \<Rightarrow> (Stored key (length (stream_data c)) ct, m(key \<mapsto> stream_data c))
        | Some d \<Rightarrow> (Stored key (length d) ct, m)))"
| "call_map key_of (Get_Call k) m = (case m k of None \<Rightarrow> (Missing, m) | Some d \<Rightarrow> (Content d, m))"
| "call_map key_of (Exists_Call k) m = (Present (m k \<noteq> None), m)"
| "call_map key_of (Size_Call k) m = (case m k of None \<Rightarrow> (Missing, m) | Some d \<Rightarrow> (Sized (length d), m))"
| "call_map key_of (Delete_Call k) m = (case m k of None \<Rightarrow> (Missing, m) | Some d \<Rightarrow> (Removed, m(k := None)))"

section \<open>Over any backend that keeps the contract\<close>

context blob_contract
begin

lemma call_refines:
  assumes "ready s"
  shows "case call_blob st delivers c s of (a, s') \<Rightarrow> ready s' \<and> call_map key_of c (stored s) = (a, stored s')"
proof (cases c)
  case (Put_Call x ct)
  show ?thesis
  proof (cases "stream_error x")
    case None
    from put_law [OF assms None, of ct] show ?thesis
      by (cases "stored s (key_of (stream_data x))") (auto simp: Put_Call None Let_def)
  next
    case (Some e)
    from put_error_law [OF assms Some, of ct] show ?thesis by (auto simp: Put_Call Some)
  qed
next
  case (Get_Call k)
  show ?thesis
  proof (cases "stored s k")
    case None
    from get_missing_law [OF assms this] show ?thesis by (auto simp: Get_Call None failure_def)
  next
    case (Some d)
    from get_law [OF assms this] show ?thesis by (auto simp: Get_Call Some)
  qed
next
  case (Exists_Call k)
  from exists_law [OF assms, of k] show ?thesis by (auto simp: Exists_Call)
next
  case (Size_Call k)
  show ?thesis
  proof (cases "stored s k")
    case None
    from size_missing_law [OF assms this] show ?thesis by (auto simp: Size_Call None failure_def)
  next
    case (Some d)
    from size_law [OF assms this] show ?thesis by (auto simp: Size_Call Some)
  qed
next
  case (Delete_Call k)
  show ?thesis
  proof (cases "stored s k")
    case None
    from delete_missing_law [OF assms this] show ?thesis by (auto simp: Delete_Call None failure_def)
  next
    case (Some d)
    from delete_law [OF assms this] show ?thesis by (auto simp: Delete_Call Some)
  qed
qed

lemma calls_refine:
  "ready s \<Longrightarrow> case history (call_blob st delivers) cs s of (as, s') \<Rightarrow>
     ready s' \<and> history (call_map key_of) cs (stored s) = (as, stored s')"
  by (rule history_refines [where ok = ready and call = "call_blob st delivers" and spec = "call_map key_of" and view = stored])
    (rule call_refines)

end

section \<open>Among other tasks\<close>

lemma stored_under_digest:
  assumes "tree_ok root t" and "tree_stored root t key = Some d"
  shows "key = content_key d"
proof (cases rule: resolve_key_cases [of root key])
  case unknown
  with assms(2) show ?thesis by (simp add: stored_unknown)
next
  case (digest e)
  from assms(1) digest(2) show ?thesis
    by (cases rule: target_cases) (use assms(2) digest(1) in \<open>simp_all add: content_key_def\<close>)
qed

text \<open>
  A call takes effect at one moment: what it answers is what the map answers for what is stored then,
  and it changes the tree by at most one step. When calls may be refused or waits cancelled it
  may also fail, or not see what is there.
\<close>

definition gave_up :: "blob_answer \<Rightarrow> bool" where
  "gave_up a \<longleftrightarrow> (\<exists>e. a = failure e) \<or> a = Present False"

definition blob_effect :: "bool \<Rightarrow> path \<Rightarrow> blob_call \<Rightarrow> blob_answer \<Rightarrow> fs_tree \<Rightarrow> fs_tree \<Rightarrow> bool" where
  "blob_effect calm root c a t t' \<longleftrightarrow>
     call_map content_key c (tree_stored root t) = (a, tree_stored root t') \<and> (t' = t \<or> adapter_step root UNIV UNIV t t')
     \<or> \<not> calm \<and> gave_up a \<and> t' = t"

definition answers_between :: "bool \<Rightarrow> path \<Rightarrow> pystr set \<Rightarrow> nat \<Rightarrow> blob_call \<Rightarrow> blob_answer \<Rightarrow> fs_tree \<Rightarrow> os_state \<Rightarrow> bool" where
  "answers_between calm root mine k c a t0 s' \<longleftrightarrow> fs_shared calm root mine k s'
     \<and> (\<exists>t1 t2. evolves root t0 t1 \<and> blob_effect calm root c a t1 t2 \<and> evolves root t2 (tree s'))"

lemma answers_gave_up:
  assumes "sharing calm root mine k t0 {} None s'" and "\<not> calm" and "gave_up a"
  shows "answers_between calm root mine k c a t0 s'"
  using sharing_fs_shared [OF assms(1)] assms(2,3) by (auto simp: answers_between_def blob_effect_def)

lemma answers_moment:
  assumes "moment calm root mine k t0 {} None A s'" and "\<And>S. A S \<Longrightarrow> call_map content_key c S = (a, S) \<or> \<not> calm \<and> gave_up a"
  shows "answers_between calm root mine k c a t0 s'"
proof -
  from assms(1) obtain t1 where t1: "evolves root t0 t1" "A (tree_stored root t1)" "sharing calm root mine k t1 {} None s'"
    by (rule momentE)
  from sharing_fs_shared [OF t1(3)] assms(2) [OF t1(2)] t1(1) show ?thesis
    by (auto simp: answers_between_def blob_effect_def)
qed

lemma answers_absent:
  assumes "absent_moment calm root mine k t0 key e s'" and "\<And>S. S key = None \<Longrightarrow> call_map content_key c S = (Missing, S)"
  shows "answers_between calm root mine k c (failure e) t0 s'"
  using assms(1) unfolding absent_moment_def
proof (elim disjE conjE)
  assume missing: "blob_missing e" and m: "moment calm root mine k t0 {} None (\<lambda>S. S key = None) s'"
  from m show ?thesis by (rule answers_moment) (simp add: assms(2) failure_def missing)
next
  assume "\<not> calm" and "sharing calm root mine k t0 {} None s'"
  then show ?thesis by (intro answers_gave_up) (auto simp: gave_up_def)
qed

lemma call_answers:
  assumes "fs_shared calm root mine k s"
  shows "case call_blob (fs_port u h root) undelivered c s of (a, s') \<Rightarrow> answers_between calm root mine k c a (tree s) s'"
proof -
  have s: "sharing calm root mine k (tree s) {} None s" using assms by (simp add: fs_shared_sharing)
  show ?thesis
  proof (cases c)
    case (Put_Call x ct)
    obtain r s' where run: "fs_put (adapter root) x ct s = (r, s')" by fastforce
    show ?thesis
    proof (cases r)
      case (Inl e)
      from triple_Inl [OF shared_put s] run Inl have e: "calm \<longrightarrow> stream_error x = Some e"
        "sharing calm root mine k (tree s) {} None s'" by fastforce+
      have "answers_between calm root mine k c (failure e) (tree s) s'"
      proof (cases calm)
        case True
        with e(1) have "blob_effect calm root c (failure e) (tree s) (tree s)"
          by (simp add: Put_Call blob_effect_def)
        with sharing_fs_shared [OF e(2)] show ?thesis by (auto simp: answers_between_def)
      next
        case False
        with e(2) show ?thesis by (intro answers_gave_up) (auto simp: gave_up_def)
      qed
      with run Inl show ?thesis by (simp add: Put_Call)
    next
      case (Inr b)
      from triple_Inr [OF shared_put s] run Inr have "moment calm root mine k (tree s) {} None (put_answer x ct b) s'"
        by fastforce
      then have "answers_between calm root mine k c (Stored (blob_key b) (blob_size b) (blob_content_type b)) (tree s) s'"
        by (rule answers_moment) (auto simp: put_answer_def Put_Call)
      with run Inr show ?thesis by (simp add: Put_Call)
    qed
  next
    case (Get_Call key)
    have "case fs_get u (adapter root) key s of (Inl e, s') \<Rightarrow> answers_between calm root mine k c (failure e) (tree s) s'
        | (Inr g, s') \<Rightarrow> answers_between calm root mine k c (Content (undelivered g)) (tree s) s'"
      using tripleD [OF shared_get [where u = u and key = key] s] unfolding Get_Call
      by (auto split: prod.splits sum.splits elim!: answers_absent answers_moment)
    then show ?thesis by (auto simp: Get_Call split: prod.splits sum.splits)
  next
    case (Exists_Call key)
    have "case fs_exists (adapter root) key s of (Inl e, s') \<Rightarrow> answers_between calm root mine k c (failure e) (tree s) s'
        | (Inr b, s') \<Rightarrow> answers_between calm root mine k c (Present b) (tree s) s'"
      using tripleD [OF shared_exists [where key = key] s] unfolding Exists_Call
      by (auto split: prod.splits sum.splits elim!: answers_gave_up answers_moment simp: gave_up_def; blast)
    then show ?thesis by (auto simp: Exists_Call split: prod.splits sum.splits)
  next
    case (Size_Call key)
    have "case fs_size u (adapter root) key s of (Inl e, s') \<Rightarrow> answers_between calm root mine k c (failure e) (tree s) s'
        | (Inr n, s') \<Rightarrow> answers_between calm root mine k c (Sized n) (tree s) s'"
      using tripleD [OF shared_size [where u = u and key = key] s] unfolding Size_Call
      by (auto split: prod.splits sum.splits elim!: answers_absent answers_moment)
    then show ?thesis by (auto simp: Size_Call split: prod.splits sum.splits)
  next
    case (Delete_Call key)
    obtain r s' where run: "fs_delete u (adapter root) key s = (r, s')" by fastforce
    show ?thesis
    proof (cases r)
      case (Inl e)
      from triple_Inl [OF shared_delete s] run Inl have "absent_moment calm root mine k (tree s) key e s'" by fastforce
      then have "answers_between calm root mine k c (failure e) (tree s) s'"
        by (rule answers_absent) (simp add: Delete_Call)
      with run Inl show ?thesis by (simp add: Delete_Call)
    next
      case (Inr x)
      from triple_Inr [OF shared_delete s] run Inr obtain t t1 where
        t: "evolves root (tree s) t" "removal root key t t1" "sharing calm root mine k t1 {} None s'" by fastforce
      then have "blob_effect calm root c Removed t t1"
        by (auto simp: Delete_Call blob_effect_def removal_def)
      with t(1) sharing_fs_shared [OF t(3)] run Inr show ?thesis
        by (auto simp: Delete_Call answers_between_def)
    qed
  qed
qed

section \<open>Properties\<close>

text \<open>C8. The directory is a map from keys to contents, over any history. Alone on a machine that is not
  disturbed, every list of stores, downloads, probes, sizes and deletions, repeated, failing and
  unknown ones included, is answered exactly as a map from keys to contents answers it that computes
  the keys of new contents from their digest, keeps the first content of a key, and drops a deleted
  one; and the directory then holds exactly what the map holds.\<close>

theorem blob_history_refines:
  assumes "fs_ready root s"
  shows "case history (call_blob (fs_port u uuid4_hex root) undelivered) cs s of (as, s') \<Rightarrow>
    fs_ready root s' \<and> history (call_map content_key) cs (fs_stored root s) = (as, fs_stored root s')"
  using assms by (rule fs.calls_refine)

definition sample_history :: "blob_call list" where
  "sample_history = [Put_Call \<lparr>stream_chunks = [[1], [2]], stream_error = None\<rparr> None, Get_Call (content_key [1, 2]),
     Delete_Call (content_key [1, 2]), Exists_Call (content_key [1, 2]), Delete_Call (content_key [1, 2])]"

lemma blob_history_refines_witness:
  "fst (history (call_blob (fs_port plain_unicode (\<lambda>_. lit ''0f'') srv) undelivered) sample_history fresh_machine) =
     [Stored (content_key [1, 2]) 2 None, Content [1, 2], Removed, Present False, Missing]"
proof -
  have start: "fs_stored srv fresh_machine = (\<lambda>_. None)" by (simp add: fresh_machine_stored fun_eq_iff)
  have "fst (history (call_map content_key) sample_history (\<lambda>_. None)) =
      [Stored (content_key [1, 2]) 2 None, Content [1, 2], Removed, Present False, Missing]"
    by (simp add: sample_history_def stream_data_def Let_def)
  with blob_history_refines [where u = plain_unicode and uuid4_hex = "\<lambda>_. lit ''0f''" and cs = sample_history,
      OF fresh_machine_ready [of srv], unfolded start] show ?thesis
    by (auto split: prod.splits)
qed



end
