(* ===== verification/Events.thy ===== *)
theory Events
  imports Exceptions
begin

text \<open>
  The journal: the structured records the code writes through \<open>logger\<close>, newest last, beside
  the state a component works on. Writing a record cannot fail.
\<close>

datatype level = DEBUG | INFO | WARNING | ERROR | CRITICAL

text \<open>The value of a field. A \<open>Measured\<close> field holds a reading of the clock, a float.\<close>

datatype field_value = Text pystr | Number int | Truth bool | Absent | Measured

record log_event =
  ev_level :: level
  ev_name :: pystr
  ev_fields :: "(pystr \<times> field_value) list"
  ev_exc :: "exn option"

text \<open>\<open>bound_context\<close> is structlog's bound context of the running task, merged into its records.\<close>

record 'p world =
  part :: 'p
  journal :: "log_event list"
  bound_context :: "pystr \<rightharpoonup> pystr"

type_synonym ('p, 'a) app = "('p world, exn, 'a) action"

definition on_part :: "('p, exn, 'a) action \<Rightarrow> ('p, 'a) app" where
  "on_part = lifting part (\<lambda>p w. w\<lparr>part := p\<rparr>)"

definition log_event_of :: "level \<Rightarrow> pystr \<Rightarrow> (pystr \<times> field_value) list \<Rightarrow> log_event" where
  "log_event_of l name entries = \<lparr>ev_level = l, ev_name = name, ev_fields = entries, ev_exc = None\<rparr>"

definition log_as :: "level \<Rightarrow> pystr \<Rightarrow> (pystr \<times> field_value) list \<Rightarrow> ('p, unit) app" where
  "log_as l name entries = (\<lambda>w. (Inr (), w\<lparr>journal := journal w @ [log_event_of l name entries]\<rparr>))"

text \<open>\<open>logger.exception\<close>: at level \<open>ERROR\<close>, with the exception being handled.\<close>

definition log_exception :: "pystr \<Rightarrow> (pystr \<times> field_value) list \<Rightarrow> exn \<Rightarrow> ('p, unit) app" where
  "log_exception name entries e = (\<lambda>w. (Inr (),
     w\<lparr>journal := journal w @ [(log_event_of ERROR name entries)\<lparr>ev_exc := Some e\<rparr>]\<rparr>))"

definition text_or_none :: "pystr option \<Rightarrow> field_value" where
  "text_or_none t = (case t of None \<Rightarrow> Absent | Some s \<Rightarrow> Text s)"

lemma on_part_run [run]:
  "m (part w) = (r, p) \<Longrightarrow> on_part m w = (r, w\<lparr>part := p\<rparr>)"
  by (simp add: on_part_def lifting_def)

lemma log_as_run [simp]:
  "log_as l name entries w = (Inr (), w\<lparr>journal := journal w @ [log_event_of l name entries]\<rparr>)"
  by (simp add: log_as_def)

lemma log_exception_run [simp]:
  "log_exception name entries e w = (Inr (), w\<lparr>journal := journal w @ [(log_event_of ERROR name entries)\<lparr>ev_exc := Some e\<rparr>]\<rparr>)"
  by (simp add: log_exception_def)

lemma on_part_outcome:
  "on_part m w = (r, w') \<longleftrightarrow> (\<exists>p. m (part w) = (r, p) \<and> w' = w\<lparr>part := p\<rparr>)"
  by (auto simp: on_part_def lifting_def split: prod.splits)

end
