(* ===== verification/Storage_Service.thy ===== *)
theory Storage_Service
  imports Events Blob_Port
begin

text \<open>
  The application's blob service (\<open>application/services/storage_service.py\<close>) over any backend
  of the port: each operation and the record it writes.
\<close>

definition blob_fields :: "pystr \<Rightarrow> nat \<Rightarrow> (pystr \<times> field_value) list" where
  "blob_fields key n = [(lit ''key'', Text key), (lit ''size'', Number (int n))]"

definition service_store :: "('s, 'g) blob_storage \<Rightarrow> byte_stream \<Rightarrow> pystr option \<Rightarrow> ('s, stored_blob) app" where
  "service_store st content content_type =
     and_then (on_part (blob_put st content content_type)) (\<lambda>blob.
     and_then (log_as INFO (lit ''blob_stored'') (blob_fields (blob_key blob) (blob_size blob))) (\<lambda>_.
     returning blob))"

definition service_retrieve :: "('s, 'g) blob_storage \<Rightarrow> pystr \<Rightarrow> ('s, 'g) app" where
  "service_retrieve st key =
     and_then (on_part (blob_size_of st key)) (\<lambda>size.
     and_then (log_as INFO (lit ''blob_retrieved'') (blob_fields key size)) (\<lambda>_.
     on_part (blob_get st key)))"

definition service_remove :: "('s, 'g) blob_storage \<Rightarrow> pystr \<Rightarrow> ('s, unit) app" where
  "service_remove st key =
     and_then (on_part (blob_size_of st key)) (\<lambda>size.
     and_then (on_part (blob_delete st key)) (\<lambda>_.
     log_as INFO (lit ''blob_deleted'') (blob_fields key size)))"

section \<open>Over a backend that keeps the contract\<close>

text \<open>
  \<open>ok w\<close> is a world whose backend is ready; \<open>held w\<close> is what it stores.
\<close>

locale blob_service = blob_contract st ready stored delivers key_of
  for st :: "('s, 'g) blob_storage" and ready :: "'s \<Rightarrow> bool" and stored :: "'s \<Rightarrow> pystr \<Rightarrow> bytes option"
    and delivers :: "'g \<Rightarrow> bytes" and key_of :: "bytes \<Rightarrow> pystr"
begin

lemma store_logs:
  assumes "ready (part w)" and "stream_error c = None"
  shows "\<exists>b w'. service_store st c ct w = (Inr b, w') \<and> ready (part w')
    \<and> blob_key b = key_of (stream_data c)
    \<and> stored (part w') = (if stored (part w) (blob_key b) = None
        then (stored (part w))(blob_key b \<mapsto> stream_data c) else stored (part w))
    \<and> journal w' = journal w @ [log_event_of INFO (lit ''blob_stored'') (blob_fields (blob_key b) (blob_size b))]
    \<and> (\<exists>d. stored (part w') (blob_key b) = Some d \<and> blob_size b = length d)"
proof -
  from put_law [OF assms, of ct] obtain b s' where
    p: "blob_put st c ct (part w) = (Inr b, s')" and r: "ready s'" and
    k: "blob_key b = key_of (stream_data c)" and
    m: "stored s' = (if stored (part w) (blob_key b) = None
        then (stored (part w))(blob_key b \<mapsto> stream_data c) else stored (part w))" and
    d: "\<exists>d. stored s' (blob_key b) = Some d \<and> blob_size b = length d" by blast
  have "service_store st c ct w = (Inr b, w\<lparr>part := s', journal := journal w @
      [log_event_of INFO (lit ''blob_stored'') (blob_fields (blob_key b) (blob_size b))]\<rparr>)"
    by (simp add: service_store_def and_then_def on_part_def lifting_def p)
  with r k m d show ?thesis by auto
qed

lemma store_failure:
  assumes "ready (part w)" and "stream_error c = Some e"
  shows "\<exists>w'. service_store st c ct w = (Inl e, w') \<and> ready (part w')
    \<and> stored (part w') = stored (part w) \<and> journal w' = journal w"
proof -
  from put_error_law [OF assms, of ct] obtain s' where
    p: "blob_put st c ct (part w) = (Inl e, s')" "ready s'" "stored s' = stored (part w)" by blast
  then show ?thesis by (simp add: service_store_def and_then_def on_part_def lifting_def)
qed

lemma retrieve_logs:
  assumes "ready (part w)" and "stored (part w) k = Some d"
  shows "\<exists>g w'. service_retrieve st k w = (Inr g, w') \<and> ready (part w') \<and> delivers g = d
    \<and> stored (part w') = stored (part w)
    \<and> journal w' = journal w @ [log_event_of INFO (lit ''blob_retrieved'') (blob_fields k (length d))]"
proof -
  from size_law [OF assms] obtain s1 where
    s1: "blob_size_of st k (part w) = (Inr (length d), s1)" "ready s1" "stored s1 = stored (part w)" by blast
  with assms(2) have "stored s1 k = Some d" by simp
  from get_law [OF s1(2) this] obtain g s2 where
    s2: "blob_get st k s1 = (Inr g, s2)" "ready s2" "stored s2 = stored s1" "delivers g = d" by blast
  from s1 s2 show ?thesis
    by (simp add: service_retrieve_def and_then_def on_part_def lifting_def)
qed

lemma missing_reported:
  assumes "ready (part w)" and "stored (part w) k = None"
  shows "\<exists>e w'. service_retrieve st k w = (Inl e, w') \<and> service_remove st k w = (Inl e, w') \<and> blob_missing e
    \<and> ready (part w') \<and> stored (part w') = stored (part w) \<and> journal w' = journal w"
proof -
  from size_missing_law [OF assms] obtain e s1 where
    s1: "blob_size_of st k (part w) = (Inl e, s1)" "blob_missing e" "ready s1" "stored s1 = stored (part w)" by blast
  then show ?thesis
    by (simp add: service_retrieve_def service_remove_def and_then_def on_part_def lifting_def)
qed

lemma remove_logs:
  assumes "ready (part w)" and "stored (part w) k = Some d"
  shows "\<exists>w'. service_remove st k w = (Inr (), w') \<and> ready (part w')
    \<and> stored (part w') = (stored (part w))(k := None)
    \<and> journal w' = journal w @ [log_event_of INFO (lit ''blob_deleted'') (blob_fields k (length d))]"
proof -
  from size_law [OF assms] obtain s1 where
    s1: "blob_size_of st k (part w) = (Inr (length d), s1)" "ready s1" "stored s1 = stored (part w)" by blast
  with assms(2) have "stored s1 k = Some d" by simp
  from delete_law [OF s1(2) this] obtain s2 where
    s2: "blob_delete st k s1 = (Inr (), s2)" "ready s2" "stored s2 = (stored s1)(k := None)" by blast
  from s1 s2 show ?thesis
    by (simp add: service_remove_def and_then_def on_part_def lifting_def)
qed

text \<open>Removing a blob that was stored and storing it again brings the same map back.\<close>

lemma remove_then_store:
  assumes "ready (part w)" and "stored (part w) (key_of (stream_data c)) = Some (stream_data c)"
    and "stream_error c = None"
  shows "\<exists>w1 b w2. service_remove st (key_of (stream_data c)) w = (Inr (), w1)
    \<and> service_store st c ct w1 = (Inr b, w2) \<and> stored (part w2) = stored (part w)"
proof -
  from remove_logs [OF assms(1,2)] obtain w1 where
    w1: "service_remove st (key_of (stream_data c)) w = (Inr (), w1)" "ready (part w1)"
      "stored (part w1) = (stored (part w))(key_of (stream_data c) := None)" by blast
  from store_logs [OF w1(2) assms(3), of ct] obtain b w2 where
    w2: "service_store st c ct w1 = (Inr b, w2)" "blob_key b = key_of (stream_data c)"
      "stored (part w2) = (if stored (part w1) (blob_key b) = None
        then (stored (part w1))(blob_key b \<mapsto> stream_data c) else stored (part w1))" by blast
  with w1 assms(2) have "stored (part w2) = stored (part w)" by (auto simp: fun_eq_iff)
  with w1 w2 show ?thesis by blast
qed

end

end
