(* ===== verification/Settings.thy ===== *)
theory Settings
  imports Exceptions
begin

text \<open>
  Runtime configuration (\<open>config/settings.py\<close>, \<open>config/storage.py\<close>) and the log levels of
  \<open>infrastructure/logging/config.py\<close>. The values come from the environment as text; each
  validator returns the value to keep or raises \<open>ValueError\<close> with its message. Reading the
  environment and converting text to numbers and booleans is the work of \<open>pydantic\<close>, so the
  raw settings are an argument: a value where one was supplied, nothing where the default
  stands, which is not validated.
\<close>

section \<open>Names\<close>

text \<open>The sets of names, as lists in the order \<open>sorted\<close> gives.\<close>

definition VALID_LOG_LEVELS :: "pystr list" where
  "VALID_LOG_LEVELS = [lit ''CRITICAL'', lit ''DEBUG'', lit ''ERROR'', lit ''INFO'', lit ''WARNING'']"

definition VALID_STORAGE_BACKENDS :: "pystr list" where
  "VALID_STORAGE_BACKENDS = [lit ''filesystem'', lit ''s3'']"

definition VALID_OTLP_SCHEMES :: "pystr list" where
  "VALID_OTLP_SCHEMES = [lit ''http://'', lit ''https://'']"

definition DEFAULT_MAX_UPLOAD_BYTES :: int where
  "DEFAULT_MAX_UPLOAD_BYTES = 5 * 1024 * 1024 * 1024"

fun text_join :: "pystr \<Rightarrow> pystr list \<Rightarrow> pystr" where
  "text_join sep [] = []"
| "text_join sep [w] = w"
| "text_join sep (w # ws) = w @ sep @ text_join sep ws"

section \<open>Validators\<close>

definition require_positive_upload_limit :: "int \<Rightarrow> exn + int" where
  "require_positive_upload_limit value =
     (if value \<le> 0 then Inl (ValueError (lit ''must be a positive number of bytes'')) else Inr value)"

definition require_otlp_scheme :: "pystr \<Rightarrow> exn + pystr" where
  "require_otlp_scheme value =
     (if \<not> list_ex (starts_with value) VALID_OTLP_SCHEMES
      then Inl (ValueError (lit ''must start with '' @ text_join (lit '' or '') VALID_OTLP_SCHEMES
        @ [32, 8212] @ lit '' the scheme decides whether the exporter ''
        @ lit ''uses TLS, and omitting it silently drops every span''))
      else Inr value)"

definition one_of_message :: "pystr list \<Rightarrow> pystr" where
  "one_of_message names = lit ''must be one of '' @ text_join (lit '', '') names @ lit '' (case-insensitive)''"

definition normalise_log_level :: "unicode_data \<Rightarrow> pystr \<Rightarrow> exn + pystr" where
  "normalise_log_level u value =
     (let normalised = str_upper u (strip value)
      in if normalised \<notin> set VALID_LOG_LEVELS then Inl (ValueError (one_of_message VALID_LOG_LEVELS))
         else Inr normalised)"

definition normalise_storage_backend :: "unicode_data \<Rightarrow> pystr \<Rightarrow> exn + pystr" where
  "normalise_storage_backend u value =
     (let normalised = str_lower u (strip value)
      in if normalised \<notin> set VALID_STORAGE_BACKENDS
         then Inl (ValueError (one_of_message VALID_STORAGE_BACKENDS))
         else Inr normalised)"

section \<open>The settings\<close>

record settings =
  database_url :: pystr
  log_level :: pystr
  otel_exporter_otlp_endpoint :: pystr
  otel_console_export_enabled :: bool
  storage_backend :: pystr
  set_storage_root :: pystr
  max_upload_bytes :: int

record raw_settings =
  raw_database_url :: "pystr option"
  raw_log_level :: "pystr option"
  raw_otlp_endpoint :: "pystr option"
  raw_console_export :: "bool option"
  raw_storage_backend :: "pystr option"
  raw_storage_root :: "pystr option"
  raw_max_upload_bytes :: "int option"

text \<open>A supplied value goes through its validator, an absent one is the default as it is.\<close>

definition supplied :: "('a \<Rightarrow> exn + 'a) \<Rightarrow> 'a \<Rightarrow> 'a option \<Rightarrow> exn + 'a" where
  "supplied validator dflt raw = (case raw of None \<Rightarrow> Inr dflt | Some v \<Rightarrow> validator v)"

text \<open>
  \<open>Settings()\<close>: the value, or the failed fields with what each raised, in the order of the
  class's fields, as the validation error lists them.
\<close>

fun failures :: "(pystr \<times> (exn + 'a)) \<Rightarrow> (pystr \<times> exn) list" where
  "failures (name, Inl e) = [(name, e)]"
| "failures (name, Inr v) = []"

definition load_settings :: "unicode_data \<Rightarrow> raw_settings \<Rightarrow> (pystr \<times> exn) list + settings" where
  "load_settings u raw =
     (let url = (case raw_database_url raw of None \<Rightarrow> Inl (ValueError (lit ''Field required'')) | Some v \<Rightarrow> Inr v);
          level = supplied (normalise_log_level u) (lit ''INFO'') (raw_log_level raw);
          endpoint = supplied require_otlp_scheme (lit ''http://localhost:4317'') (raw_otlp_endpoint raw);
          backend = supplied (normalise_storage_backend u) (lit ''filesystem'') (raw_storage_backend raw);
          limit = supplied require_positive_upload_limit DEFAULT_MAX_UPLOAD_BYTES (raw_max_upload_bytes raw)
      in case (url, level, endpoint, backend, limit) of
           (Inr a, Inr b, Inr c, Inr d, Inr e) \<Rightarrow> Inr
             \<lparr>database_url = a, log_level = b, otel_exporter_otlp_endpoint = c,
              otel_console_export_enabled = (case raw_console_export raw of None \<Rightarrow> True | Some v \<Rightarrow> v),
              storage_backend = d,
              set_storage_root = (case raw_storage_root raw of None \<Rightarrow> lit ''/var/lib/wooloo'' | Some v \<Rightarrow> v),
              max_upload_bytes = e\<rparr>
         | _ \<Rightarrow> Inl (failures (lit ''database_url'', url) @ failures (lit ''log_level'', level)
             @ failures (lit ''otel_exporter_otlp_endpoint'', endpoint)
             @ failures (lit ''storage_backend'', backend) @ failures (lit ''max_upload_bytes'', limit)))"

text \<open>
  \<open>get_settings\<close> keeps the first settings that load, for the process; a load that raises keeps
  nothing. The argument is what \<open>Settings()\<close> would do now.
\<close>

definition process_settings :: "exn + settings \<Rightarrow> (settings option, exn, settings) action" where
  "process_settings load cache = (case cache of
       Some st \<Rightarrow> (Inr st, cache)
     | None \<Rightarrow> (case load of Inl e \<Rightarrow> (Inl e, None) | Inr st \<Rightarrow> (Inr st, Some st)))"

lemma process_settings_once:
  "process_settings load cache = (Inr st, cache') \<Longrightarrow> cache' = Some st \<and> process_settings load' cache' = (Inr st, cache')"
  "process_settings load cache = (Inl e, cache') \<Longrightarrow> cache' = None \<and> load = Inl e"
  by (auto simp: process_settings_def split: option.splits sum.splits)

section \<open>Levels\<close>

text \<open>\<open>logging.getLevelNamesMapping()\<close>.\<close>

definition level_names_mapping :: "(pystr \<times> nat) list" where
  "level_names_mapping = [(lit ''CRITICAL'', 50), (lit ''FATAL'', 50), (lit ''ERROR'', 40),
     (lit ''WARN'', 30), (lit ''WARNING'', 30), (lit ''INFO'', 20), (lit ''DEBUG'', 10), (lit ''NOTSET'', 0)]"

definition resolve_level :: "unicode_data \<Rightarrow> pystr \<Rightarrow> exn + nat" where
  "resolve_level u level = (case map_of level_names_mapping (str_upper u level) of
       None \<Rightarrow> Inl KeyError | Some n \<Rightarrow> Inr n)"

text \<open>The processor that stamps the service's identity on a record without overwriting.\<close>

definition set_default :: "'k \<Rightarrow> 'v \<Rightarrow> ('k \<times> 'v) list \<Rightarrow> ('k \<times> 'v) list" where
  "set_default k v d = (if map_of d k = None then d @ [(k, v)] else d)"

record service_metadata =
  md_service :: pystr
  md_version :: pystr

definition stamp_service :: "service_metadata \<Rightarrow> (pystr \<times> pystr) list \<Rightarrow> (pystr \<times> pystr) list" where
  "stamp_service self event_dict =
     set_default (lit ''version'') (md_version self) (set_default (lit ''service'') (md_service self) event_dict)"

lemma set_default_map_of:
  "map_of (set_default k v d) = (if map_of d k = None then (map_of d)(k \<mapsto> v) else map_of d)"
  by (auto simp: set_default_def map_add_def fun_eq_iff split: option.splits)

section \<open>Facts about the names\<close>

lemmas lit_eval = lit_simps of_char_def

lemma level_names_upper: "name \<in> set VALID_LOG_LEVELS \<Longrightarrow> str_upper u name = name"
  by (auto simp: VALID_LOG_LEVELS_def str_upper_def upper_char_def lit_def)

lemma level_names_strip: "name \<in> set VALID_LOG_LEVELS \<Longrightarrow> strip name = name"
  unfolding strip_def by (rule strip_by_id) (auto simp: VALID_LOG_LEVELS_def lit_def is_space_def)

lemma backend_names_lower: "name \<in> set VALID_STORAGE_BACKENDS \<Longrightarrow> str_lower u name = name"
  by (auto simp: VALID_STORAGE_BACKENDS_def str_lower_def lower_char_def lit_def)

lemma backend_names_strip: "name \<in> set VALID_STORAGE_BACKENDS \<Longrightarrow> strip name = name"
  unfolding strip_def by (rule strip_by_id) (auto simp: VALID_STORAGE_BACKENDS_def lit_def is_space_def)

lemma level_names_mapped: "name \<in> set VALID_LOG_LEVELS \<Longrightarrow> \<exists>n\<in>{10, 20, 30, 40, 50}. map_of level_names_mapping name = Some n"
  by (auto simp: VALID_LOG_LEVELS_def level_names_mapping_def lit_def)

lemma load_settings_Inr:
  assumes "load_settings u raw = Inr st"
  shows "raw_database_url raw = Some (database_url st)"
    and "supplied (normalise_log_level u) (lit ''INFO'') (raw_log_level raw) = Inr (log_level st)"
    and "supplied require_otlp_scheme (lit ''http://localhost:4317'') (raw_otlp_endpoint raw)
      = Inr (otel_exporter_otlp_endpoint st)"
    and "supplied (normalise_storage_backend u) (lit ''filesystem'') (raw_storage_backend raw) = Inr (storage_backend st)"
    and "supplied require_positive_upload_limit DEFAULT_MAX_UPLOAD_BYTES (raw_max_upload_bytes raw)
      = Inr (max_upload_bytes st)"
  using assms by (auto simp: load_settings_def Let_def split: option.splits sum.splits)

lemma supplied_level: "supplied (normalise_log_level u) (lit ''INFO'') r = Inr v \<Longrightarrow> v \<in> set VALID_LOG_LEVELS"
  by (auto simp: supplied_def normalise_log_level_def Let_def VALID_LOG_LEVELS_def split: option.splits if_splits)

lemma supplied_backend: "supplied (normalise_storage_backend u) (lit ''filesystem'') r = Inr v \<Longrightarrow> v \<in> set VALID_STORAGE_BACKENDS"
  by (auto simp: supplied_def normalise_storage_backend_def Let_def VALID_STORAGE_BACKENDS_def split: option.splits if_splits)

lemma supplied_limit: "supplied require_positive_upload_limit DEFAULT_MAX_UPLOAD_BYTES r = Inr v \<Longrightarrow> 0 < v"
  by (auto simp: supplied_def require_positive_upload_limit_def DEFAULT_MAX_UPLOAD_BYTES_def split: option.splits if_splits)

section \<open>Properties\<close>

text \<open>Settings that load are usable: the level is a recognised name that the logging setup
  resolves without a \<open>KeyError\<close>, to the number the same name has whatever case and surrounding
  blanks it was configured with; the backend is a recognised name; the upload limit is positive.\<close>

theorem loaded_settings_usable:
  assumes "load_settings u raw = Inr st"
  shows "log_level st \<in> set VALID_LOG_LEVELS \<and> storage_backend st \<in> set VALID_STORAGE_BACKENDS
    \<and> 0 < max_upload_bytes st
    \<and> (\<exists>n\<in>{10, 20, 30, 40, 50}. resolve_level u (log_level st) = Inr n)"
proof -
  note f = load_settings_Inr [OF assms]
  have level: "log_level st \<in> set VALID_LOG_LEVELS" using f(2) by (rule supplied_level)
  from level_names_mapped [OF this] have "\<exists>n\<in>{10, 20, 30, 40, 50}. resolve_level u (log_level st) = Inr n"
    unfolding resolve_level_def level_names_upper [OF level] by auto
  with level f(4,5) show ?thesis using supplied_backend supplied_limit by blast
qed

definition bare_settings :: raw_settings where
  "bare_settings = \<lparr>raw_database_url = Some (lit ''postgresql+asyncpg://localhost/w''), raw_log_level = None,
     raw_otlp_endpoint = None, raw_console_export = None, raw_storage_backend = None,
     raw_storage_root = None, raw_max_upload_bytes = None\<rparr>"

lemma loaded_settings_usable_witness:
  "\<exists>st. load_settings plain_unicode (bare_settings\<lparr>raw_log_level := Some (lit '' debug '')\<rparr>) = Inr st
     \<and> log_level st \<in> set VALID_LOG_LEVELS \<and> 0 < max_upload_bytes st"
proof -
  have "normalise_log_level plain_unicode (lit '' debug '') = Inr (lit ''DEBUG'')"
    by code_simp
  then obtain st where "load_settings plain_unicode (bare_settings\<lparr>raw_log_level := Some (lit '' debug '')\<rparr>) = Inr st"
    by (simp add: load_settings_def supplied_def bare_settings_def)
  with loaded_settings_usable [OF this] show ?thesis by blast
qed

text \<open>Normalisation is idempotent: a level or backend that a validator returned is returned
  unchanged when validated again.\<close>

theorem normalisation_idempotent:
  "(case normalise_log_level u value of Inl e \<Rightarrow> True | Inr v \<Rightarrow> normalise_log_level u v = Inr v)
   \<and> (case normalise_storage_backend u value of Inl e \<Rightarrow> True | Inr v \<Rightarrow> normalise_storage_backend u v = Inr v)"
  by (auto simp: normalise_log_level_def normalise_storage_backend_def Let_def level_names_upper
      level_names_strip backend_names_lower backend_names_strip split: sum.split)

text \<open>Of the four backends the documentation names, two are not recognised: \<open>minio\<close> and \<open>gcs\<close> fail
  when the settings load, with the message that lists \<open>filesystem\<close> and \<open>s3\<close>.\<close>

theorem minio_and_gcs_rejected:
  "normalise_storage_backend u (lit ''minio'') = Inl (ValueError (lit ''must be one of filesystem, s3 (case-insensitive)''))
   \<and> normalise_storage_backend u (lit ''gcs'') = Inl (ValueError (lit ''must be one of filesystem, s3 (case-insensitive)''))"
  by (simp add: normalise_storage_backend_def VALID_STORAGE_BACKENDS_def one_of_message_def lit_def Let_def
      strip_def strip_by_def is_space_def str_lower_def lower_char_def)

text \<open>A record keeps what its caller set: after the service stamp every key the record had has its
  old value, and \<open>service\<close> and \<open>version\<close> are present.\<close>

theorem stamp_keeps_caller_fields:
  "map_of (stamp_service self d) = [lit ''service'' \<mapsto> md_service self, lit ''version'' \<mapsto> md_version self] ++ map_of d"
proof -
  have ne: "lit ''service'' \<noteq> lit ''version''" by (simp add: lit_def)
  show ?thesis
  proof
    fix k
    show "map_of (stamp_service self d) k =
        ([lit ''service'' \<mapsto> md_service self, lit ''version'' \<mapsto> md_version self] ++ map_of d) k"
      using ne by (cases "map_of d k") (auto simp: stamp_service_def set_default_map_of map_add_def)
  qed
qed

end
