(* ===== verification/Storage_Stack.thy ===== *)
theory Storage_Stack
  imports Filesystem_Properties Storage_Service Settings
begin

text \<open>
  The blob service on the configured backend (\<open>infrastructure/storage/factory.py\<close> and
  \<open>deps.py\<close>): which adapter a configuration builds, and the service's behaviour on the file
  system adapter, by interpretation.
\<close>

definition FILESYSTEM_BACKEND :: pystr where
  "FILESYSTEM_BACKEND = lit ''filesystem''"

text \<open>\<open>Path\<close> of a text is its components; the text between slashes that is empty or a dot is none.\<close>

definition path_of_text :: "pystr \<Rightarrow> path" where
  "path_of_text t = filter (\<lambda>c. c \<noteq> [] \<and> c \<noteq> [46]) (split_on 47 t)"

definition build_blob_storage :: "unicode_data \<Rightarrow> settings \<Rightarrow> exn + fs_storage" where
  "build_blob_storage u st =
     (if storage_backend st = FILESYSTEM_BACKEND
      then Inr (filesystem_blob_storage (path_of_text (set_storage_root st)))
      else Inl (NotImplementedError
        (lit ''storage backend '' @ repr_str u (storage_backend st)
         @ lit '' is a recognised name with no adapter behind it yet; only ''
         @ repr_str u FILESYSTEM_BACKEND @ lit '' is implemented'')))"

text \<open>\<open>get_blob_storage\<close> builds from the process's settings.\<close>

definition get_blob_storage :: "unicode_data \<Rightarrow> settings \<Rightarrow> exn + fs_storage" where
  "get_blob_storage u get_settings = build_blob_storage u get_settings"

interpretation fs_service: blob_service "fs_port u uuid4_hex root" "fs_ready root" "fs_stored root" undelivered content_key
  by unfold_locales

text \<open>The world of the storage routes: a machine and an empty journal.\<close>

definition booted :: "os_state \<Rightarrow> os_state world" where
  "booted s = \<lparr>part = s, journal = [], bound_context = Map.empty\<rparr>"

definition fixed_hex :: "os_state \<Rightarrow> pystr" where
  "fixed_hex s = lit ''0f''"

abbreviation fs_backend :: "unicode_data \<Rightarrow> path \<Rightarrow> (os_state, generator) blob_storage" where
  "fs_backend u root \<equiv> fs_port u fixed_hex root"

section \<open>Properties\<close>

text \<open>The service journals what happened and nothing else. On the file system backend a store, a
  retrieval and a removal of a known key each append exactly one record with the key and the
  number of bytes, and what is stored changes only as the operation says.\<close>

theorem service_journals_outcomes:
  assumes "fs_ready root (part w)" and "stream_error c = None"
    and "fs_stored root (part w) (content_key (stream_data c)) = None"
  shows "\<exists>b g w1 w2 w3. service_store (fs_backend u root) c ct w = (Inr b, w1)
    \<and> service_retrieve (fs_backend u root) (blob_key b) w1 = (Inr g, w2)
    \<and> service_remove (fs_backend u root) (blob_key b) w2 = (Inr (), w3)
    \<and> undelivered g = stream_data c \<and> fs_stored root (part w3) = fs_stored root (part w)
    \<and> journal w3 = journal w @ map (\<lambda>name. log_event_of INFO name (blob_fields (content_key (stream_data c)) (length (stream_data c))))
        [lit ''blob_stored'', lit ''blob_retrieved'', lit ''blob_deleted'']"
proof -
  from fs_service.store_logs [OF assms(1,2), of u fixed_hex ct] assms(3) obtain b w1 where
    w1: "service_store (fs_backend u root) c ct w = (Inr b, w1)" "fs_ready root (part w1)"
    and b: "blob_key b = content_key (stream_data c)" "blob_size b = length (stream_data c)"
    and m1: "fs_stored root (part w1) = (fs_stored root (part w))(content_key (stream_data c) \<mapsto> stream_data c)"
    and j1: "journal w1 = journal w @ [log_event_of INFO (lit ''blob_stored'') (blob_fields (blob_key b) (blob_size b))]"
    by auto
  from m1 have k1: "fs_stored root (part w1) (blob_key b) = Some (stream_data c)" by (simp add: b)
  from fs_service.retrieve_logs [OF w1(2) k1, of u fixed_hex] obtain g w2 where
    w2: "service_retrieve (fs_backend u root) (blob_key b) w1 = (Inr g, w2)" "fs_ready root (part w2)"
      "undelivered g = stream_data c" "fs_stored root (part w2) = fs_stored root (part w1)"
    and j2: "journal w2 = journal w1 @ [log_event_of INFO (lit ''blob_retrieved'') (blob_fields (blob_key b) (length (stream_data c)))]"
    by blast
  from w2(4) k1 have k2: "fs_stored root (part w2) (blob_key b) = Some (stream_data c)" by simp
  from fs_service.remove_logs [OF w2(2) k2, of u fixed_hex] obtain w3 where
    w3: "service_remove (fs_backend u root) (blob_key b) w2 = (Inr (), w3)"
      "fs_stored root (part w3) = (fs_stored root (part w2))(blob_key b := None)"
    and j3: "journal w3 = journal w2 @ [log_event_of INFO (lit ''blob_deleted'') (blob_fields (blob_key b) (length (stream_data c)))]"
    by blast
  have "fs_stored root (part w3) = fs_stored root (part w)"
    using w3(2) w2(4) m1 assms(3) by (auto simp: b)
  with w1 w2 w3 j1 j2 j3 b show ?thesis by (auto intro!: exI)
qed

lemma service_journals_outcomes_witness:
  "\<exists>b g w1 w2 w3. service_store (fs_backend plain_unicode srv) \<lparr>stream_chunks = [[1, 2]], stream_error = None\<rparr> None (booted fresh_machine) = (Inr b, w1)
    \<and> service_retrieve (fs_backend plain_unicode srv) (blob_key b) w1 = (Inr g, w2)
    \<and> service_remove (fs_backend plain_unicode srv) (blob_key b) w2 = (Inr (), w3)
    \<and> undelivered g = [1, 2] \<and> length (journal w3) = 3"
proof -
  let ?c = "\<lparr>stream_chunks = [[1, 2]], stream_error = None\<rparr> :: byte_stream"
  have "fs_ready srv (part (booted fresh_machine))" and "stream_error ?c = None"
    and "fs_stored srv (part (booted fresh_machine)) (content_key (stream_data ?c)) = None"
    using fresh_machine_ready fresh_machine_stored by (simp_all add: booted_def)
  from service_journals_outcomes [OF this, of plain_unicode None] show ?thesis
    by (auto simp: stream_data_def booted_def)
qed

text \<open>Absence and failure are silent: retrieving or removing an unknown key raises \<open>BlobNotFound\<close>, a
  store whose source fails raises the source's exception, and none of them writes a record or
  changes what is stored.\<close>

theorem service_failures_silent:
  assumes "fs_ready root (part w)" and "fs_stored root (part w) k = None" and "stream_error c = Some e"
  shows "\<exists>x w1 w2. service_retrieve (fs_backend u root) k w = (Inl x, w1)
    \<and> service_remove (fs_backend u root) k w = (Inl x, w1) \<and> blob_missing x
    \<and> service_store (fs_backend u root) c ct w = (Inl e, w2)
    \<and> journal w1 = journal w \<and> journal w2 = journal w
    \<and> fs_stored root (part w1) = fs_stored root (part w) \<and> fs_stored root (part w2) = fs_stored root (part w)"
  using fs_service.missing_reported [OF assms(1,2), of u fixed_hex]
    fs_service.store_failure [OF assms(1,3), of u fixed_hex ct] by blast

lemma service_failures_silent_witness:
  "\<exists>x w1 w2. service_retrieve (fs_backend plain_unicode srv) (lit ''nope'') (booted fresh_machine) = (Inl x, w1)
    \<and> blob_missing x \<and> journal w1 = []
    \<and> service_store (fs_backend plain_unicode srv) \<lparr>stream_chunks = [], stream_error = Some BodyTooLarge\<rparr> None (booted fresh_machine)
        = (Inl BodyTooLarge, w2) \<and> journal w2 = []"
proof -
  let ?c = "\<lparr>stream_chunks = [], stream_error = Some BodyTooLarge\<rparr> :: byte_stream"
  have "fs_ready srv (part (booted fresh_machine))" and "fs_stored srv (part (booted fresh_machine)) (lit ''nope'') = None"
    and "stream_error ?c = Some BodyTooLarge"
    using fresh_machine_ready fresh_machine_stored by (simp_all add: booted_def)
  from service_failures_silent [OF this, of plain_unicode None] show ?thesis
    by (auto simp: booted_def)
qed

text \<open>A configuration that loads builds the file system adapter on its storage root, whose scratch
  directory is \<open>tmp\<close> under that root, or, for \<open>s3\<close>, raises \<open>NotImplementedError\<close>: there is no third
  outcome and no silent fall-back.\<close>

theorem backend_of_loaded_settings:
  assumes "load_settings u raw = Inr st"
  shows "(storage_backend st = lit ''filesystem'' \<and> get_blob_storage u st =
        Inr \<lparr>storage_root = path_of_text (set_storage_root st),
             tmp_directory = path_of_text (set_storage_root st) @ [lit ''tmp'']\<rparr>)
    \<or> (storage_backend st = lit ''s3'' \<and> (\<exists>m. get_blob_storage u st = Inl (NotImplementedError m)))"
proof -
  have "storage_backend st \<in> set VALID_STORAGE_BACKENDS"
    using load_settings_Inr(4) [OF assms] by (rule supplied_backend)
  moreover have "lit ''s3'' \<noteq> lit ''filesystem''" by (simp add: lit_def)
  ultimately show ?thesis
    by (auto simp: VALID_STORAGE_BACKENDS_def get_blob_storage_def build_blob_storage_def
        FILESYSTEM_BACKEND_def filesystem_blob_storage_def TMP_DIRECTORY_NAME_def)
qed

lemma backend_of_loaded_settings_witness:
  "\<exists>st. load_settings plain_unicode bare_settings = Inr st
    \<and> get_blob_storage plain_unicode st = Inr \<lparr>storage_root = path_of_text (set_storage_root st),
             tmp_directory = path_of_text (set_storage_root st) @ [lit ''tmp'']\<rparr>"
proof -
  obtain st where st: "load_settings plain_unicode bare_settings = Inr st" "storage_backend st = lit ''filesystem''"
    by (simp add: load_settings_def supplied_def bare_settings_def)
  have "lit ''filesystem'' \<noteq> lit ''s3''" by (simp add: lit_def)
  with backend_of_loaded_settings [OF st(1)] st show ?thesis by auto
qed

end
