(* ===== verification/Repo_Name.thy ===== *)
theory Repo_Name
  imports Regex Exceptions
begin

text \<open>
  The repository name value object (\<open>domain/repositories/name.py\<close>): stripping, the length
  bound, the grammar of path components, and the messages of a refusal. The grammar's regular
  expression is proved equal to a scanner that reads a component once, left to right.
\<close>

definition COMPONENT_SEPARATOR :: nat where
  "COMPONENT_SEPARATOR = 47"

text \<open>\<open>[a-z0-9]+((\.|_|__|-+)[a-z0-9]+)*\<close>. With \<open>fullmatch\<close> the anchors add nothing.\<close>

definition ALNUM :: regex where
  "ALNUM = Cls [(97, 122), (48, 57)]"

definition JOINT :: regex where
  "JOINT = Alt (chr CHR ''.'') (Alt (chr CHR ''_'') (Alt (Seq (chr CHR ''_'') (chr CHR ''_'')) (plus_of (chr CHR ''-''))))"

definition COMPONENT_PATTERN :: regex where
  "COMPONENT_PATTERN = Seq (plus_of ALNUM) (Star (Seq JOINT (plus_of ALNUM)))"

definition MAX_LENGTH :: nat where
  "MAX_LENGTH = 255"

definition MAX_ECHOED_INPUT :: nat where
  "MAX_ECHOED_INPUT = 100"

text \<open>The first \<open>limit\<close> characters, an ellipsis, and the length in brackets.\<close>

definition truncate :: "pystr \<Rightarrow> nat \<Rightarrow> pystr" where
  "truncate value limit =
     (if length value \<le> limit then value
      else take limit value @ [8230, 91] @ nat_dec (length value) @ [93])"

definition is_valid_component :: "pystr \<Rightarrow> bool" where
  "is_valid_component component = fullmatch COMPONENT_PATTERN component"

text \<open>\<open>RepositoryName(value).value\<close>.\<close>

definition repository_name :: "unicode_data \<Rightarrow> pystr \<Rightarrow> exn + pystr" where
  "repository_name u value =
     (let normalized = strip value in
      if length normalized > MAX_LENGTH
      then Inl (Repo (InvalidRepositoryName (Some
             (lit ''repository name exceeds '' @ nat_dec MAX_LENGTH @ lit '' characters ''
              @ lit ''(got '' @ nat_dec (length normalized) @ lit '')''))))
      else if \<not> list_all is_valid_component (split_on COMPONENT_SEPARATOR normalized)
      then Inl (Repo (InvalidRepositoryName (Some
             (lit ''invalid repository name: '' @ repr_str u (truncate value MAX_ECHOED_INPUT)))))
      else Inr normalized)"

section \<open>The grammar as a scanner\<close>

datatype scan = At_Start | In_Word | After_Dot | After_Underscore | After_Underscores | After_Dashes | Rejected

definition is_alnum :: "nat \<Rightarrow> bool" where
  "is_alnum c \<longleftrightarrow> (97 \<le> c \<and> c \<le> 122) \<or> (48 \<le> c \<and> c \<le> 57)"

definition scan_step :: "scan \<Rightarrow> nat \<Rightarrow> scan" where
  "scan_step st c =
     (if is_alnum c then (if st = Rejected then Rejected else In_Word)
      else if c = 46 \<and> st = In_Word then After_Dot
      else if c = 95 \<and> st = In_Word then After_Underscore
      else if c = 95 \<and> st = After_Underscore then After_Underscores
      else if c = 45 \<and> (st = In_Word \<or> st = After_Dashes) then After_Dashes
      else Rejected)"

definition component_ok :: "pystr \<Rightarrow> bool" where
  "component_ok w \<longleftrightarrow> foldl scan_step At_Start w = In_Word"

text \<open>What may still follow in each state.\<close>

definition rest_of_word :: regex where
  "rest_of_word = Seq (Star ALNUM) (Star (Seq JOINT (plus_of ALNUM)))"

fun still_to_come :: "scan \<Rightarrow> regex" where
  "still_to_come At_Start = COMPONENT_PATTERN"
| "still_to_come In_Word = rest_of_word"
| "still_to_come After_Dot = COMPONENT_PATTERN"
| "still_to_come After_Underscore = Alt COMPONENT_PATTERN (Seq (chr CHR ''_'') COMPONENT_PATTERN)"
| "still_to_come After_Underscores = COMPONENT_PATTERN"
| "still_to_come After_Dashes = Seq (Star (chr CHR ''-'')) COMPONENT_PATTERN"
| "still_to_come Rejected = Nothing"

lemma matches_Seq_Nothing: "\<not> matches (Seq Nothing r) s"
  by (simp add: matches_Seq)

lemma matches_Seq_Eps: "matches (Seq Eps r) s = matches r s"
  by (simp add: matches_Seq)

lemma matches_Seq_Alt: "matches (Seq (Alt a b) r) s = (matches (Seq a r) s \<or> matches (Seq b r) s)"
  by (auto simp: matches_Seq)

lemma matches_Seq_assoc: "matches (Seq (Seq a b) r) s = matches (Seq a (Seq b r)) s"
  unfolding matches_Seq by (metis append_assoc)

lemmas matches_Seq_simps = matches_Seq_Nothing matches_Seq_Eps matches_Seq_Alt matches_Seq_assoc

lemma deriv_ALNUM: "deriv c ALNUM = (if is_alnum c then Eps else Nothing)"
  by (simp add: ALNUM_def in_class_def is_alnum_def)

lemma deriv_chr: "deriv c (chr a) = (if c = of_char a then Eps else Nothing)"
  by (auto simp: chr_def in_class_def)

lemma not_nullable: "\<not> nullable ALNUM" "\<not> nullable (chr a)" "\<not> nullable JOINT" "\<not> nullable COMPONENT_PATTERN"
  by (simp_all add: ALNUM_def chr_def JOINT_def COMPONENT_PATTERN_def plus_of_def)

lemma alnum_not_joint: "is_alnum c \<Longrightarrow> c \<noteq> 46 \<and> c \<noteq> 95 \<and> c \<noteq> 45"
  by (auto simp: is_alnum_def)

lemma deriv_JOINT:
  "deriv c JOINT = Alt (if c = 46 then Eps else Nothing) (Alt (if c = 95 then Eps else Nothing)
     (Alt (Seq (if c = 95 then Eps else Nothing) (chr CHR ''_''))
       (Seq (if c = 45 then Eps else Nothing) (Star (chr CHR ''-'')))))"
  by (simp add: JOINT_def plus_of_def deriv_chr not_nullable)

lemma deriv_PATTERN:
  "matches (deriv c COMPONENT_PATTERN) s \<longleftrightarrow> is_alnum c \<and> matches rest_of_word s"
  by (simp add: COMPONENT_PATTERN_def rest_of_word_def plus_of_def deriv_ALNUM not_nullable matches_Seq_simps)

lemma deriv_rest:
  "matches (deriv c rest_of_word) s \<longleftrightarrow> (is_alnum c \<and> matches rest_of_word s)
     \<or> matches (Seq (deriv c JOINT) COMPONENT_PATTERN) s"
  by (simp add: rest_of_word_def COMPONENT_PATTERN_def deriv_ALNUM not_nullable matches_Seq_simps)

lemma scan_step_sound:
  "matches (deriv c (still_to_come st)) s = matches (still_to_come (scan_step st c)) s"
  using alnum_not_joint [of c]
  by (cases st) (auto simp: scan_step_def deriv_PATTERN deriv_rest deriv_JOINT deriv_chr not_nullable matches_Seq_simps)

lemma fullmatch_scan: "fullmatch (still_to_come st) w \<longleftrightarrow> foldl scan_step st w = In_Word"
proof (induction w arbitrary: st)
  case Nil
  show ?case by (cases st) (simp_all add: not_nullable rest_of_word_def)
next
  case (Cons c w)
  have "fullmatch (still_to_come st) (c # w) = matches (deriv c (still_to_come st)) w"
    by (simp only: fullmatch.simps fullmatch_iff deriv_iff)
  also have "\<dots> = fullmatch (still_to_come (scan_step st c)) w"
    by (simp add: scan_step_sound fullmatch_iff)
  finally show ?case by (simp add: Cons.IH)
qed

lemma is_valid_component_scan: "is_valid_component w = component_ok w"
  using fullmatch_scan [of At_Start w] by (simp add: is_valid_component_def component_ok_def)

section \<open>What a valid component looks like\<close>

definition name_char :: "nat \<Rightarrow> bool" where
  "name_char c \<longleftrightarrow> is_alnum c \<or> c = 46 \<or> c = 95 \<or> c = 45"

lemma scan_Rejected: "foldl scan_step Rejected w = Rejected"
  by (induction w) (simp_all add: scan_step_def)

lemma scan_chars: "foldl scan_step st w \<noteq> Rejected \<Longrightarrow> c \<in> set w \<Longrightarrow> name_char c"
proof (induction w arbitrary: st)
  case (Cons a w)
  have "name_char a"
  proof (rule ccontr)
    assume "\<not> name_char a"
    then have "scan_step st a = Rejected" by (auto simp: scan_step_def name_char_def)
    with Cons.prems(1) scan_Rejected show False by simp
  qed
  with Cons show ?case by auto
qed simp

lemma component_ok_chars: "component_ok w \<Longrightarrow> c \<in> set w \<Longrightarrow> name_char c"
  using scan_chars [of At_Start w c] by (simp add: component_ok_def)

lemma component_ok_ends:
  assumes "component_ok w"
  shows "w \<noteq> [] \<and> is_alnum (hd w) \<and> is_alnum (last w)"
proof (intro conjI)
  show ne: "w \<noteq> []" using assms by (auto simp: component_ok_def)
  obtain a v where w: "w = a # v" using ne by (cases w) auto
  show "is_alnum (hd w)"
  proof (rule ccontr)
    assume "\<not> is_alnum (hd w)"
    then have "scan_step At_Start a = Rejected" by (simp add: w scan_step_def)
    with assms scan_Rejected show False by (simp add: component_ok_def w)
  qed
  obtain v' b where w': "w = v' @ [b]" using ne by (metis append_butlast_last_id)
  have "scan_step (foldl scan_step At_Start v') b = In_Word"
    using assms by (simp add: component_ok_def w')
  then show "is_alnum (last w)" by (auto simp: w' scan_step_def split: if_splits)
qed

lemma component_ok_joints:
  assumes "component_ok (v @ [a, b] @ w)" and "\<not> is_alnum a" and "\<not> is_alnum b"
  shows "a = b \<and> (a = 95 \<or> a = 45)"
proof -
  have "foldl scan_step (scan_step (scan_step (foldl scan_step At_Start v) a) b) w \<noteq> Rejected"
    using assms(1) by (simp add: component_ok_def)
  then have "scan_step (scan_step (foldl scan_step At_Start v) a) b \<noteq> Rejected"
    using scan_Rejected by metis
  with assms(2,3) show ?thesis by (auto simp: scan_step_def split: if_splits)
qed

section \<open>Validation\<close>

lemma repository_name_Inr:
  "repository_name u value = Inr n \<longleftrightarrow>
     n = strip value \<and> length n \<le> MAX_LENGTH \<and> (\<forall>w\<in>set (split_on COMPONENT_SEPARATOR n). component_ok w)"
  by (auto simp: repository_name_def Let_def list_all_iff is_valid_component_scan)

lemma accepted_length: "repository_name u value = Inr n \<Longrightarrow> length n \<le> 255"
  using repository_name_Inr [of u "value" n] unfolding MAX_LENGTH_def by blast

lemma name_char_not_space: "name_char c \<Longrightarrow> \<not> is_space c"
  by (auto simp: name_char_def is_alnum_def is_space_def)

lemma valid_name_chars:
  assumes "repository_name u value = Inr n" and "c \<in> set n"
  shows "name_char c \<or> c = COMPONENT_SEPARATOR"
  using assms in_split_on [of c n COMPONENT_SEPARATOR] component_ok_chars
  by (auto simp: repository_name_Inr)

lemma length_nat_dec: "n < 10 ^ Suc k \<Longrightarrow> length (nat_dec n) \<le> Suc k"
proof (induction k arbitrary: n)
  case 0
  then show ?case by (subst nat_dec.simps) simp
next
  case (Suc k)
  show ?case
  proof (cases "n < 10")
    case True
    then show ?thesis by (subst nat_dec.simps) simp
  next
    case False
    have "n div 10 < 10 ^ Suc k" using Suc.prems by (simp add: less_mult_imp_div_less)
    from Suc.IH [OF this] False show ?thesis by (subst nat_dec.simps) simp
  qed
qed

section \<open>Properties\<close>

text \<open>C19. The pattern accepts exactly what one left-to-right scan accepts, and a component it accepts
  starts and ends with a letter or digit, has only lower-case letters, digits, dots, underscores
  and hyphens, and two joining characters stand side by side only if both are underscores or
  both are hyphens.\<close>

theorem component_grammar:
  "is_valid_component w = component_ok w
   \<and> (is_valid_component w \<longrightarrow> w \<noteq> [] \<and> is_alnum (hd w) \<and> is_alnum (last w) \<and> set w \<subseteq> {c. name_char c}
       \<and> (\<forall>v a b v'. w = v @ [a, b] @ v' \<longrightarrow> is_alnum a \<or> is_alnum b \<or> a = b \<and> (a = 95 \<or> a = 45)))"
proof (intro conjI impI)
  show "is_valid_component w = component_ok w" by (rule is_valid_component_scan)
  assume "is_valid_component w"
  then have ok: "component_ok w" by (simp add: is_valid_component_scan)
  show "w \<noteq> []" "is_alnum (hd w)" "is_alnum (last w)" using component_ok_ends [OF ok] by blast+
  show "set w \<subseteq> {c. name_char c}" using component_ok_chars [OF ok] by blast
  show "\<forall>v a b v'. w = v @ [a, b] @ v' \<longrightarrow> is_alnum a \<or> is_alnum b \<or> a = b \<and> (a = 95 \<or> a = 45)"
    using ok component_ok_joints by blast
qed

lemma component_grammar_witness:
  "component_ok (lit ''a__b-.c'') = False \<and> is_alnum (last (lit ''back-end''))"
proof
  show "component_ok (lit ''a__b-.c'') = False" by code_simp
  have "is_valid_component (lit ''back-end'')" by code_simp
  with component_grammar [of "lit ''back-end''"] show "is_alnum (last (lit ''back-end''))" by blast
qed

text \<open>An accepted name is the stripped input, is one to 255 characters long, consists of lower-case
  letters, digits, dots, underscores, hyphens and single slashes between valid components, and is
  accepted again unchanged.\<close>

theorem accepted_name_shape:
  assumes "repository_name u value = Inr n"
  shows "n = strip value \<and> 1 \<le> length n \<and> length n \<le> 255
    \<and> set n \<subseteq> {c. name_char c \<or> c = 47}
    \<and> list_all component_ok (split_on 47 n) \<and> repository_name u n = Inr n"
proof -
  have n: "n = strip value" "length n \<le> MAX_LENGTH" "\<forall>w\<in>set (split_on COMPONENT_SEPARATOR n). component_ok w"
    using assms repository_name_Inr by blast+
  have chars: "name_char c \<or> c = 47" if "c \<in> set n" for c
    using valid_name_chars [OF assms that] by (simp add: COMPONENT_SEPARATOR_def)
  have "n \<noteq> []"
    using n(3) component_ok_ends [of "[]"] by auto
  moreover have "\<not> is_space c" if "c \<in> set n" for c
    using chars [OF that] name_char_not_space [of c] by (auto simp: is_space_def)
  then have "strip n = n"
    unfolding strip_def by (simp add: strip_by_id)
  with n have "repository_name u n = Inr n" by (simp add: repository_name_Inr)
  ultimately show ?thesis
    using n chars by (auto simp: Suc_le_eq list_all_iff COMPONENT_SEPARATOR_def MAX_LENGTH_def)
qed

lemma accepted_name_shape_witness:
  "repository_name plain_unicode (lit '' acme/backend-api '') = Inr (lit ''acme/backend-api'')
    \<and> list_all component_ok (split_on 47 (lit ''acme/backend-api''))"
proof -
  have "repository_name plain_unicode (lit '' acme/backend-api '') = Inr (lit ''acme/backend-api'')" by code_simp
  from this accepted_name_shape [OF this] show ?thesis by blast
qed

text \<open>A refusal says why and stays short. The message of \<open>InvalidRepositoryName\<close> is the length message or
  quotes at most the first 100 characters of the input; for an input shorter than \<open>10^19\<close>
  characters it is at most 1260 characters long, none of them a control character.\<close>

theorem refusal_message_bounded:
  assumes "repository_name u value = Inl e" and "length value < 10 ^ 19"
  shows "\<exists>m. e = Repo (InvalidRepositoryName (Some m)) \<and> length m \<le> 1260 \<and> set m \<subseteq> {c. safe_char u c}"
proof -
  let ?n = "strip value"
  have len: "length ?n < 10 ^ Suc 18"
    using length_strip_by [of is_space "value"] assms(2) by (simp add: strip_def)
  have lits: "set (lit ''repository name exceeds '') \<subseteq> {c. safe_char u c}" "set (lit '' characters '') \<subseteq> {c. safe_char u c}"
    "set (lit ''(got '') \<subseteq> {c. safe_char u c}" "set (lit '')'') \<subseteq> {c. safe_char u c}"
    "set (lit ''invalid repository name: '') \<subseteq> {c. safe_char u c}"
    by (simp_all add: lit_def safe_char_def)
  have digits: "set (nat_dec k) \<subseteq> {c. safe_char u c}" for k
    using nat_dec_digits [of k] by (auto simp: safe_char_def is_digit_def)
  consider "e = Repo (InvalidRepositoryName (Some (lit ''repository name exceeds '' @ nat_dec MAX_LENGTH @ lit '' characters ''
              @ lit ''(got '' @ nat_dec (length ?n) @ lit '')'')))"
    | "e = Repo (InvalidRepositoryName (Some (lit ''invalid repository name: '' @ repr_str u (truncate value MAX_ECHOED_INPUT))))"
    using assms(1) by (auto simp: repository_name_def Let_def split: if_splits)
  then show ?thesis
  proof cases
    case 1
    have "length (nat_dec MAX_LENGTH) \<le> Suc 2" by (rule length_nat_dec) (simp add: MAX_LENGTH_def)
    with 1 length_nat_dec [OF len] lits digits show ?thesis by auto
  next
    case 2
    have "length (truncate value MAX_ECHOED_INPUT) \<le> 122"
      using length_nat_dec [of "length value" 18] assms(2) by (simp add: truncate_def MAX_ECHOED_INPUT_def)
    then have "length (repr_str u (truncate value MAX_ECHOED_INPUT)) \<le> 1222"
      using length_repr_str [of u "truncate value MAX_ECHOED_INPUT"] by simp
    with 2 lits repr_str_safe show ?thesis by auto
  qed
qed

lemma refusal_message_bounded_witness:
  "\<exists>m. repository_name plain_unicode (lit ''Acme'') = Inl (Repo (InvalidRepositoryName (Some m))) \<and> length m \<le> 1260"
proof -
  have "repository_name plain_unicode (lit ''Acme'') = Inl (Repo (InvalidRepositoryName (Some (lit ''invalid repository name: '' @ repr_str plain_unicode (lit ''Acme'')))))"
    by code_simp
  from this refusal_message_bounded [OF this] show ?thesis by simp
qed

end
