(* ===== verification/Repo_Port.thy ===== *)
theory Repo_Port
  imports Blob_Port
begin

text \<open>
  The repository domain (\<open>domain/repositories\<close>): the entity, a page of entities, the
  persistence port, and the port's contract as a locale over the rows a store holds, deleted
  ones included, in the order they were registered.
\<close>

section \<open>Entities\<close>

record repository =
  rep_id :: uuid
  rep_name :: pystr
  rep_created_at :: datetime
  rep_updated_at :: datetime
  rep_deleted_at :: "datetime option"

record repository_page =
  page_items :: "repository list"
  page_total :: int
  page_limit :: int
  page_offset :: int

record 'd repository_store =
  store_create :: "pystr \<Rightarrow> ('d, exn, repository) action"
  store_get_by_id :: "uuid \<Rightarrow> ('d, exn, repository option) action"
  store_get_by_name :: "pystr \<Rightarrow> ('d, exn, repository option) action"
  store_list :: "int \<Rightarrow> int \<Rightarrow> ('d, exn, repository_page) action"
  store_delete :: "uuid \<Rightarrow> ('d, exn, bool) action"

definition active :: "repository \<Rightarrow> bool" where
  "active r \<longleftrightarrow> rep_deleted_at r = None"

section \<open>Newest first\<close>

text \<open>By creation time, then by identifier, both descending: two stable sorts.\<close>

definition newest_first :: "repository list \<Rightarrow> repository list" where
  "newest_first rs = sort_key (\<lambda>r. - int (rep_created_at r)) (sort_key (\<lambda>r. - uint (rep_id r)) rs)"

definition newer :: "repository \<Rightarrow> repository \<Rightarrow> bool" where
  "newer a b \<longleftrightarrow> rep_created_at b < rep_created_at a
     \<or> (rep_created_at a = rep_created_at b \<and> uint (rep_id b) \<le> uint (rep_id a))"

lemma insort_key_lex:
  assumes "sorted_wrt (\<lambda>a b. f a < f b \<or> f a = f b \<and> g a \<le> g b) ys" and "\<forall>y\<in>set ys. g x \<le> g y"
  shows "sorted_wrt (\<lambda>a b. f a < f b \<or> f a = f b \<and> g a \<le> g b) (insort_key f x ys)"
  using assms by (induction ys) (auto simp: set_insort_key)

lemma sort_key_lex:
  fixes f :: "'a \<Rightarrow> 'b::linorder" and g :: "'a \<Rightarrow> 'c::linorder"
  assumes "sorted (map g xs)"
  shows "sorted_wrt (\<lambda>a b. f a < f b \<or> f a = f b \<and> g a \<le> g b) (sort_key f xs)"
  using assms by (induction xs) (auto intro: insort_key_lex)

lemma newest_first_sorted: "sorted_wrt newer (newest_first rs)"
proof -
  have "sorted_wrt (\<lambda>a b. - int (rep_created_at a) < - int (rep_created_at b)
      \<or> - int (rep_created_at a) = - int (rep_created_at b) \<and> - uint (rep_id a) \<le> - uint (rep_id b))
      (newest_first rs)"
    unfolding newest_first_def by (rule sort_key_lex) simp
  then show ?thesis
    by (rule sorted_wrt_mono_rel [rotated]) (auto simp: newer_def)
qed

lemma set_newest_first [simp]: "set (newest_first rs) = set rs"
  by (simp add: newest_first_def)

lemma length_newest_first [simp]: "length (newest_first rs) = length rs"
  by (simp add: newest_first_def)

lemma distinct_newest_first [simp]: "distinct (newest_first rs) = distinct rs"
  by (simp add: newest_first_def)

section \<open>Pages\<close>

definition page_of :: "int \<Rightarrow> int \<Rightarrow> repository list \<Rightarrow> repository list" where
  "page_of limit offset rs = take (nat limit) (drop (nat offset) (newest_first (filter active rs)))"

text \<open>Reading page after page of size \<open>n\<close> yields every active row once, in order.\<close>

lemma pages_concat:
  assumes "0 < n"
  shows "concat (map (\<lambda>i. take n (drop (i * n) xs)) [0..<k]) = take (k * n) xs"
proof (induction k)
  case (Suc k)
  have "take (k * n) xs @ take n (drop (k * n) xs) = take (k * n + n) xs"
    by (simp add: take_add)
  with Suc show ?case by (simp add: add.commute)
qed simp

section \<open>The contract\<close>

text \<open>
  In a state that is \<open>ok\<close>, \<open>rows\<close> is what the store holds. \<open>fold\<close> maps a name to what the store
  compares: two names are the same name when it maps them to the same text. A deletion marks
  a row with a time and touches its update time; it never clears or moves an earlier mark.
  The database draws the identifier of a new row, \<open>next_id\<close>; a creation is specified when that
  draw is not taken.
\<close>

definition deleted_at_time :: "datetime \<Rightarrow> repository \<Rightarrow> repository" where
  "deleted_at_time t r = r\<lparr>rep_deleted_at := (case rep_deleted_at r of None \<Rightarrow> Some t | Some d \<Rightarrow> Some d),
     rep_updated_at := t\<rparr>"

lemma deleted_at_time_simps [simp]:
  "rep_id (deleted_at_time t r) = rep_id r" "rep_name (deleted_at_time t r) = rep_name r"
  "rep_created_at (deleted_at_time t r) = rep_created_at r" "\<not> active (deleted_at_time t r)"
  by (simp_all add: deleted_at_time_def active_def split: option.splits)

definition mark_deleted :: "uuid \<Rightarrow> datetime \<Rightarrow> repository list \<Rightarrow> repository list" where
  "mark_deleted i t rs = map (\<lambda>r. if rep_id r = i then deleted_at_time t r else r) rs"

lemma map_mark_deleted [simp]:
  "map rep_id (mark_deleted i t rs) = map rep_id rs" "map rep_name (mark_deleted i t rs) = map rep_name rs"
  "map rep_created_at (mark_deleted i t rs) = map rep_created_at rs"
  by (simp_all add: mark_deleted_def)

lemma image_mark_deleted [simp]:
  "rep_id ` set (mark_deleted i t rs) = rep_id ` set rs"
  "rep_name ` set (mark_deleted i t rs) = rep_name ` set rs"
  by (metis list.set_map map_mark_deleted)+

lemma in_mark_deleted:
  "x \<in> set (mark_deleted i t rs) \<Longrightarrow> active x \<Longrightarrow> x \<in> set rs \<and> rep_id x \<noteq> i"
  by (auto simp: mark_deleted_def split: if_splits)

locale repository_contract =
  fixes store :: "'d repository_store"
    and ok :: "'d \<Rightarrow> bool"
    and rows :: "'d \<Rightarrow> repository list"
    and fold_name :: "pystr \<Rightarrow> pystr"
    and next_id :: "'d \<Rightarrow> uuid"
  assumes create_law: "ok d \<Longrightarrow> next_id d \<notin> rep_id ` set (rows d) \<Longrightarrow> length n \<le> 255 \<Longrightarrow> fold_name n \<notin> fold_name ` rep_name ` set (rows d) \<Longrightarrow>
      \<exists>r d'. store_create store n d = (Inr r, d') \<and> ok d' \<and> rows d' = rows d @ [r]
        \<and> rep_name r = n \<and> active r \<and> rep_updated_at r = rep_created_at r
        \<and> rep_id r = next_id d"
    and conflict_law: "ok d \<Longrightarrow> next_id d \<notin> rep_id ` set (rows d) \<Longrightarrow> length n \<le> 255 \<Longrightarrow> fold_name n \<in> fold_name ` rep_name ` set (rows d) \<Longrightarrow>
      \<exists>d'. store_create store n d = (Inl (Repo (RepositoryAlreadyExists None)), d') \<and> ok d' \<and> rows d' = rows d"
    and get_by_id_law: "ok d \<Longrightarrow>
      \<exists>d'. store_get_by_id store i d = (Inr (find (\<lambda>r. rep_id r = i \<and> active r) (rows d)), d')
        \<and> ok d' \<and> rows d' = rows d \<and> next_id d' = next_id d"
    and get_by_name_law: "ok d \<Longrightarrow>
      \<exists>d'. store_get_by_name store n d = (Inr (find (\<lambda>r. fold_name (rep_name r) = fold_name n \<and> active r) (rows d)), d')
        \<and> ok d' \<and> rows d' = rows d \<and> next_id d' = next_id d"
    and list_law: "ok d \<Longrightarrow> 0 \<le> limit \<Longrightarrow> 0 \<le> offset \<Longrightarrow>
      \<exists>d'. store_list store limit offset d = (Inr \<lparr>page_items = page_of limit offset (rows d),
          page_total = int (length (filter active (rows d))), page_limit = limit, page_offset = offset\<rparr>, d')
        \<and> ok d' \<and> rows d' = rows d \<and> next_id d' = next_id d"
    and delete_law: "ok d \<Longrightarrow> i \<in> rep_id ` set (rows d) \<Longrightarrow>
      \<exists>t d'. store_delete store i d = (Inr True, d') \<and> ok d'
        \<and> rows d' = mark_deleted i t (rows d) \<and> next_id d' = next_id d"
    and delete_unknown_law: "ok d \<Longrightarrow> i \<notin> rep_id ` set (rows d) \<Longrightarrow>
      \<exists>d'. store_delete store i d = (Inr False, d') \<and> ok d' \<and> rows d' = rows d \<and> next_id d' = next_id d"
    and ids_law: "ok d \<Longrightarrow> distinct (map rep_id (rows d))"
    and names_law: "ok d \<Longrightarrow> distinct (map (fold_name \<circ> rep_name) (rows d))"
begin

text \<open>What was created is found by its identifier and by any spelling of its name.\<close>

lemma create_then_get:
  assumes "ok d" and "next_id d \<notin> rep_id ` set (rows d)" and "length n \<le> 255"
    and "fold_name n \<notin> fold_name ` rep_name ` set (rows d)" and "fold_name n' = fold_name n"
  shows "\<exists>r d1 d2 d3. store_create store n d = (Inr r, d1) \<and> rep_name r = n
    \<and> store_get_by_id store (rep_id r) d1 = (Inr (Some r), d2)
    \<and> store_get_by_name store n' d2 = (Inr (Some r), d3) \<and> ok d3 \<and> rows d3 = rows d @ [r]"
proof -
  from create_law [OF assms(1-4)] obtain r d1 where
    c: "store_create store n d = (Inr r, d1)" "ok d1" "rows d1 = rows d @ [r]" "rep_name r = n"
      "active r" "rep_id r = next_id d" by blast
  have "find (\<lambda>x. rep_id x = rep_id r \<and> active x) (rows d) = None"
    using c(6) assms(2) by (auto simp: find_None_iff image_iff)
  then have "find (\<lambda>x. rep_id x = rep_id r \<and> active x) (rows d1) = Some r"
    using c(3,5) by (simp add: find_append_Some)
  with get_by_id_law [OF c(2), of "rep_id r"] obtain d2 where
    g: "store_get_by_id store (rep_id r) d1 = (Inr (Some r), d2)" "ok d2" "rows d2 = rows d1" by auto
  have "find (\<lambda>x. fold_name (rep_name x) = fold_name n' \<and> active x) (rows d) = None"
    using assms(4,5) by (auto simp: find_None_iff image_iff)
  then have "find (\<lambda>x. fold_name (rep_name x) = fold_name n' \<and> active x) (rows d2) = Some r"
    using c(3,4,5) g(3) assms(5) by (simp add: find_append_Some)
  with get_by_name_law [OF g(2), of n'] obtain d3 where
    "store_get_by_name store n' d2 = (Inr (Some r), d3)" "ok d3" "rows d3 = rows d2" by auto
  with c g show ?thesis by auto
qed

text \<open>A deleted row is invisible by identifier and by name, and still occupies its name.\<close>

lemma delete_hides:
  assumes "ok d" and "r \<in> set (rows d)" and "fold_name n = fold_name (rep_name r)" and "length n \<le> 255"
    and "next_id d \<notin> rep_id ` set (rows d)"
  shows "\<exists>d1 d2 d3 d4. store_delete store (rep_id r) d = (Inr True, d1)
    \<and> store_get_by_id store (rep_id r) d1 = (Inr None, d2)
    \<and> store_get_by_name store n d2 = (Inr None, d3)
    \<and> store_create store n d3 = (Inl (Repo (RepositoryAlreadyExists None)), d4) \<and> rows d4 = rows d1"
proof -
  have known: "rep_id r \<in> rep_id ` set (rows d)" using assms(2) by simp
  from delete_law [OF assms(1) known] obtain t d1 where
    del: "store_delete store (rep_id r) d = (Inr True, d1)" "ok d1" "next_id d1 = next_id d"
    and rows: "rows d1 = mark_deleted (rep_id r) t (rows d)" by blast
  have "find (\<lambda>x. rep_id x = rep_id r \<and> active x) (rows d1) = None"
    by (auto simp: find_None_iff rows dest: in_mark_deleted)
  with get_by_id_law [OF del(2), of "rep_id r"] obtain d2 where
    d2: "store_get_by_id store (rep_id r) d1 = (Inr None, d2)" "ok d2" "rows d2 = rows d1" "next_id d2 = next_id d1" by auto
  have unique: "x = r" if "x \<in> set (rows d)" "fold_name (rep_name x) = fold_name n" for x
    using names_law [OF assms(1)] that assms(2,3) by (auto simp: distinct_map inj_on_def)
  then have "find (\<lambda>x. fold_name (rep_name x) = fold_name n \<and> active x) (rows d2) = None"
    unfolding d2(3) rows by (auto simp: find_None_iff dest: in_mark_deleted)
  with get_by_name_law [OF d2(2), of n] obtain d3 where
    d3: "store_get_by_name store n d2 = (Inr None, d3)" "ok d3" "rows d3 = rows d2" "next_id d3 = next_id d2" by auto
  have "fold_name n \<in> fold_name ` rep_name ` set (rows d3)"
    using assms(2,3) d2(3) d3(3) by (simp add: rows)
  moreover have "next_id d3 \<notin> rep_id ` set (rows d3)"
    using assms(5) del(3) d2(3,4) d3(3,4) by (simp add: rows)
  ultimately obtain d4 where
    "store_create store n d3 = (Inl (Repo (RepositoryAlreadyExists None)), d4)" "rows d4 = rows d3"
    using conflict_law [OF d3(2) _ assms(4)] by blast
  with del d2 d3 show ?thesis by auto
qed

text \<open>Deleting again succeeds and leaves the time of the first deletion.\<close>

lemma delete_twice:
  assumes "ok d" and "r \<in> set (rows d)"
  shows "\<exists>d1 d2. store_delete store (rep_id r) d = (Inr True, d1) \<and> store_delete store (rep_id r) d1 = (Inr True, d2)
    \<and> map rep_deleted_at (rows d2) = map rep_deleted_at (rows d1)
    \<and> (\<forall>x\<in>set (rows d1). rep_id x = rep_id r \<longrightarrow> \<not> active x)"
proof -
  have known: "rep_id r \<in> rep_id ` set (rows d)" using assms(2) by simp
  from delete_law [OF assms(1) known] obtain t d1 where
    d1: "store_delete store (rep_id r) d = (Inr True, d1)" "ok d1"
    and rows: "rows d1 = mark_deleted (rep_id r) t (rows d)" by blast
  have known': "rep_id r \<in> rep_id ` set (rows d1)"
    using known by (simp add: rows)
  from delete_law [OF d1(2) known'] obtain t' d2 where
    d2: "store_delete store (rep_id r) d1 = (Inr True, d2)"
    and rows': "rows d2 = mark_deleted (rep_id r) t' (rows d1)" by blast
  have gone: "\<forall>x\<in>set (rows d1). rep_id x = rep_id r \<longrightarrow> \<not> active x"
    by (auto simp: rows dest: in_mark_deleted)
  have "rep_deleted_at (deleted_at_time t' x) = rep_deleted_at x" if "\<not> active x" for x
    using that by (auto simp: deleted_at_time_def active_def)
  with gone have "map rep_deleted_at (rows d2) = map rep_deleted_at (rows d1)"
    by (auto simp: rows' mark_deleted_def)
  with d1 d2 gone show ?thesis by blast
qed

text \<open>The pages of a size, one after the other, are the active rows, newest first.\<close>

lemma pages_cover:
  assumes "ok d" and "0 < n"
  shows "\<exists>pages. (\<forall>i. \<exists>d'. store_list store (int n) (int (i * n)) d = (Inr (pages i), d') \<and> rows d' = rows d)
    \<and> (\<forall>k. length (filter active (rows d)) \<le> k * n \<longrightarrow>
         concat (map (page_items \<circ> pages) [0..<k]) = newest_first (filter active (rows d)))"
proof -
  let ?all = "newest_first (filter active (rows d))"
  let ?page = "\<lambda>i. \<lparr>page_items = take n (drop (i * n) ?all), page_total = int (length (filter active (rows d))),
      page_limit = int n, page_offset = int (i * n)\<rparr>"
  have "\<exists>d'. store_list store (int n) (int (i * n)) d = (Inr (?page i), d') \<and> rows d' = rows d" for i
    using list_law [OF assms(1), of "int n" "int (i * n)"] by (auto simp: page_of_def nat_mult_distrib)
  moreover have "concat (map (page_items \<circ> ?page) [0..<k]) = ?all"
    if "length (filter active (rows d)) \<le> k * n" for k
    using that pages_concat [OF assms(2), of ?all k] by (simp add: comp_def)
  ultimately show ?thesis by (intro exI [of _ ?page]) blast
qed

end

end
