(* ===== verification/Sql_Store.thy ===== *)
theory Sql_Store
  imports Repo_Port
begin

text \<open>
  The persistence adapter (\<open>infrastructure/repositories/store.py\<close>) and the row mapping
  (\<open>infrastructure/database/models/repository.py\<close>). The store builds statements and gives
  them to a session of the database library; the session is an argument, a record of what
  the store calls, and a statement is a value of the type below.
\<close>

section \<open>Statements\<close>

datatype column = Col_Id | Col_Name | Col_Created_At | Col_Updated_At | Col_Deleted_At

datatype criterion = Id_Equals uuid | Name_Equals pystr | Is_Null column

text \<open>\<open>now()\<close>, and \<open>coalesce(column, now())\<close>.\<close>

datatype sql_expr = Now | Coalesce_Now column

datatype statement =
    Select_Rows "criterion list" "(column \<times> bool) list" "int option" "int option"
      \<comment> \<open>where, order by (true is descending), limit, offset\<close>
  | Select_Count "criterion list"
  | Update_Rows "criterion list" "(column \<times> sql_expr) list" \<comment> \<open>where, values; returning the id\<close>
  | Insert_Row pystr \<comment> \<open>returning the columns the database fills in\<close>

datatype db_result = Row_Models "repository list" | Scalar int | Ids "uuid list"

record 'd session =
  ses_execute :: "statement \<Rightarrow> ('d, exn, db_result) action"
  ses_commit :: "('d, exn, unit) action"
  ses_rollback :: "('d, exn, unit) action"

text \<open>What the result objects' accessors return, or raise.\<close>

definition scalars :: "db_result \<Rightarrow> ('d, exn, repository list) action" where
  "scalars r = (case r of Row_Models ms \<Rightarrow> returning ms | _ \<Rightarrow> raising (Other_Exception 0))"

definition scalar_one :: "db_result \<Rightarrow> ('d, exn, int) action" where
  "scalar_one r = (case r of Scalar n \<Rightarrow> returning n | _ \<Rightarrow> raising (Other_Exception 0))"

definition one_or_none :: "'a list \<Rightarrow> ('d, exn, 'a option) action" where
  "one_or_none xs = (case xs of [] \<Rightarrow> returning None | [x] \<Rightarrow> returning (Some x)
     | _ \<Rightarrow> raising (Db MultipleResultsFound))"

definition model_or_none :: "db_result \<Rightarrow> ('d, exn, repository option) action" where
  "model_or_none r = (case r of Row_Models ms \<Rightarrow> one_or_none ms | _ \<Rightarrow> raising (Other_Exception 0))"

definition id_or_none :: "db_result \<Rightarrow> ('d, exn, uuid option) action" where
  "id_or_none r = (case r of Ids is \<Rightarrow> one_or_none is | _ \<Rightarrow> raising (Other_Exception 0))"

section \<open>The row mapping\<close>

text \<open>
  \<open>RepositoryModel\<close>: on every update issued through the mapping, the columns with an
  \<open>onupdate\<close> that the statement does not set itself are set by it.
\<close>

definition ONUPDATE :: "(column \<times> sql_expr) list" where
  "ONUPDATE = [(Col_Updated_At, Now)]"

definition with_onupdate :: "(column \<times> sql_expr) list \<Rightarrow> (column \<times> sql_expr) list" where
  "with_onupdate vals = vals @ filter (\<lambda>(c, e). c \<notin> fst ` set vals) ONUPDATE"

section \<open>Errors\<close>

definition UNIQUE_VIOLATION_SQLSTATE :: pystr where
  "UNIQUE_VIOLATION_SQLSTATE = lit ''23505''"

definition NAME_UNIQUE_INDEX :: pystr where
  "NAME_UNIQUE_INDEX = lit ''ix_repositories_name''"

text \<open>The argument is the integrity error's \<open>orig\<close>.\<close>

definition is_duplicate_name_violation :: "driver_error option \<Rightarrow> bool" where
  "is_duplicate_name_violation orig = (case orig of
       None \<Rightarrow> False
     | Some driver_error \<Rightarrow>
         if sqlstate driver_error \<noteq> Some UNIQUE_VIOLATION_SQLSTATE then False
         else (let constraint_name = (case cause driver_error of None \<Rightarrow> None | Some c \<Rightarrow> c)
               in constraint_name = None \<or> constraint_name = Some NAME_UNIQUE_INDEX))"

fun is_dbapi_error :: "exn \<Rightarrow> bool" where
  "is_dbapi_error (Db (IntegrityError orig)) = True"
| "is_dbapi_error (Db (OtherDBAPIError n)) = True"
| "is_dbapi_error _ = False"

fun duplicate_name :: "exn \<Rightarrow> bool" where
  "duplicate_name (Db (IntegrityError orig)) = is_duplicate_name_violation orig"
| "duplicate_name _ = False"

section \<open>The store\<close>

text \<open>
  \<open>_to_entity\<close> copies the model's columns. An inserted model carries the columns its insert
  returned, which is the one row of the result.
\<close>

definition to_entity :: "repository \<Rightarrow> repository" where
  "to_entity model = \<lparr>rep_id = rep_id model, rep_name = rep_name model, rep_created_at = rep_created_at model,
     rep_updated_at = rep_updated_at model, rep_deleted_at = rep_deleted_at model\<rparr>"

definition flush_new :: "'d session \<Rightarrow> pystr \<Rightarrow> ('d, exn, repository) action" where
  "flush_new session name = and_then (ses_execute session (Insert_Row name)) (\<lambda>r.
     and_then (scalars r) (\<lambda>ms. case ms of [m] \<Rightarrow> returning m | _ \<Rightarrow> raising (Other_Exception 1)))"

definition sql_create :: "'d session \<Rightarrow> pystr \<Rightarrow> ('d, exn, repository) action" where
  "sql_create session name =
     and_then
       (trying (flush_new session name)
          (\<lambda>e. if is_dbapi_error e
               then and_then (ses_rollback session) (\<lambda>_.
                      if duplicate_name e then raising (Repo (RepositoryAlreadyExists None)) else raising e)
               else raising e))
       (\<lambda>model. and_then (ses_commit session) (\<lambda>_. returning (to_entity model)))"

definition find_active :: "'d session \<Rightarrow> criterion \<Rightarrow> ('d, exn, repository option) action" where
  "find_active session criterion =
     and_then (ses_execute session (Select_Rows [criterion, Is_Null Col_Deleted_At] [] None None)) (\<lambda>r.
     and_then (model_or_none r) (\<lambda>model. returning (map_option to_entity model)))"

definition sql_get_by_id :: "'d session \<Rightarrow> uuid \<Rightarrow> ('d, exn, repository option) action" where
  "sql_get_by_id session i = find_active session (Id_Equals i)"

definition sql_get_by_name :: "'d session \<Rightarrow> pystr \<Rightarrow> ('d, exn, repository option) action" where
  "sql_get_by_name session name = find_active session (Name_Equals name)"

definition sql_list :: "'d session \<Rightarrow> int \<Rightarrow> int \<Rightarrow> ('d, exn, repository_page) action" where
  "sql_list session limit offset =
     (let active = [Is_Null Col_Deleted_At];
          page_statement = Select_Rows active [(Col_Created_At, True), (Col_Id, True)] (Some limit) (Some offset);
          total_statement = Select_Count active
      in and_then (ses_execute session page_statement) (\<lambda>page_result.
         and_then (and_then (ses_execute session total_statement) scalar_one) (\<lambda>total.
         and_then (scalars page_result) (\<lambda>models.
         returning \<lparr>page_items = map to_entity models, page_total = total, page_limit = limit, page_offset = offset\<rparr>))))"

definition sql_delete :: "'d session \<Rightarrow> uuid \<Rightarrow> ('d, exn, bool) action" where
  "sql_delete session i =
     (let stmt = Update_Rows [Id_Equals i] (with_onupdate [(Col_Deleted_At, Coalesce_Now Col_Deleted_At)])
      in and_then (ses_execute session stmt) (\<lambda>result.
         and_then (id_or_none result) (\<lambda>deleted_id.
         and_then (ses_commit session) (\<lambda>_. returning (deleted_id \<noteq> None)))))"

definition sql_store :: "'d session \<Rightarrow> 'd repository_store" where
  "sql_store session = \<lparr>store_create = sql_create session, store_get_by_id = sql_get_by_id session,
     store_get_by_name = sql_get_by_name session, store_list = sql_list session,
     store_delete = sql_delete session\<rparr>"

lemma sql_store_simps [simp]:
  "store_create (sql_store ses) = sql_create ses" "store_get_by_id (sql_store ses) = sql_get_by_id ses"
  "store_get_by_name (sql_store ses) = sql_get_by_name ses" "store_list (sql_store ses) = sql_list ses"
  "store_delete (sql_store ses) = sql_delete ses"
  by (simp_all add: sql_store_def)

lemma to_entity_id [simp]: "to_entity m = m"
  by (simp add: to_entity_def)

lemma map_to_entity [simp]: "map to_entity ms = ms" "map_option to_entity x = x"
  by (simp add: map_idI) (cases x; simp)

lemma one_or_none_simps [simp]:
  "one_or_none [] d = (Inr None, d)" "one_or_none [x] d = (Inr (Some x), d)"
  "one_or_none (x # y # zs) d = (Inl (Db MultipleResultsFound), d)"
  by (simp_all add: one_or_none_def)

text \<open>What an insert that the database refuses becomes, for any session.\<close>

lemma sql_create_refused:
  assumes "ses_execute session (Insert_Row name) d = (Inl e, d1)" and "is_dbapi_error e"
    and "ses_rollback session d1 = (Inr (), d2)"
  shows "sql_create session name d =
    (Inl (if duplicate_name e then Repo (RepositoryAlreadyExists None) else e), d2)"
  using assms by (simp add: sql_create_def flush_new_def and_then_def trying_def)

end
