(* ===== verification/Sql_Engine.thy ===== *)
theory Sql_Engine
  imports Sql_Store
begin

text \<open>
  A reference database for the store: the \<open>repositories\<close> table the migrations build
  (\<open>migrations/versions\<close>), with its constraints, under one session. A statement starts a
  transaction when none is open; \<open>now()\<close> is the time of its start. A statement that fails
  aborts the transaction until it is rolled back. A commit may fail too, on either side of the
  moment at which the database made it durable: the session cannot tell. The collation of \<open>CITEXT\<close>, which says when
  two names are the same, is an argument.
\<close>

section \<open>State\<close>

record db =
  committed :: "repository list"
  working :: "repository list"
  tx_start :: "datetime option"
  aborted :: bool
  db_clock :: nat
  db_uuids :: "nat \<Rightarrow> uuid"
  next_uuid :: nat
  db_fault :: "nat \<Rightarrow> exn option"
  commit_fault :: "nat \<Rightarrow> (exn \<times> bool) option" \<comment> \<open>the error, and whether the commit is durable\<close>

definition NAME_LENGTH_CONSTRAINT :: pystr where
  "NAME_LENGTH_CONSTRAINT = lit ''ck_repositories_name_length''"

definition MAX_NAME_LENGTH :: nat where
  "MAX_NAME_LENGTH = 255"

definition violation :: "string \<Rightarrow> pystr \<Rightarrow> exn" where
  "violation state name = Db (IntegrityError (Some \<lparr>sqlstate = Some (lit state), cause = Some (Some name)\<rparr>))"

section \<open>Evaluating statements\<close>

fun column_time :: "column \<Rightarrow> repository \<Rightarrow> datetime option" where
  "column_time Col_Created_At r = Some (rep_created_at r)"
| "column_time Col_Updated_At r = Some (rep_updated_at r)"
| "column_time Col_Deleted_At r = rep_deleted_at r"
| "column_time _ r = None"

fun meets :: "(pystr \<Rightarrow> pystr) \<Rightarrow> criterion \<Rightarrow> repository \<Rightarrow> bool" where
  "meets cit (Id_Equals i) r = (rep_id r = i)"
| "meets cit (Name_Equals n) r = (cit (rep_name r) = cit n)"
| "meets cit (Is_Null Col_Deleted_At) r = (rep_deleted_at r = None)"
| "meets cit (Is_Null _) r = False"

definition meets_all :: "(pystr \<Rightarrow> pystr) \<Rightarrow> criterion list \<Rightarrow> repository \<Rightarrow> bool" where
  "meets_all cit cs r = list_all (\<lambda>c. meets cit c r) cs"

fun sort_value :: "column \<Rightarrow> repository \<Rightarrow> int" where
  "sort_value Col_Id r = uint (rep_id r)"
| "sort_value Col_Created_At r = int (rep_created_at r)"
| "sort_value Col_Updated_At r = int (rep_updated_at r)"
| "sort_value _ r = 0"

definition order_rows :: "(column \<times> bool) list \<Rightarrow> repository list \<Rightarrow> repository list" where
  "order_rows os rs = foldr (\<lambda>(c, descending). sort_key (\<lambda>r. if descending then - sort_value c r else sort_value c r)) os rs"

definition window :: "int option \<Rightarrow> int option \<Rightarrow> 'a list \<Rightarrow> 'a list" where
  "window limit offset rs =
     (let rest = drop (case offset of None \<Rightarrow> 0 | Some m \<Rightarrow> nat m) rs
      in case limit of None \<Rightarrow> rest | Some n \<Rightarrow> take (nat n) rest)"

definition sql_value :: "datetime \<Rightarrow> sql_expr \<Rightarrow> repository \<Rightarrow> datetime" where
  "sql_value now e r = (case e of Now \<Rightarrow> now
     | Coalesce_Now c \<Rightarrow> (case column_time c r of Some t \<Rightarrow> t | None \<Rightarrow> now))"

fun assign :: "column \<Rightarrow> datetime \<Rightarrow> repository \<Rightarrow> repository" where
  "assign Col_Created_At t r = r\<lparr>rep_created_at := t\<rparr>"
| "assign Col_Updated_At t r = r\<lparr>rep_updated_at := t\<rparr>"
| "assign Col_Deleted_At t r = r\<lparr>rep_deleted_at := Some t\<rparr>"
| "assign _ t r = r"

text \<open>The right-hand sides of an update all read the old row.\<close>

definition updated :: "datetime \<Rightarrow> (column \<times> sql_expr) list \<Rightarrow> repository \<Rightarrow> repository" where
  "updated now vals r = foldr (\<lambda>(c, e). assign c (sql_value now e r)) vals r"

definition run_statement :: "(pystr \<Rightarrow> pystr) \<Rightarrow> statement \<Rightarrow> datetime \<Rightarrow> db \<Rightarrow> exn + db_result \<times> db" where
  "run_statement cit stmt now d = (case stmt of
       Select_Rows cs os limit offset \<Rightarrow>
         if (\<exists>n\<in>set_option limit \<union> set_option offset. n < 0) then Inl (Db (OtherDBAPIError 2201))
         else Inr (Row_Models (window limit offset (order_rows os (filter (meets_all cit cs) (working d)))), d)
     | Select_Count cs \<Rightarrow> Inr (Scalar (int (length (filter (meets_all cit cs) (working d)))), d)
     | Update_Rows cs vals \<Rightarrow> Inr (Ids (map rep_id (filter (meets_all cit cs) (working d))),
         d\<lparr>working := map (\<lambda>r. if meets_all cit cs r then updated now vals r else r) (working d)\<rparr>)
     | Insert_Row n \<Rightarrow>
         (let i = db_uuids d (next_uuid d);
              row = \<lparr>rep_id = i, rep_name = n, rep_created_at = now, rep_updated_at = now, rep_deleted_at = None\<rparr>
          in if length n > MAX_NAME_LENGTH then Inl (violation ''23514'' NAME_LENGTH_CONSTRAINT)
             else if list_ex (\<lambda>r. rep_id r = i) (working d) then Inl (violation ''23505'' (lit ''repositories_pkey''))
             else if list_ex (\<lambda>r. cit (rep_name r) = cit n) (working d) then Inl (violation ''23505'' NAME_UNIQUE_INDEX)
             else Inr (Row_Models [row], d\<lparr>working := working d @ [row], next_uuid := Suc (next_uuid d)\<rparr>)))"

definition db_execute :: "(pystr \<Rightarrow> pystr) \<Rightarrow> statement \<Rightarrow> (db, exn, db_result) action" where
  "db_execute cit stmt d =
     (let now = (case tx_start d of None \<Rightarrow> db_clock d | Some t \<Rightarrow> t);
          d1 = d\<lparr>tx_start := Some now, db_clock := Suc (db_clock d)\<rparr>
      in if aborted d then (Inl (Db (OtherDBAPIError 2502)), d1)
         else case db_fault d (db_clock d) of
           Some e \<Rightarrow> (Inl e, d1\<lparr>aborted := True\<rparr>)
         | None \<Rightarrow> (case run_statement cit stmt now d1 of
               Inl e \<Rightarrow> (Inl e, d1\<lparr>aborted := True\<rparr>)
             | Inr (r, d2) \<Rightarrow> (Inr r, d2)))"

definition db_rollback :: "(db, exn, unit) action" where
  "db_rollback d = (Inr (), d\<lparr>working := committed d, tx_start := None, aborted := False\<rparr>)"

text \<open>Committing an aborted transaction rolls it back.\<close>

definition db_commit :: "(db, exn, unit) action" where
  "db_commit d =
     (if aborted d then db_rollback d
      else case commit_fault d (db_clock d) of
        None \<Rightarrow> (Inr (), d\<lparr>committed := working d, tx_start := None\<rparr>)
      | Some (e, durable) \<Rightarrow>
          (Inl e, d\<lparr>committed := (if durable then working d else committed d), aborted := True\<rparr>))"

definition reference_session :: "(pystr \<Rightarrow> pystr) \<Rightarrow> db session" where
  "reference_session cit = \<lparr>ses_execute = db_execute cit, ses_commit = db_commit, ses_rollback = db_rollback\<rparr>"

lemma reference_session_simps [simp]:
  "ses_execute (reference_session cit) = db_execute cit" "ses_commit (reference_session cit) = db_commit"
  "ses_rollback (reference_session cit) = db_rollback"
  by (simp_all add: reference_session_def)

section \<open>The states the contract holds in\<close>

definition table_ok :: "(pystr \<Rightarrow> pystr) \<Rightarrow> repository list \<Rightarrow> bool" where
  "table_ok cit rs \<longleftrightarrow> distinct (map rep_id rs) \<and> distinct (map (cit \<circ> rep_name) rs)
     \<and> (\<forall>n\<in>rep_name ` set rs. length n \<le> MAX_NAME_LENGTH)"

definition db_ok :: "(pystr \<Rightarrow> pystr) \<Rightarrow> db \<Rightarrow> bool" where
  "db_ok cit d \<longleftrightarrow> working d = committed d \<and> \<not> aborted d \<and> db_fault d = (\<lambda>_. None)
     \<and> commit_fault d = (\<lambda>_. None)
     \<and> table_ok cit (committed d)"

definition drawn_id :: "db \<Rightarrow> uuid" where
  "drawn_id d = db_uuids d (next_uuid d)"

lemma db_okD:
  assumes "db_ok cit d"
  shows "working d = committed d" and "\<not> aborted d" and "db_fault d n = None"
    and "table_ok cit (committed d)" and "commit_fault d n = None"
  using assms by (simp_all add: db_ok_def)

lemma db_ok_read:
  "db_ok cit d \<Longrightarrow> db_ok cit (d\<lparr>tx_start := t, db_clock := k\<rparr>)"
  by (simp add: db_ok_def)

lemma drawn_id_upd [simp]:
  "drawn_id (d\<lparr>tx_start := t\<rparr>) = drawn_id d" "drawn_id (d\<lparr>committed := rs\<rparr>) = drawn_id d"
  "drawn_id (d\<lparr>working := rs\<rparr>) = drawn_id d" "drawn_id (d\<lparr>aborted := b\<rparr>) = drawn_id d"
  by (simp_all add: drawn_id_def)

definition tx_now :: "db \<Rightarrow> datetime" where
  "tx_now d = (case tx_start d of None \<Rightarrow> db_clock d | Some t \<Rightarrow> t)"

definition in_tx :: "db \<Rightarrow> db" where
  "in_tx d = d\<lparr>tx_start := Some (tx_now d), db_clock := Suc (db_clock d)\<rparr>"

lemma in_tx_simps [simp]:
  "committed (in_tx d) = committed d" "working (in_tx d) = working d" "aborted (in_tx d) = aborted d"
  "db_uuids (in_tx d) = db_uuids d" "next_uuid (in_tx d) = next_uuid d" "db_fault (in_tx d) = db_fault d"
  "commit_fault (in_tx d) = commit_fault d"
  "drawn_id (in_tx d) = drawn_id d"
  by (simp_all add: in_tx_def drawn_id_def)

lemma db_ok_in_tx: "db_ok cit d \<Longrightarrow> db_ok cit (in_tx d)"
  by (simp add: db_ok_def)

lemma db_execute_ok:
  assumes "db_ok cit d"
  shows "db_execute cit stmt d = (case run_statement cit stmt (tx_now d) (in_tx d) of
      Inl e \<Rightarrow> (Inl e, (in_tx d)\<lparr>aborted := True\<rparr>) | Inr (r, d2) \<Rightarrow> (Inr r, d2))"
  using db_okD(2,3) [OF assms] by (simp add: db_execute_def Let_def in_tx_def tx_now_def split: sum.split)

section \<open>Reads\<close>

lemma meets_all_Cons [simp]: "meets_all cit (c # cs) r \<longleftrightarrow> meets cit c r \<and> meets_all cit cs r"
  by (simp add: meets_all_def)

lemma meets_all_Nil [simp]: "meets_all cit [] r"
  by (simp add: meets_all_def)

lemma order_rows_Nil [simp]: "order_rows [] rs = rs"
  by (simp add: order_rows_def)

lemma order_rows_newest: "order_rows [(Col_Created_At, True), (Col_Id, True)] rs = newest_first rs"
  by (simp add: order_rows_def newest_first_def)

lemma window_None [simp]: "window None None rs = rs"
  by (simp add: window_def Let_def)

lemma filter_at_most_one:
  assumes "\<And>x y. x \<in> set rs \<Longrightarrow> y \<in> set rs \<Longrightarrow> P x \<Longrightarrow> P y \<Longrightarrow> x = y" and "distinct rs"
  shows "filter P rs = (case find P rs of None \<Rightarrow> [] | Some r \<Rightarrow> [r])"
  using assms
proof (induction rs)
  case (Cons a rs)
  show ?case
  proof (cases "P a")
    case True
    have "\<not> P y" if "y \<in> set rs" for y
      using that True Cons.prems by auto
    with True show ?thesis by (simp add: filter_empty_conv)
  next
    case False
    with Cons show ?thesis by auto
  qed
qed simp

lemma find_active_ok:
  assumes "db_ok cit d" and "\<And>x y. x \<in> set (committed d) \<Longrightarrow> y \<in> set (committed d) \<Longrightarrow> meets cit c x \<Longrightarrow> meets cit c y \<Longrightarrow> x = y"
  shows "find_active (reference_session cit) c d = (Inr (find (\<lambda>r. meets cit c r \<and> active r) (committed d)), in_tx d)"
proof -
  have "distinct (committed d)"
    using db_okD(4) [OF assms(1)] by (auto simp: table_ok_def distinct_map)
  moreover have "meets_all cit [c, Is_Null Col_Deleted_At] = (\<lambda>r. meets cit c r \<and> active r)"
    by (simp add: fun_eq_iff active_def)
  ultimately have "filter (meets_all cit [c, Is_Null Col_Deleted_At]) (committed d) =
      (case find (\<lambda>r. meets cit c r \<and> active r) (committed d) of None \<Rightarrow> [] | Some r \<Rightarrow> [r])"
    using assms(2) filter_at_most_one [of "committed d" "\<lambda>r. meets cit c r \<and> active r"] by simp
  then have "db_execute cit (Select_Rows [c, Is_Null Col_Deleted_At] [] None None) d =
      (Inr (Row_Models (case find (\<lambda>r. meets cit c r \<and> active r) (committed d) of None \<Rightarrow> [] | Some r \<Rightarrow> [r])), in_tx d)"
    using db_okD(1) [OF assms(1)] by (simp add: db_execute_ok [OF assms(1)] run_statement_def)
  then show ?thesis
    by (simp add: find_active_def and_then_def model_or_none_def split: option.split)
qed

lemma sql_get_by_id_ok:
  assumes "db_ok cit d"
  shows "sql_get_by_id (reference_session cit) i d = (Inr (find (\<lambda>r. rep_id r = i \<and> active r) (committed d)), in_tx d)"
  using find_active_ok [OF assms, of "Id_Equals i"] db_okD(4) [OF assms]
  by (auto simp: sql_get_by_id_def table_ok_def distinct_map inj_on_def)

lemma sql_get_by_name_ok:
  assumes "db_ok cit d"
  shows "sql_get_by_name (reference_session cit) n d =
    (Inr (find (\<lambda>r. cit (rep_name r) = cit n \<and> active r) (committed d)), in_tx d)"
  using find_active_ok [OF assms, of "Name_Equals n"] db_okD(4) [OF assms]
  by (auto simp: sql_get_by_name_def table_ok_def distinct_map inj_on_def)

lemma sql_list_ok:
  assumes "db_ok cit d" and "0 \<le> limit" and "0 \<le> offset"
  shows "sql_list (reference_session cit) limit offset d =
    (Inr \<lparr>page_items = page_of limit offset (committed d), page_total = int (length (filter active (committed d))),
       page_limit = limit, page_offset = offset\<rparr>, in_tx (in_tx d))"
proof -
  have null: "meets_all cit [Is_Null Col_Deleted_At] = active"
    by (simp add: fun_eq_iff active_def)
  have "db_execute cit (Select_Rows [Is_Null Col_Deleted_At] [(Col_Created_At, True), (Col_Id, True)] (Some limit) (Some offset)) d =
      (Inr (Row_Models (page_of limit offset (committed d))), in_tx d)"
    using db_okD(1) [OF assms(1)] assms(2,3)
    by (simp add: db_execute_ok [OF assms(1)] run_statement_def null order_rows_newest page_of_def window_def)
  moreover have "db_execute cit (Select_Count [Is_Null Col_Deleted_At]) (in_tx d) =
      (Inr (Scalar (int (length (filter active (committed d))))), in_tx (in_tx d))"
    using db_okD(1) [OF assms(1)]
    by (simp add: db_execute_ok [OF db_ok_in_tx [OF assms(1)]] run_statement_def null)
  ultimately show ?thesis
    by (simp add: sql_list_def Let_def and_then_def scalar_one_def scalars_def)
qed

section \<open>Writes\<close>

lemma sql_create_ok:
  assumes "db_ok cit d" and "drawn_id d \<notin> rep_id ` set (committed d)" and "length n \<le> 255" and "cit n \<notin> cit ` rep_name ` set (committed d)"
  shows "\<exists>d'. sql_create (reference_session cit) n d =
      (Inr \<lparr>rep_id = drawn_id d, rep_name = n, rep_created_at = tx_now d, rep_updated_at = tx_now d,
         rep_deleted_at = None\<rparr>, d') \<and> db_ok cit d'
    \<and> committed d' = committed d @ [\<lparr>rep_id = drawn_id d, rep_name = n, rep_created_at = tx_now d,
         rep_updated_at = tx_now d, rep_deleted_at = None\<rparr>]"
proof -
  note ok = db_okD [OF assms(1)]
  let ?r = "\<lparr>rep_id = drawn_id d, rep_name = n, rep_created_at = tx_now d, rep_updated_at = tx_now d,
      rep_deleted_at = None\<rparr>"
  let ?d = "(in_tx d)\<lparr>working := committed d @ [?r], next_uuid := Suc (next_uuid d)\<rparr>"
  have draw: "db_uuids d (next_uuid d) = drawn_id d" by (simp add: drawn_id_def)
  have fresh: "db_uuids d (next_uuid d) \<notin> rep_id ` set (committed d)" using assms(2) by (simp add: draw)
  have "db_execute cit (Insert_Row n) d = (Inr (Row_Models [?r]), ?d)"
    using ok(1) fresh assms(3,4)
    by (auto simp: db_execute_ok [OF assms(1)] run_statement_def Let_def draw list_ex_iff MAX_NAME_LENGTH_def image_iff)
  then have "sql_create (reference_session cit) n d = (Inr ?r, ?d\<lparr>committed := committed d @ [?r], tx_start := None\<rparr>)"
    using ok(2,5) by (simp add: sql_create_def flush_new_def and_then_def trying_def scalars_def db_commit_def)
  moreover have "table_ok cit (committed d @ [?r])"
    using ok(4) assms(2-4) by (auto simp: table_ok_def MAX_NAME_LENGTH_def)
  ultimately show ?thesis
    using ok by (auto simp: db_ok_def)
qed

lemma sql_create_conflict:
  assumes "db_ok cit d" and "drawn_id d \<notin> rep_id ` set (committed d)" and "length n \<le> 255" and "cit n \<in> cit ` rep_name ` set (committed d)"
  shows "\<exists>d'. sql_create (reference_session cit) n d = (Inl (Repo (RepositoryAlreadyExists None)), d')
    \<and> db_ok cit d' \<and> committed d' = committed d"
proof -
  note ok = db_okD [OF assms(1)]
  have draw: "db_uuids d (next_uuid d) = drawn_id d" by (simp add: drawn_id_def)
  have fresh: "db_uuids d (next_uuid d) \<notin> rep_id ` set (committed d)" using assms(2) by (simp add: draw)
  let ?e = "violation ''23505'' NAME_UNIQUE_INDEX"
  have "db_execute cit (Insert_Row n) d = (Inl ?e, (in_tx d)\<lparr>aborted := True\<rparr>)"
    using ok(1) fresh assms(3,4)
    by (auto simp: db_execute_ok [OF assms(1)] run_statement_def Let_def draw list_ex_iff MAX_NAME_LENGTH_def image_iff)
  moreover have "is_dbapi_error ?e" and "duplicate_name ?e"
    by (simp_all add: violation_def is_duplicate_name_violation_def UNIQUE_VIOLATION_SQLSTATE_def)
  ultimately have "sql_create (reference_session cit) n d = (Inl (Repo (RepositoryAlreadyExists None)),
      (in_tx d)\<lparr>working := committed d, tx_start := None, aborted := False\<rparr>)"
    using sql_create_refused [of "reference_session cit" n d ?e "(in_tx d)\<lparr>aborted := True\<rparr>"]
    by (simp add: db_rollback_def)
  then show ?thesis using assms(1) by (simp add: db_ok_def)
qed

lemma soft_delete_assigns:
  "updated t (with_onupdate [(Col_Deleted_At, Coalesce_Now Col_Deleted_At)]) r = deleted_at_time t r"
  by (simp add: updated_def with_onupdate_def ONUPDATE_def sql_value_def deleted_at_time_def split: option.split)

lemma table_ok_mark: "table_ok cit rs \<Longrightarrow> table_ok cit (mark_deleted i t rs)"
proof -
  have "map (cit \<circ> rep_name) (mark_deleted i t rs) = map (cit \<circ> rep_name) rs"
    by (metis map_map map_mark_deleted(2))
  then show "table_ok cit rs \<Longrightarrow> table_ok cit (mark_deleted i t rs)"
    by (simp add: table_ok_def)
qed

lemma sql_delete_ok:
  assumes "db_ok cit d"
  shows "\<exists>d'. sql_delete (reference_session cit) i d = (Inr (i \<in> rep_id ` set (committed d)), d')
    \<and> db_ok cit d' \<and> committed d' = mark_deleted i (tx_now d) (committed d) \<and> drawn_id d' = drawn_id d"
proof -
  note ok = db_okD [OF assms]
  have "distinct (committed d)" using ok(4) by (auto simp: table_ok_def distinct_map)
  then have one: "filter (\<lambda>r. rep_id r = i) (committed d) = (case find (\<lambda>r. rep_id r = i) (committed d) of None \<Rightarrow> [] | Some r \<Rightarrow> [r])"
    using ok(4) by (intro filter_at_most_one) (auto simp: table_ok_def distinct_map inj_on_def)
  have "\<exists>is. map rep_id (filter (\<lambda>r. rep_id r = i) (committed d)) = is
      \<and> id_or_none (Ids is) = (returning (if i \<in> rep_id ` set (committed d) then Some i else None) :: (db, exn, uuid option) action)"
  proof (cases "find (\<lambda>r. rep_id r = i) (committed d)")
    case None
    then have "i \<notin> rep_id ` set (committed d)" by (auto simp: find_None_iff)
    with None one show ?thesis by (simp add: id_or_none_def one_or_none_def)
  next
    case (Some r)
    then have "rep_id r = i" and "r \<in> set (committed d)" by (auto simp: find_Some_iff)
    with Some one show ?thesis by (auto simp: id_or_none_def one_or_none_def)
  qed
  then obtain "is" where ids: "map rep_id (filter (\<lambda>r. rep_id r = i) (committed d)) = is"
    and one: "id_or_none (Ids is) = (returning (if i \<in> rep_id ` set (committed d) then Some i else None) :: (db, exn, uuid option) action)"
    by blast
  have meets: "meets_all cit [Id_Equals i] = (\<lambda>r. rep_id r = i)" by (simp add: fun_eq_iff)
  have "map (\<lambda>r. if meets_all cit [Id_Equals i] r
        then updated (tx_now d) (with_onupdate [(Col_Deleted_At, Coalesce_Now Col_Deleted_At)]) r else r) (committed d)
      = mark_deleted i (tx_now d) (committed d)"
    by (simp add: mark_deleted_def soft_delete_assigns meets del: meets_all_Cons)
  with ids have "db_execute cit (Update_Rows [Id_Equals i] (with_onupdate [(Col_Deleted_At, Coalesce_Now Col_Deleted_At)])) d =
      (Inr (Ids is), (in_tx d)\<lparr>working := mark_deleted i (tx_now d) (committed d)\<rparr>)"
    using ok(1) by (simp add: db_execute_ok [OF assms] run_statement_def meets)
  then have "sql_delete (reference_session cit) i d = (Inr (i \<in> rep_id ` set (committed d)),
      (in_tx d)\<lparr>working := mark_deleted i (tx_now d) (committed d), committed := mark_deleted i (tx_now d) (committed d), tx_start := None\<rparr>)"
    using ok(2,5) one by (simp add: sql_delete_def Let_def and_then_def db_commit_def)
  then show ?thesis
    using assms table_ok_mark [of cit "committed d" i "tx_now d"] by (simp add: db_ok_def)
qed

lemma mark_unknown: "i \<notin> rep_id ` set rs \<Longrightarrow> mark_deleted i t rs = rs"
  by (induction rs) (auto simp: mark_deleted_def)

interpretation sql: repository_contract "sql_store (reference_session cit)" "db_ok cit" committed cit drawn_id
proof
  fix d n i limit offset
  assume ok: "db_ok cit d"
  show "drawn_id d \<notin> rep_id ` set (committed d) \<Longrightarrow> length n \<le> 255 \<Longrightarrow> cit n \<notin> cit ` rep_name ` set (committed d) \<Longrightarrow>
      \<exists>r d'. store_create (sql_store (reference_session cit)) n d = (Inr r, d') \<and> db_ok cit d' \<and> committed d' = committed d @ [r]
        \<and> rep_name r = n \<and> active r \<and> rep_updated_at r = rep_created_at r \<and> rep_id r = drawn_id d"
    using sql_create_ok [OF ok] by (fastforce simp: active_def)
  show "drawn_id d \<notin> rep_id ` set (committed d) \<Longrightarrow> length n \<le> 255 \<Longrightarrow> cit n \<in> cit ` rep_name ` set (committed d) \<Longrightarrow>
      \<exists>d'. store_create (sql_store (reference_session cit)) n d = (Inl (Repo (RepositoryAlreadyExists None)), d') \<and> db_ok cit d' \<and> committed d' = committed d"
    using sql_create_conflict [OF ok] by simp
  show "\<exists>d'. store_get_by_id (sql_store (reference_session cit)) i d = (Inr (find (\<lambda>r. rep_id r = i \<and> active r) (committed d)), d')
        \<and> db_ok cit d' \<and> committed d' = committed d \<and> drawn_id d' = drawn_id d"
    using sql_get_by_id_ok [OF ok] db_ok_in_tx [OF ok] by simp
  show "\<exists>d'. store_get_by_name (sql_store (reference_session cit)) n d =
        (Inr (find (\<lambda>r. cit (rep_name r) = cit n \<and> active r) (committed d)), d') \<and> db_ok cit d' \<and> committed d' = committed d \<and> drawn_id d' = drawn_id d"
    using sql_get_by_name_ok [OF ok] db_ok_in_tx [OF ok] by simp
  show "0 \<le> limit \<Longrightarrow> 0 \<le> offset \<Longrightarrow>
      \<exists>d'. store_list (sql_store (reference_session cit)) limit offset d = (Inr \<lparr>page_items = page_of limit offset (committed d),
          page_total = int (length (filter active (committed d))), page_limit = limit, page_offset = offset\<rparr>, d')
        \<and> db_ok cit d' \<and> committed d' = committed d \<and> drawn_id d' = drawn_id d"
    using sql_list_ok [OF ok] db_ok_in_tx [OF db_ok_in_tx [OF ok]] by simp
  show "i \<in> rep_id ` set (committed d) \<Longrightarrow>
      \<exists>t d'. store_delete (sql_store (reference_session cit)) i d = (Inr True, d') \<and> db_ok cit d'
        \<and> committed d' = mark_deleted i t (committed d) \<and> drawn_id d' = drawn_id d"
    using sql_delete_ok [OF ok, of i] by auto
  show "i \<notin> rep_id ` set (committed d) \<Longrightarrow>
      \<exists>d'. store_delete (sql_store (reference_session cit)) i d = (Inr False, d') \<and> db_ok cit d' \<and> committed d' = committed d \<and> drawn_id d' = drawn_id d"
    using sql_delete_ok [OF ok, of i] by (auto simp: mark_unknown)
  show "distinct (map rep_id (committed d))" and "distinct (map (cit \<circ> rep_name) (committed d))"
    using db_okD(4) [OF ok] by (simp_all add: table_ok_def)
qed

end
