(* ===== verification/Use_Cases.thy ===== *)
theory Use_Cases
  imports Events Repo_Name Sql_Engine
begin

text \<open>
  The repository use cases (\<open>application/use_cases\<close>) over any store of the port, each with the
  records it writes, and their behaviour on the SQL store by interpretation.
\<close>

section \<open>Operations\<close>

definition repository_fields :: "repository \<Rightarrow> (pystr \<times> field_value) list" where
  "repository_fields r = [(lit ''repository_id'', Text (uuid_str (rep_id r))), (lit ''repository_name'', Text (rep_name r))]"

definition create_execute :: "unicode_data \<Rightarrow> 'd repository_store \<Rightarrow> pystr \<Rightarrow> ('d, repository) app" where
  "create_execute u store name = (case repository_name u name of
       Inl e \<Rightarrow> raising e
     | Inr validated_name \<Rightarrow>
         and_then (on_part (store_create store validated_name)) (\<lambda>repository.
         and_then (log_as INFO (lit ''repository_created'') (repository_fields repository)) (\<lambda>_.
         returning repository)))"

definition log_retrieved :: "repository \<Rightarrow> ('d, unit) app" where
  "log_retrieved repository = log_as INFO (lit ''repository_retrieved'') (repository_fields repository)"

definition not_found_by_id :: "uuid \<Rightarrow> exn" where
  "not_found_by_id i = Repo (RepositoryNotFound (Some (lit ''repository not found: id='' @ uuid_str i)))"

definition get_by_id_execute :: "'d repository_store \<Rightarrow> uuid \<Rightarrow> ('d, repository) app" where
  "get_by_id_execute store i =
     and_then (on_part (store_get_by_id store i)) (\<lambda>found. case found of
         None \<Rightarrow> raising (not_found_by_id i)
       | Some repository \<Rightarrow> and_then (log_retrieved repository) (\<lambda>_. returning repository))"

definition get_by_name_execute :: "unicode_data \<Rightarrow> 'd repository_store \<Rightarrow> pystr \<Rightarrow> ('d, repository) app" where
  "get_by_name_execute u store name =
     and_then (on_part (store_get_by_name store name)) (\<lambda>found. case found of
         None \<Rightarrow> raising (Repo (RepositoryNotFound (Some (lit ''repository not found: name='' @ repr_str u name))))
       | Some repository \<Rightarrow> and_then (log_retrieved repository) (\<lambda>_. returning repository))"

definition MIN_LIMIT :: int where
  "MIN_LIMIT = 1"

definition MAX_LIMIT :: int where
  "MAX_LIMIT = 100"

definition MIN_OFFSET :: int where
  "MIN_OFFSET = 0"

definition DEFAULT_LIMIT :: int where
  "DEFAULT_LIMIT = 20"

definition DEFAULT_OFFSET :: int where
  "DEFAULT_OFFSET = 0"

definition clamp_limit :: "int \<Rightarrow> int" where
  "clamp_limit limit = min (max limit MIN_LIMIT) MAX_LIMIT"

definition clamp_offset :: "int \<Rightarrow> int" where
  "clamp_offset offset = max offset MIN_OFFSET"

definition list_execute :: "'d repository_store \<Rightarrow> int \<Rightarrow> int \<Rightarrow> ('d, repository_page) app" where
  "list_execute store limit offset = on_part (store_list store (clamp_limit limit) (clamp_offset offset))"

definition delete_execute :: "'d repository_store \<Rightarrow> uuid \<Rightarrow> ('d, unit) app" where
  "delete_execute store i =
     and_then (on_part (store_delete store i)) (\<lambda>existed.
       if \<not> existed then raising (not_found_by_id i)
       else log_as INFO (lit ''repository_deleted'') [(lit ''repository_id'', Text (uuid_str i))])"

lemma clamp_bounds: "1 \<le> clamp_limit n" "clamp_limit n \<le> 100" "0 \<le> clamp_offset n"
  by (simp_all add: clamp_limit_def clamp_offset_def MIN_LIMIT_def MAX_LIMIT_def MIN_OFFSET_def)

lemma clamp_in_range: "1 \<le> n \<Longrightarrow> n \<le> 100 \<Longrightarrow> clamp_limit n = n" "0 \<le> m \<Longrightarrow> clamp_offset m = m"
  by (simp_all add: clamp_limit_def clamp_offset_def MIN_LIMIT_def MAX_LIMIT_def MIN_OFFSET_def)

lemmas use_case_run = and_then_def on_part_def lifting_def log_retrieved_def

section \<open>Over a store that keeps the contract\<close>

locale repository_use_cases = repository_contract store ok rows fold_name next_id
  for store :: "'d repository_store" and ok :: "'d \<Rightarrow> bool" and rows :: "'d \<Rightarrow> repository list"
    and fold_name :: "pystr \<Rightarrow> pystr" and next_id :: "'d \<Rightarrow> uuid"
begin

lemma create_logs:
  assumes "ok (part w)" and "repository_name u v = Inr n" and "next_id (part w) \<notin> rep_id ` set (rows (part w))"
    and "fold_name n \<notin> fold_name ` rep_name ` set (rows (part w))"
  shows "\<exists>r w'. create_execute u store v w = (Inr r, w') \<and> rep_name r = n \<and> ok (part w')
    \<and> rows (part w') = rows (part w) @ [r] \<and> active r \<and> rep_id r = next_id (part w)
    \<and> journal w' = journal w @ [log_event_of INFO (lit ''repository_created'') (repository_fields r)]"
proof -
  have len: "length n \<le> 255" using assms(2) by (rule accepted_length)
  from create_law [OF assms(1,3) len assms(4)] assms(2) show ?thesis
    by (auto simp: create_execute_def use_case_run)
qed

lemma create_conflicts:
  assumes "ok (part w)" and "repository_name u v = Inr n" and "next_id (part w) \<notin> rep_id ` set (rows (part w))"
    and "fold_name n \<in> fold_name ` rep_name ` set (rows (part w))"
  shows "\<exists>w'. create_execute u store v w = (Inl (Repo (RepositoryAlreadyExists None)), w') \<and> ok (part w')
    \<and> rows (part w') = rows (part w) \<and> journal w' = journal w"
proof -
  have len: "length n \<le> 255" using assms(2) by (rule accepted_length)
  from conflict_law [OF assms(1,3) len assms(4)] assms(2) show ?thesis
    by (auto simp: create_execute_def use_case_run)
qed

lemma get_by_id_logs:
  assumes "ok (part w)"
  shows "\<exists>w'. get_by_id_execute store i w =
      ((case find (\<lambda>r. rep_id r = i \<and> active r) (rows (part w)) of None \<Rightarrow> Inl (not_found_by_id i) | Some r \<Rightarrow> Inr r), w')
    \<and> ok (part w') \<and> rows (part w') = rows (part w) \<and> next_id (part w') = next_id (part w)
    \<and> journal w' = journal w @ (case find (\<lambda>r. rep_id r = i \<and> active r) (rows (part w)) of None \<Rightarrow> []
        | Some r \<Rightarrow> [log_event_of INFO (lit ''repository_retrieved'') (repository_fields r)])"
  using get_by_id_law [OF assms, of i]
  by (auto simp: get_by_id_execute_def use_case_run split: option.split)

lemma get_by_name_logs:
  assumes "ok (part w)"
  shows "\<exists>w'. get_by_name_execute u store n w =
      ((case find (\<lambda>r. fold_name (rep_name r) = fold_name n \<and> active r) (rows (part w)) of
          None \<Rightarrow> Inl (Repo (RepositoryNotFound (Some (lit ''repository not found: name='' @ repr_str u n)))) | Some r \<Rightarrow> Inr r), w')
    \<and> ok (part w') \<and> rows (part w') = rows (part w) \<and> next_id (part w') = next_id (part w)
    \<and> journal w' = journal w @ (case find (\<lambda>r. fold_name (rep_name r) = fold_name n \<and> active r) (rows (part w)) of None \<Rightarrow> []
        | Some r \<Rightarrow> [log_event_of INFO (lit ''repository_retrieved'') (repository_fields r)])"
  using get_by_name_law [OF assms, of n]
  by (auto simp: get_by_name_execute_def use_case_run split: option.split)

lemma list_clamps:
  assumes "ok (part w)"
  shows "\<exists>w'. list_execute store limit offset w =
      (Inr \<lparr>page_items = page_of (clamp_limit limit) (clamp_offset offset) (rows (part w)),
         page_total = int (length (filter active (rows (part w)))), page_limit = clamp_limit limit,
         page_offset = clamp_offset offset\<rparr>, w')
    \<and> ok (part w') \<and> rows (part w') = rows (part w) \<and> next_id (part w') = next_id (part w) \<and> journal w' = journal w"
proof -
  have "0 \<le> clamp_limit limit" "0 \<le> clamp_offset offset"
    using clamp_bounds(1) [of limit] clamp_bounds(3) [of offset] by simp_all
  from list_law [OF assms this] show ?thesis
    by (auto simp: list_execute_def on_part_outcome)
qed

lemma delete_known:
  assumes "ok (part w)" and "i \<in> rep_id ` set (rows (part w))"
  shows "\<exists>t w'. delete_execute store i w = (Inr (), w') \<and> ok (part w') \<and> rows (part w') = mark_deleted i t (rows (part w)) \<and> next_id (part w') = next_id (part w)
    \<and> journal w' = journal w @ [log_event_of INFO (lit ''repository_deleted'') [(lit ''repository_id'', Text (uuid_str i))]]"
  using delete_law [OF assms] by (auto simp: delete_execute_def use_case_run)

lemma delete_unknown:
  assumes "ok (part w)" and "i \<notin> rep_id ` set (rows (part w))"
  shows "\<exists>w'. delete_execute store i w = (Inl (not_found_by_id i), w') \<and> ok (part w')
    \<and> rows (part w') = rows (part w) \<and> next_id (part w') = next_id (part w) \<and> journal w' = journal w"
  using delete_unknown_law [OF assms] by (auto simp: delete_execute_def use_case_run)

end

interpretation sql_use_cases: repository_use_cases "sql_store (reference_session cit)" "db_ok cit" committed cit drawn_id
  by unfold_locales

abbreviation repositories_db :: "(pystr \<Rightarrow> pystr) \<Rightarrow> db repository_store" where
  "repositories_db cit \<equiv> sql_store (reference_session cit)"

end
