(* ===== verification/Repo_Properties.thy ===== *)
theory Repo_Properties
  imports Use_Cases
begin

text \<open>
  The properties of the repository registry: the use cases on the SQL store over the reference
  database, and what the store does when the database fails.
\<close>

section \<open>A concrete database\<close>

text \<open>The comparison of \<open>CITEXT\<close> on ASCII text.\<close>

definition ascii_fold :: "pystr \<Rightarrow> pystr" where
  "ascii_fold s = map (\<lambda>c. if 65 \<le> c \<and> c \<le> 90 then c + 32 else c) s"

definition empty_db :: db where
  "empty_db = \<lparr>committed = [], working = [], tx_start = None, aborted = False, db_clock = 0,
     db_uuids = word_of_nat, next_uuid = 0, db_fault = (\<lambda>_. None),
     commit_fault = (\<lambda>_. None)\<rparr>"

text \<open>A world with this database, and the world after one creation in it.\<close>

definition with_db :: "db \<Rightarrow> db world" where
  "with_db d = \<lparr>part = d, journal = [], bound_context = Map.empty\<rparr>"

definition nginx :: repository where
  "nginx = \<lparr>rep_id = 0, rep_name = lit ''library/nginx'', rep_created_at = 3, rep_updated_at = 3, rep_deleted_at = None\<rparr>"

definition nginx_db :: db where
  "nginx_db = empty_db\<lparr>committed := [nginx], working := [nginx], db_clock := 4, next_uuid := 1\<rparr>"

lemma empty_db_ok: "db_ok cit empty_db" "drawn_id empty_db \<notin> rep_id ` set (committed empty_db)" "committed empty_db = []"
  by (simp_all add: db_ok_def empty_db_def table_ok_def)

lemma nginx_db_ok: "db_ok cit nginx_db" "drawn_id nginx_db \<notin> rep_id ` set (committed nginx_db)" "committed nginx_db = [nginx]"
  by (simp_all add: db_ok_def nginx_db_def empty_db_def table_ok_def nginx_def drawn_id_def MAX_NAME_LENGTH_def)

lemma nginx_name: "repository_name plain_unicode (lit ''library/nginx'') = Inr (lit ''library/nginx'')"
  by code_simp

section \<open>Failures of the database\<close>

lemma execute_Inl: "db_execute cit stmt d = (Inl e, d') \<Longrightarrow> committed d' = committed d"
  by (auto simp: db_execute_def Let_def split: if_splits option.splits sum.splits prod.splits)

lemma execute_Insert:
  assumes "db_execute cit (Insert_Row n) d = (Inr r, d')" and "working d = committed d"
  shows "\<exists>row. r = Row_Models [row] \<and> working d' = committed d @ [row] \<and> committed d' = committed d \<and> \<not> aborted d'
    \<and> rep_name row = n \<and> commit_fault d' = commit_fault d"
  using assms by (auto simp: db_execute_def run_statement_def Let_def split: if_splits option.splits)

lemma execute_Update:
  assumes "db_execute cit (Update_Rows cs vals) d = (Inr r, d')"
  shows "committed d' = committed d \<and> \<not> aborted d' \<and> commit_fault d' = commit_fault d
    \<and> working d' = map (\<lambda>x. if meets_all cit cs x then updated (tx_now d) vals x else x) (working d)"
  using assms by (auto simp: db_execute_def run_statement_def Let_def tx_now_def split: if_splits option.splits)

lemma commit_cases:
  assumes "\<not> aborted d"
  obtains (performed) "db_commit d = (Inr (), d\<lparr>committed := working d, tx_start := None\<rparr>)"
  | (failed) e durable where "commit_fault d (db_clock d) = Some (e, durable)"
      and "db_commit d = (Inl e, d\<lparr>committed := (if durable then working d else committed d), aborted := True\<rparr>)"
  using assms by (cases "commit_fault d (db_clock d)") (auto simp: db_commit_def)

text \<open>
  What a failed operation leaves: nothing of it, in a session that is usable again after a
  database error; or, when it was the commit that failed, all of it or nothing, in a session that
  has to be rolled back.
\<close>

definition left_by_failure :: "db \<Rightarrow> repository list \<Rightarrow> exn \<Rightarrow> db \<Rightarrow> bool" where
  "left_by_failure d rows e d' \<longleftrightarrow>
     (\<exists>k durable. commit_fault d k = Some (e, durable) \<and> aborted d'
        \<and> committed d' = (if durable then rows else committed d))"

lemma create_under_faults:
  assumes "working d = committed d"
  shows "case sql_create (reference_session cit) n d of
      (Inr r, d') \<Rightarrow> rep_name r = n \<and> committed d' = committed d @ [r]
    | (Inl e, d') \<Rightarrow> committed d' = committed d \<and> (is_dbapi_error e \<longrightarrow> \<not> aborted d' \<and> working d' = committed d')
        \<or> (\<exists>r. rep_name r = n \<and> left_by_failure d (committed d @ [r]) e d')"
proof -
  obtain q d1 where run: "db_execute cit (Insert_Row n) d = (q, d1)" by fastforce
  show ?thesis
  proof (cases q)
    case (Inl e)
    with run execute_Inl have same: "committed d1 = committed d" by blast
    from run Inl same show ?thesis
      by (simp add: sql_create_def flush_new_def and_then_def trying_def db_rollback_def)
  next
    case (Inr r)
    with run execute_Insert [OF _ assms] obtain row where
      row: "r = Row_Models [row]" "working d1 = committed d @ [row]" "committed d1 = committed d" "rep_name row = n"
        "commit_fault d1 = commit_fault d" and live: "\<not> aborted d1" by blast
    from live show ?thesis
    proof (cases rule: commit_cases)
      case performed
      with run Inr row show ?thesis
        by (simp add: sql_create_def flush_new_def and_then_def trying_def scalars_def)
    next
      case (failed e durable)
      let ?d = "d1\<lparr>committed := (if durable then working d1 else committed d1), aborted := True\<rparr>"
      have "sql_create (reference_session cit) n d = (Inl e, ?d)"
        using run Inr row(1) failed(2) by (simp add: sql_create_def flush_new_def and_then_def trying_def scalars_def)
      moreover have "left_by_failure d (committed d @ [row]) e ?d"
        using failed(1) unfolding left_by_failure_def row(5) by (fastforce simp: row(2,3))
      ultimately show ?thesis using row(4) by fastforce
    qed
  qed
qed

lemma delete_under_faults:
  assumes "working d = committed d"
  shows "case sql_delete (reference_session cit) i d of
      (Inr b, d') \<Rightarrow> committed d' = mark_deleted i (tx_now d) (committed d)
    | (Inl e, d') \<Rightarrow> committed d' = committed d \<or> left_by_failure d (mark_deleted i (tx_now d) (committed d)) e d'"
proof -
  let ?stmt = "Update_Rows [Id_Equals i] (with_onupdate [(Col_Deleted_At, Coalesce_Now Col_Deleted_At)])"
  obtain q d1 where run: "db_execute cit ?stmt d = (q, d1)" by fastforce
  show ?thesis
  proof (cases q)
    case (Inl e)
    with run execute_Inl have "committed d1 = committed d" by blast
    with run Inl show ?thesis by (simp add: sql_delete_def and_then_def)
  next
    case (Inr x)
    note up = execute_Update [OF run [unfolded Inr]]
    have after: "working d1 = mark_deleted i (tx_now d) (committed d)"
      using up assms by (simp add: mark_deleted_def soft_delete_assigns)
    obtain y where id: "(id_or_none x :: (db, exn, uuid option) action) = y" by simp
    have "(\<exists>a. y = returning a) \<or> (\<exists>e. y = raising e)"
      unfolding id [symmetric]
      by (auto simp: id_or_none_def one_or_none_def split: db_result.split list.split)
    then consider (got) a where "y = returning a" | (lost) e where "y = raising e" by blast
    then show ?thesis
    proof cases
      case got
      from up have "\<not> aborted d1" by blast
      then show ?thesis
      proof (cases rule: commit_cases)
        case performed
        with run Inr after id got show ?thesis by (simp add: sql_delete_def and_then_def)
      next
        case (failed e durable)
        let ?d = "d1\<lparr>committed := (if durable then working d1 else committed d1), aborted := True\<rparr>"
        have "sql_delete (reference_session cit) i d = (Inl e, ?d)"
          using run Inr failed(2) id got by (simp add: sql_delete_def and_then_def)
        moreover have "left_by_failure d (mark_deleted i (tx_now d) (committed d)) e ?d"
          using failed(1) up unfolding left_by_failure_def by (fastforce simp: after)
        ultimately show ?thesis by fastforce
      qed
    next
      case lost
      with run Inr up id show ?thesis by (simp add: sql_delete_def and_then_def)
    qed
  qed
qed

section \<open>Properties\<close>

text \<open>C11. A created repository is found again: creating a valid name that no row holds returns a row with
  the validated name and a new identifier, fetching by that identifier and by any spelling that the
  database compares equal returns the same row, and the three operations journal one record each.\<close>

theorem create_then_fetch:
  assumes "db_ok cit (part w)" and "repository_name u v = Inr n" and "drawn_id (part w) \<notin> rep_id ` set (committed (part w))"
    and "cit n \<notin> cit ` rep_name ` set (committed (part w))" and "cit n' = cit n"
  shows "\<exists>r w1 w2 w3. create_execute u (repositories_db cit) v w = (Inr r, w1) \<and> rep_name r = n
    \<and> rep_id r = drawn_id (part w) \<and> committed (part w1) = committed (part w) @ [r]
    \<and> get_by_id_execute (repositories_db cit) (rep_id r) w1 = (Inr r, w2)
    \<and> get_by_name_execute u (repositories_db cit) n' w2 = (Inr r, w3)
    \<and> map ev_name (journal w3) = map ev_name (journal w) @
        [lit ''repository_created'', lit ''repository_retrieved'', lit ''repository_retrieved'']"
proof -
  from sql_use_cases.create_logs [OF assms(1-4)] obtain r w1 where
    c: "create_execute u (repositories_db cit) v w = (Inr r, w1)" "rep_name r = n" "db_ok cit (part w1)"
      "committed (part w1) = committed (part w) @ [r]" "active r" "rep_id r = drawn_id (part w)"
    and j1: "journal w1 = journal w @ [log_event_of INFO (lit ''repository_created'') (repository_fields r)]" by blast
  have "find (\<lambda>x. rep_id x = rep_id r \<and> active x) (committed (part w)) = None"
    using c(6) assms(3) by (auto simp: find_None_iff image_iff)
  then have f1: "find (\<lambda>x. rep_id x = rep_id r \<and> active x) (committed (part w1)) = Some r"
    using c(4,5) by (simp add: find_append_Some)
  from sql_use_cases.get_by_id_logs [OF c(3), of "rep_id r", unfolded f1 option.case] obtain w2 where
    g: "get_by_id_execute (repositories_db cit) (rep_id r) w1 = (Inr r, w2)" "db_ok cit (part w2)"
      "committed (part w2) = committed (part w1)"
    and j2: "journal w2 = journal w1 @ [log_event_of INFO (lit ''repository_retrieved'') (repository_fields r)]" by blast
  have "find (\<lambda>x. cit (rep_name x) = cit n' \<and> active x) (committed (part w)) = None"
    using assms(4,5) by (auto simp: find_None_iff image_iff)
  then have f2: "find (\<lambda>x. cit (rep_name x) = cit n' \<and> active x) (committed (part w2)) = Some r"
    using c(2,4,5) g(3) assms(5) by (simp add: find_append_Some)
  from sql_use_cases.get_by_name_logs [OF g(2), of u n', unfolded f2 option.case] obtain w3 where
    "get_by_name_execute u (repositories_db cit) n' w2 = (Inr r, w3)"
    and j3: "journal w3 = journal w2 @ [log_event_of INFO (lit ''repository_retrieved'') (repository_fields r)]" by blast
  with c g j1 j2 show ?thesis by (auto simp: log_event_of_def intro!: exI)
qed

lemma create_then_fetch_witness:
  "\<exists>r w1 w2 w3. create_execute plain_unicode (repositories_db ascii_fold) (lit ''library/nginx'') (with_db empty_db) = (Inr r, w1)
    \<and> get_by_id_execute (repositories_db ascii_fold) (rep_id r) w1 = (Inr r, w2)
    \<and> get_by_name_execute plain_unicode (repositories_db ascii_fold) (lit ''Library/NGINX'') w2 = (Inr r, w3)
    \<and> length (journal w3) = 3"
proof -
  have same: "ascii_fold (lit ''Library/NGINX'') = ascii_fold (lit ''library/nginx'')" by code_simp
  have "db_ok ascii_fold (part (with_db empty_db))"
    and "drawn_id (part (with_db empty_db)) \<notin> rep_id ` set (committed (part (with_db empty_db)))"
    and "ascii_fold (lit ''library/nginx'') \<notin> ascii_fold ` rep_name ` set (committed (part (with_db empty_db)))"
    by (simp_all add: with_db_def empty_db_ok)
  from create_then_fetch [OF this(1) nginx_name this(2,3) same] show ?thesis
    by (auto simp: with_db_def dest: arg_cong [of "map _ _" _ length])
qed

text \<open>C26. A name is taken by every row that compares equal to it, deleted or not: creating it raises
  \<open>RepositoryAlreadyExists\<close> without a message, and neither the table nor the journal changes.\<close>

theorem taken_name_conflicts:
  assumes "db_ok cit (part w)" and "repository_name u v = Inr n" and "drawn_id (part w) \<notin> rep_id ` set (committed (part w))"
    and "r \<in> set (committed (part w))" and "cit (rep_name r) = cit n"
  shows "\<exists>w'. create_execute u (repositories_db cit) v w = (Inl (Repo (RepositoryAlreadyExists None)), w')
    \<and> committed (part w') = committed (part w) \<and> db_ok cit (part w') \<and> journal w' = journal w"
proof -
  have "cit n \<in> cit ` rep_name ` set (committed (part w))" using assms(4,5) by (metis image_eqI)
  from sql_use_cases.create_conflicts [OF assms(1-3) this] show ?thesis by blast
qed

lemma taken_name_conflicts_witness:
  "\<exists>w'. create_execute plain_unicode (repositories_db ascii_fold) (lit ''library/nginx'') (with_db nginx_db)
    = (Inl (Repo (RepositoryAlreadyExists None)), w') \<and> committed (part w') = [nginx]"
proof -
  have "db_ok ascii_fold (part (with_db nginx_db))"
    and "drawn_id (part (with_db nginx_db)) \<notin> rep_id ` set (committed (part (with_db nginx_db)))"
    using nginx_db_ok(1,2) by (simp_all only: with_db_def world.select_convs not_False_eq_True)
  moreover have "nginx \<in> set (committed (part (with_db nginx_db)))"
    by (simp add: with_db_def nginx_db_ok)
  moreover have "ascii_fold (rep_name nginx) = ascii_fold (lit ''library/nginx'')"
    by (simp add: nginx_def)
  ultimately have "db_ok ascii_fold (part (with_db nginx_db))"
    and "drawn_id (part (with_db nginx_db)) \<notin> rep_id ` set (committed (part (with_db nginx_db)))"
    and "nginx \<in> set (committed (part (with_db nginx_db)))" and "ascii_fold (rep_name nginx) = ascii_fold (lit ''library/nginx'')" .
  from taken_name_conflicts [OF this(1) nginx_name this(2-4)] show ?thesis
    by (auto simp: with_db_def nginx_db_ok)
qed

text \<open>Between accepted names the case-insensitive comparison decides nothing: when the collation leaves
  lower-case names as they are, two accepted names are the same for the database exactly if they
  are the same text.\<close>

theorem accepted_names_compare_exactly:
  assumes "\<And>s. set s \<subseteq> {c. name_char c \<or> c = 47} \<Longrightarrow> cit s = s"
    and "repository_name u v = Inr n" and "repository_name u v' = Inr n'"
  shows "cit n = cit n' \<longleftrightarrow> n = n'"
proof -
  have "set m \<subseteq> {c. name_char c \<or> c = 47}" if "repository_name u x = Inr m" for x m
    using valid_name_chars [OF that] by (auto simp: COMPONENT_SEPARATOR_def)
  with assms show ?thesis by metis
qed

lemma accepted_names_compare_exactly_witness:
  "ascii_fold (lit ''library/nginx'') = ascii_fold (lit ''library/nginx'') \<longleftrightarrow> lit ''library/nginx'' = lit ''library/nginx''"
proof (rule accepted_names_compare_exactly [OF _ nginx_name nginx_name])
  fix s :: pystr assume "set s \<subseteq> {c. name_char c \<or> c = 47}"
  then show "ascii_fold s = s"
    by (auto simp: ascii_fold_def name_char_def is_alnum_def intro!: map_idI)
qed

text \<open>A refused name reaches nothing: for any store whatever, creating a name the grammar refuses raises
  the refusal and leaves the whole world, store and journal, as it was.\<close>

theorem refused_name_touches_nothing:
  assumes "repository_name u v = Inl e"
  shows "create_execute u store v w = (Inl e, w)"
  using assms by (simp add: create_execute_def)

lemma refused_name_touches_nothing_witness:
  "\<exists>e. create_execute plain_unicode (repositories_db ascii_fold) (lit ''a//b'') (with_db empty_db) = (Inl e, with_db empty_db)"
proof -
  have "repository_name plain_unicode (lit ''a//b'') =
      Inl (Repo (InvalidRepositoryName (Some (lit ''invalid repository name: '' @ repr_str plain_unicode (lit ''a//b'')))))"
    by code_simp
  from refused_name_touches_nothing [OF this] show ?thesis by blast
qed

text \<open>C28. A page is bounded and ordered whatever was asked: its limit is the request's clamped to 1..100 and
  its offset the request's or 0, it holds at most that many rows, all of them active, newest first
  with ties broken by descending identifier, and the total counts all active rows.\<close>

theorem listed_page:
  assumes "db_ok cit (part w)"
  shows "\<exists>p w'. list_execute (repositories_db cit) limit offset w = (Inr p, w')
    \<and> page_limit p = max 1 (min limit 100) \<and> page_offset p = max offset 0
    \<and> int (length (page_items p)) \<le> page_limit p
    \<and> sorted_wrt newer (page_items p) \<and> distinct (page_items p)
    \<and> set (page_items p) \<subseteq> {r. r \<in> set (committed (part w)) \<and> active r}
    \<and> page_total p = int (length (filter active (committed (part w))))
    \<and> committed (part w') = committed (part w) \<and> journal w' = journal w"
proof -
  let ?n = "clamp_limit limit" and ?m = "clamp_offset offset" and ?rows = "committed (part w)"
  let ?items = "page_of ?n ?m ?rows"
  have "distinct ?rows" using db_okD(4) [OF assms] by (auto simp: table_ok_def distinct_map)
  then have "distinct ?items" by (simp add: page_of_def)
  moreover have "sorted_wrt newer ?items"
    using newest_first_sorted by (simp add: page_of_def sorted_wrt_take sorted_wrt_drop)
  moreover have "set ?items \<subseteq> {r. r \<in> set ?rows \<and> active r}"
    by (auto simp: page_of_def dest!: in_set_takeD in_set_dropD)
  moreover have "int (length ?items) \<le> ?n"
    using clamp_bounds(1) [of limit] by (simp add: page_of_def)
  moreover have "?n = max 1 (min limit 100)" "?m = max offset 0"
    by (auto simp: clamp_limit_def clamp_offset_def MIN_LIMIT_def MAX_LIMIT_def MIN_OFFSET_def)
  ultimately show ?thesis
    using sql_use_cases.list_clamps [OF assms, of limit offset] by fastforce
qed

lemma listed_page_witness:
  "\<exists>p w'. list_execute (repositories_db ascii_fold) 1000 (-5) (with_db nginx_db) = (Inr p, w')
    \<and> page_limit p = 100 \<and> page_offset p = 0 \<and> page_total p = 1"
proof -
  have "db_ok ascii_fold (part (with_db nginx_db))" by (simp add: with_db_def nginx_db_ok)
  from listed_page [OF this, of 1000 "-5"] show ?thesis
    by (auto simp: with_db_def nginx_db_ok active_def nginx_def)
qed

text \<open>C29. The pages cover the collection: reading page after page of one size yields every active row exactly
  once, newest first.\<close>

theorem pages_cover_collection:
  assumes "db_ok cit d" and "0 < n"
  shows "\<exists>pages. (\<forall>i. \<exists>d'. sql_list (reference_session cit) (int n) (int (i * n)) d = (Inr (pages i), d'))
    \<and> concat (map (page_items \<circ> pages) [0..<length (filter active (committed d))]) = newest_first (filter active (committed d))"
proof -
  from sql.pages_cover [OF assms] obtain pages where
    p: "\<forall>i. \<exists>d'. store_list (repositories_db cit) (int n) (int (i * n)) d = (Inr (pages i), d') \<and> committed d' = committed d"
    and all: "\<forall>k. length (filter active (committed d)) \<le> k * n \<longrightarrow>
         concat (map (page_items \<circ> pages) [0..<k]) = newest_first (filter active (committed d))" by blast
  have "length (filter active (committed d)) \<le> length (filter active (committed d)) * n" using assms(2) by simp
  with all have "concat (map (page_items \<circ> pages) [0..<length (filter active (committed d))])
      = newest_first (filter active (committed d))" by blast
  with p show ?thesis by (metis sql_store_simps(4))
qed

lemma pages_cover_collection_witness:
  "\<exists>pages. (\<forall>i. \<exists>d'. sql_list (reference_session ascii_fold) 2 (int (i * 2)) nginx_db = (Inr (pages i), d'))
    \<and> concat (map (page_items \<circ> pages) [0..<length (filter active (committed nginx_db))]) = newest_first (filter active (committed nginx_db))"
  using pages_cover_collection [OF nginx_db_ok(1), of 2 ascii_fold] by simp

text \<open>C27. Deletion is idempotent and final: deleting a known repository twice succeeds twice, the second time
  without moving the time of the first, after it the repository is not found by identifier, and its
  row still holds its name.\<close>

theorem delete_is_idempotent:
  assumes "db_ok cit (part w)" and "r \<in> set (committed (part w))"
  shows "\<exists>w1 w2 w3. delete_execute (repositories_db cit) (rep_id r) w = (Inr (), w1)
    \<and> delete_execute (repositories_db cit) (rep_id r) w1 = (Inr (), w2)
    \<and> get_by_id_execute (repositories_db cit) (rep_id r) w2 = (Inl (not_found_by_id (rep_id r)), w3)
    \<and> map rep_deleted_at (committed (part w2)) = map rep_deleted_at (committed (part w1))
    \<and> map rep_name (committed (part w3)) = map rep_name (committed (part w))
    \<and> map rep_created_at (committed (part w3)) = map rep_created_at (committed (part w))"
proof -
  have "rep_id r \<in> rep_id ` set (committed (part w))" using assms(2) by simp
  from sql_use_cases.delete_known [OF assms(1) this] obtain t w1 where
    w1: "delete_execute (repositories_db cit) (rep_id r) w = (Inr (), w1)" "db_ok cit (part w1)"
      "committed (part w1) = mark_deleted (rep_id r) t (committed (part w))" by blast
  have "rep_id r \<in> rep_id ` set (committed (part w1))" using assms(2) by (simp add: w1(3))
  from sql_use_cases.delete_known [OF w1(2) this] obtain t' w2 where
    w2: "delete_execute (repositories_db cit) (rep_id r) w1 = (Inr (), w2)" "db_ok cit (part w2)"
      "committed (part w2) = mark_deleted (rep_id r) t' (committed (part w1))" by blast
  have gone: "find (\<lambda>x. rep_id x = rep_id r \<and> active x) (committed (part w2)) = None"
    by (auto simp: find_None_iff w2(3) dest: in_mark_deleted)
  from sql_use_cases.get_by_id_logs [OF w2(2), of "rep_id r", unfolded gone option.case] obtain w3 where
    w3: "get_by_id_execute (repositories_db cit) (rep_id r) w2 = (Inl (not_found_by_id (rep_id r)), w3)"
      "committed (part w3) = committed (part w2)" by blast
  have "\<not> active x" if "x \<in> set (committed (part w1))" "rep_id x = rep_id r" for x
    using that by (auto simp: w1(3) dest: in_mark_deleted)
  then have "rep_deleted_at x \<noteq> None" if "x \<in> set (committed (part w1))" "rep_id x = rep_id r" for x
    using that unfolding active_def by blast
  then have "map rep_deleted_at (committed (part w2)) = map rep_deleted_at (committed (part w1))"
    by (fastforce simp: w2(3) mark_deleted_def [of _ t'] deleted_at_time_def split: option.split)
  with w1 w2 w3 show ?thesis by auto
qed

lemma delete_is_idempotent_witness:
  "\<exists>w1 w2. delete_execute (repositories_db ascii_fold) 0 (with_db nginx_db) = (Inr (), w1)
    \<and> delete_execute (repositories_db ascii_fold) 0 w1 = (Inr (), w2)
    \<and> map rep_deleted_at (committed (part w2)) = map rep_deleted_at (committed (part w1))"
proof -
  have "db_ok ascii_fold (part (with_db nginx_db))" and "nginx \<in> set (committed (part (with_db nginx_db)))"
    by (simp_all add: with_db_def nginx_db_ok)
  from delete_is_idempotent [OF this] show ?thesis by (auto simp: nginx_def)
qed

text \<open>C30. A write is all or nothing, whatever the database or a cancellation does to it. A creation either
  returns a row of that name, which is committed, or raises with the table as it was; after a
  database error of its insert the transaction is rolled back and the session usable. Only when the
  commit itself fails can the row, whole, have become durable in spite of the error. The same holds
  of a deletion and its mark.\<close>

theorem create_atomic_under_database_errors:
  assumes "working d = committed d"
  shows "(case sql_create (reference_session cit) n d of
      (Inr r, d') \<Rightarrow> rep_name r = n \<and> committed d' = committed d @ [r]
    | (Inl e, d') \<Rightarrow> committed d' = committed d \<and> (is_dbapi_error e \<longrightarrow> \<not> aborted d' \<and> working d' = committed d')
        \<or> (\<exists>r. rep_name r = n \<and> left_by_failure d (committed d @ [r]) e d'))
    \<and> (case sql_delete (reference_session cit) i d of
      (Inr b, d') \<Rightarrow> committed d' = mark_deleted i (tx_now d) (committed d)
    | (Inl e, d') \<Rightarrow> committed d' = committed d \<or> left_by_failure d (mark_deleted i (tx_now d) (committed d)) e d')"
  by (rule conjI [OF create_under_faults [OF assms] delete_under_faults [OF assms]])

text \<open>The insert is refused, and the commit is cancelled after it became durable.\<close>

lemma create_atomic_under_database_errors_witness:
  "(case sql_create (reference_session ascii_fold) (lit ''a'') (nginx_db\<lparr>db_fault := (\<lambda>_. Some (Db (OtherDBAPIError 8006)))\<rparr>) of
      (Inr r, d') \<Rightarrow> False
    | (Inl e, d') \<Rightarrow> committed d' = [nginx] \<and> \<not> aborted d')
   \<and> (case sql_create (reference_session ascii_fold) (lit ''a'') (empty_db\<lparr>commit_fault := (\<lambda>_. Some (CancelledError, True))\<rparr>) of
      (Inr r, d') \<Rightarrow> False
    | (Inl e, d') \<Rightarrow> e = CancelledError \<and> map rep_name (committed d') = [lit ''a''])"
proof -
  let ?d = "empty_db\<lparr>commit_fault := (\<lambda>_. Some (CancelledError, True))\<rparr>"
  note run = sql_create_def flush_new_def and_then_def trying_def db_execute_def Let_def db_rollback_def
    run_statement_def scalars_def db_commit_def empty_db_def MAX_NAME_LENGTH_def
  have "case sql_create (reference_session ascii_fold) (lit ''a'') ?d of
      (Inr r, d') \<Rightarrow> False | (Inl e, d') \<Rightarrow> committed d' \<noteq> [] \<and> e = CancelledError"
    by (simp add: run lit_def)
  moreover have "working ?d = committed ?d" by (simp add: empty_db_def)
  moreover have "working (nginx_db\<lparr>db_fault := (\<lambda>_. Some (Db (OtherDBAPIError 8006)))\<rparr>) =
      committed (nginx_db\<lparr>db_fault := (\<lambda>_. Some (Db (OtherDBAPIError 8006)))\<rparr>)"
    by (simp add: nginx_db_def)
  ultimately show ?thesis
    using create_atomic_under_database_errors [where d = ?d and cit = ascii_fold and n = "lit ''a''"]
      create_atomic_under_database_errors [where d = "nginx_db\<lparr>db_fault := (\<lambda>_. Some (Db (OtherDBAPIError 8006)))\<rparr>"
        and cit = ascii_fold and n = "lit ''a''"]
    by (auto simp: left_by_failure_def nginx_db_def run split: prod.splits sum.splits if_splits)
qed

text \<open>Only a collision on the name index is called a name conflict, in any session: an insert refused with a
  database error is rolled back and then raises \<open>RepositoryAlreadyExists\<close> exactly if the error is a
  unique violation of the name index or of a constraint the driver does not name; every other
  database error is raised as it is.\<close>

theorem only_name_collisions_are_conflicts:
  assumes "ses_execute session (Insert_Row name) d = (Inl (Db (IntegrityError orig)), d1)"
    and "ses_rollback session d1 = (Inr (), d2)"
  shows "sql_create session name d =
    (Inl (if \<exists>e. orig = Some e \<and> sqlstate e = Some (lit ''23505'')
             \<and> cause e \<in> {None, Some None, Some (Some (lit ''ix_repositories_name''))}
          then Repo (RepositoryAlreadyExists None) else Db (IntegrityError orig)), d2)"
  using sql_create_refused [OF assms(1) _ assms(2)]
  by (auto simp: is_duplicate_name_violation_def UNIQUE_VIOLATION_SQLSTATE_def NAME_UNIQUE_INDEX_def Let_def
      split: option.splits)

lemma only_name_collisions_are_conflicts_witness:
  "sql_create \<lparr>ses_execute = (\<lambda>stmt d. (Inl (violation ''23505'' (lit ''repositories_pkey'')), d)),
      ses_commit = returning (), ses_rollback = returning ()\<rparr> (lit ''a'') (0 :: nat) =
    (Inl (violation ''23505'' (lit ''repositories_pkey'')), 0)"
proof -
  have ne: "lit ''repositories_pkey'' \<noteq> lit ''ix_repositories_name''" by (simp add: lit_def)
  let ?s = "\<lparr>ses_execute = (\<lambda>stmt d. (Inl (violation ''23505'' (lit ''repositories_pkey'')), d)),
      ses_commit = returning (), ses_rollback = returning ()\<rparr> :: nat session"
  from only_name_collisions_are_conflicts [of ?s "lit ''a''" 0
      "Some \<lparr>sqlstate = Some (lit ''23505''), cause = Some (Some (lit ''repositories_pkey''))\<rparr>" 0 0] ne
  show ?thesis by (simp add: violation_def)
qed

end
