(* ===== verification/Sql_Concurrent.thy ===== *)
theory Sql_Concurrent
  imports Use_Cases
begin

text \<open>
  The store among other sessions. Many requests and processes work on the \<open>repositories\<close> table, each
  in a session of its own, at the isolation PostgreSQL has by default: a statement sees what is
  committed when it starts, and the session's own changes. What other sessions commit between two
  statements is a step relation on the committed table. A session holds locks until it
  commits or rolls back: nobody else can commit a row whose name or identifier equals one it has
  inserted, or change a row it has changed; whoever tries waits, that is, commits later or before. The
  session's own statements and commits may fail, or be cancelled, unless the parameter \<open>calm\<close> says
  that the database refuses nothing of its own accord.
\<close>

section \<open>The steps of the sessions\<close>

text \<open>\<open>ns\<close> are the names and \<open>is\<close> the identifiers that someone else holds.\<close>

inductive registry_step :: "(pystr \<Rightarrow> pystr) \<Rightarrow> pystr list \<Rightarrow> uuid list \<Rightarrow> repository list \<Rightarrow> repository list \<Rightarrow> bool"
  for cit ns "is" where
  Add: "rep_id r \<notin> rep_id ` set t \<union> set is \<Longrightarrow> cit (rep_name r) \<notin> cit ` (rep_name ` set t \<union> set ns)
    \<Longrightarrow> length (rep_name r) \<le> MAX_NAME_LENGTH \<Longrightarrow> active r \<Longrightarrow> registry_step cit ns is t (t @ [r])"
| Mark: "i \<notin> set is \<Longrightarrow> registry_step cit ns is t (mark_deleted i now t)"

abbreviation registry_evolves :: "(pystr \<Rightarrow> pystr) \<Rightarrow> repository list \<Rightarrow> repository list \<Rightarrow> bool" where
  "registry_evolves cit \<equiv> (registry_step cit [] [])\<^sup>*\<^sup>*"

lemma registry_step_table: "registry_step cit ns is t t' \<Longrightarrow> table_ok cit t \<Longrightarrow> table_ok cit t'"
proof (induction rule: registry_step.induct)
  case (Add r t)
  then show ?case by (auto simp: table_ok_def)
next
  case (Mark i t now)
  then show ?case by (intro table_ok_mark)
qed

lemma registry_step_free: "registry_step cit ns is t t' \<Longrightarrow> registry_step cit [] [] t t'"
  by (induction rule: registry_step.induct) (auto intro: registry_step.intros)

lemma peers_free: "(registry_step cit ns is)\<^sup>*\<^sup>* t t' \<Longrightarrow> registry_evolves cit t t'"
  by (rule mono_rtranclp [rule_format, where x = "registry_step cit ns is"]) (rule registry_step_free)

lemma peers_table: "(registry_step cit ns is)\<^sup>*\<^sup>* t t' \<Longrightarrow> table_ok cit t \<Longrightarrow> table_ok cit t'"
  by (induction rule: rtranclp_induct) (blast intro: registry_step_table)+

text \<open>Rows stay, under their identifier and name, and a deleted row stays as deleted as it was.\<close>

definition row_stays :: "repository \<Rightarrow> repository \<Rightarrow> bool" where
  "row_stays r r' \<longleftrightarrow> rep_id r' = rep_id r \<and> rep_name r' = rep_name r \<and> rep_created_at r' = rep_created_at r
     \<and> (\<not> active r \<longrightarrow> rep_deleted_at r' = rep_deleted_at r)"

lemma row_stays_refl [simp]: "row_stays r r"
  by (simp add: row_stays_def)

lemma row_stays_trans: "row_stays a b \<Longrightarrow> row_stays b c \<Longrightarrow> row_stays a c"
  by (auto simp: row_stays_def active_def)

lemma row_stays_mark: "row_stays r (deleted_at_time t r)"
  by (auto simp: row_stays_def deleted_at_time_def active_def)

lemma registry_step_rows:
  assumes "registry_step cit ns is t t'" and "r \<in> set t"
  shows "\<exists>r'\<in>set t'. row_stays r r'"
  using assms(1)
proof cases
  case (Add q)
  with assms(2) show ?thesis by (intro bexI [of _ r]) simp_all
next
  case (Mark i now)
  with assms(2) have "(if rep_id r = i then deleted_at_time now r else r) \<in> set t'"
    by (auto simp: mark_deleted_def)
  then show ?thesis by (rule bexI [rotated]) (simp add: row_stays_mark)
qed

lemma registry_rows:
  assumes "(registry_step cit ns is)\<^sup>*\<^sup>* t t'" and "r \<in> set t"
  obtains r' where "r' \<in> set t'" and "row_stays r r'"
proof -
  have "\<exists>r'\<in>set t'. row_stays r r'"
    using assms
  proof (induction rule: rtranclp_induct)
    case base
    then show ?case by (intro bexI [of _ r]) simp_all
  next
    case (step t' t'')
    then show ?case using registry_step_rows row_stays_trans by metis
  qed
  with that show ?thesis by blast
qed

text \<open>What a session holds stays free.\<close>

lemma held_step:
  assumes "registry_step cit ns is t t'"
  shows "n \<in> set ns \<Longrightarrow> cit n \<notin> cit ` rep_name ` set t \<Longrightarrow> cit n \<notin> cit ` rep_name ` set t'"
    and "i \<in> set is \<Longrightarrow> filter (\<lambda>r. rep_id r = i) t' = filter (\<lambda>r. rep_id r = i) t"
proof -
  show "cit n \<notin> cit ` rep_name ` set t'" if "n \<in> set ns" and "cit n \<notin> cit ` rep_name ` set t"
    using assms
  proof cases
    case (Add q)
    have "cit (rep_name q) \<noteq> cit n" using Add(3) that(1) by (metis UnI2 imageI)
    with Add that(2) show ?thesis by auto
  next
    case (Mark j now)
    with that(2) show ?thesis by simp
  qed
  show "filter (\<lambda>r. rep_id r = i) t' = filter (\<lambda>r. rep_id r = i) t" if "i \<in> set is"
    using assms
  proof cases
    case (Add q)
    with that show ?thesis by auto
  next
    case (Mark j now)
    with that have "i \<noteq> j" by blast
    then show ?thesis unfolding Mark(1) by (induction t) (auto simp: mark_deleted_def)
  qed
qed

lemma held_stays:
  assumes "(registry_step cit ns is)\<^sup>*\<^sup>* t t'"
  shows "n \<in> set ns \<Longrightarrow> cit n \<notin> cit ` rep_name ` set t \<Longrightarrow> cit n \<notin> cit ` rep_name ` set t'"
    and "i \<in> set is \<Longrightarrow> filter (\<lambda>r. rep_id r = i) t' = filter (\<lambda>r. rep_id r = i) t"
  using assms by (induction rule: rtranclp_induct) (simp_all add: held_step)

section \<open>A session among others\<close>

text \<open>
  The session's own state is the database record of the reference session, whose committed table
  is now shared; \<open>own_changes\<close> is what it has changed and not committed, and \<open>held_names\<close> and
  \<open>held_ids\<close> what it has locked. \<open>peers\<close> says what the others commit before its next call.
\<close>

record registry =
  session_db :: db
  own_changes :: "repository list \<Rightarrow> repository list"
  held_names :: "pystr list"
  held_ids :: "uuid list"
  turn :: nat
  peers :: "nat \<Rightarrow> pystr list \<Rightarrow> uuid list \<Rightarrow> repository list \<Rightarrow> repository list"

abbreviation registry_table :: "registry \<Rightarrow> repository list" where
  "registry_table s \<equiv> committed (session_db s)"

definition others_commit :: "registry \<Rightarrow> registry" where
  "others_commit s =
     (let t = peers s (turn s) (held_names s) (held_ids s) (registry_table s)
      in s\<lparr>session_db := (session_db s)\<lparr>committed := t, working := own_changes s t\<rparr>, turn := Suc (turn s)\<rparr>)"

text \<open>What a statement that succeeded changes and locks.\<close>

fun note_write :: "datetime \<Rightarrow> statement \<Rightarrow> db_result \<Rightarrow> registry \<Rightarrow> registry" where
  "note_write now (Insert_Row n) (Row_Models rows) s =
     s\<lparr>own_changes := (\<lambda>t. own_changes s t @ rows), held_names := n # held_names s, held_ids := map rep_id rows @ held_ids s\<rparr>"
| "note_write now (Update_Rows cs vals) (Ids is) s =
     s\<lparr>own_changes := (\<lambda>t. map (\<lambda>r. if rep_id r \<in> set is then updated now vals r else r) (own_changes s t)),
       held_ids := is @ held_ids s\<rparr>"
| "note_write now _ _ s = s"

definition nothing_held :: "registry \<Rightarrow> registry" where
  "nothing_held s = s\<lparr>own_changes := (\<lambda>t. t), held_names := [], held_ids := []\<rparr>"

definition shared_execute :: "(pystr \<Rightarrow> pystr) \<Rightarrow> statement \<Rightarrow> (registry, exn, db_result) action" where
  "shared_execute cit stmt s =
     (let s1 = others_commit s; now = tx_now (session_db s1)
      in case db_execute cit stmt (session_db s1) of
           (Inl e, d) \<Rightarrow> (Inl e, s1\<lparr>session_db := d\<rparr>)
         | (Inr r, d) \<Rightarrow> (Inr r, note_write now stmt r (s1\<lparr>session_db := d\<rparr>)))"

definition shared_commit :: "(registry, exn, unit) action" where
  "shared_commit s = (let s1 = others_commit s in case db_commit (session_db s1) of
       (r, d) \<Rightarrow> (r, nothing_held (s1\<lparr>session_db := d\<rparr>)))"

definition shared_rollback :: "(registry, exn, unit) action" where
  "shared_rollback s = (let s1 = others_commit s in case db_rollback (session_db s1) of
       (r, d) \<Rightarrow> (r, nothing_held (s1\<lparr>session_db := d\<rparr>)))"

definition shared_session :: "(pystr \<Rightarrow> pystr) \<Rightarrow> registry session" where
  "shared_session cit = \<lparr>ses_execute = shared_execute cit, ses_commit = shared_commit, ses_rollback = shared_rollback\<rparr>"

lemma shared_session_simps [simp]:
  "ses_execute (shared_session cit) = shared_execute cit" "ses_commit (shared_session cit) = shared_commit"
  "ses_rollback (shared_session cit) = shared_rollback"
  by (simp_all add: shared_session_def)

text \<open>What the others alone make of the table.\<close>

definition peer_commits :: "registry \<Rightarrow> repository list \<Rightarrow> repository list \<Rightarrow> bool" where
  "peer_commits s t t' \<longleftrightarrow> (\<exists>k ns is. t' = peers s k ns is t)"

abbreviation others_only :: "registry \<Rightarrow> repository list \<Rightarrow> repository list \<Rightarrow> bool" where
  "others_only s \<equiv> (peer_commits s)\<^sup>*\<^sup>*"

text \<open>
  A session that holds nothing, among others that respect the locks. In calm the database refuses no
  statement and no commit of its own accord.
\<close>

definition lawful_peers :: "(pystr \<Rightarrow> pystr) \<Rightarrow> registry \<Rightarrow> bool" where
  "lawful_peers cit s \<longleftrightarrow> (\<forall>k ns is t. (registry_step cit ns is)\<^sup>*\<^sup>* t (peers s k ns is t))"

definition registry_ok :: "bool \<Rightarrow> (pystr \<Rightarrow> pystr) \<Rightarrow> registry \<Rightarrow> bool" where
  "registry_ok calm cit s \<longleftrightarrow> table_ok cit (registry_table s) \<and> own_changes s = (\<lambda>t. t) \<and> held_names s = [] \<and> held_ids s = []
     \<and> lawful_peers cit s
     \<and> (calm \<longrightarrow> \<not> aborted (session_db s) \<and> db_fault (session_db s) = (\<lambda>_. None) \<and> commit_fault (session_db s) = (\<lambda>_. None))"

lemma others_commit_simps [simp]:
  "own_changes (others_commit s) = own_changes s" "held_names (others_commit s) = held_names s"
  "held_ids (others_commit s) = held_ids s" "lawful_peers cit (others_commit s) = lawful_peers cit s"
  "aborted (session_db (others_commit s)) = aborted (session_db s)"
  "working (session_db (others_commit s)) = own_changes s (registry_table (others_commit s))"
  "tx_now (session_db (others_commit s)) = tx_now (session_db s)"
  "drawn_id (session_db (others_commit s)) = drawn_id (session_db s)"
  "db_fault (session_db (others_commit s)) = db_fault (session_db s)"
  "commit_fault (session_db (others_commit s)) = commit_fault (session_db s)"
  "peers (others_commit s) = peers s"
  by (simp_all add: others_commit_def Let_def lawful_peers_def tx_now_def drawn_id_def split: option.split)

lemma nothing_held_simps [simp]:
  "own_changes (nothing_held s) = (\<lambda>t. t)" "held_names (nothing_held s) = []" "held_ids (nothing_held s) = []"
  "session_db (nothing_held s) = session_db s" "lawful_peers cit (nothing_held s) = lawful_peers cit s"
  "peers (nothing_held s) = peers s"
  by (simp_all add: nothing_held_def lawful_peers_def)

lemma lawful_upd [simp]:
  "lawful_peers cit (s\<lparr>session_db := d\<rparr>) = lawful_peers cit s"
  "lawful_peers cit (s\<lparr>own_changes := f\<rparr>) = lawful_peers cit s"
  "lawful_peers cit (s\<lparr>held_names := ns\<rparr>) = lawful_peers cit s"
  "lawful_peers cit (s\<lparr>held_ids := is\<rparr>) = lawful_peers cit s"
  by (simp_all add: lawful_peers_def)

lemma others_commit_steps:
  "lawful_peers cit s \<Longrightarrow> (registry_step cit (held_names s) (held_ids s))\<^sup>*\<^sup>* (registry_table s) (registry_table (others_commit s))"
  by (simp add: lawful_peers_def others_commit_def Let_def)

lemma others_commit_alone:
  assumes "peers s' = peers s"
  shows "peer_commits s (registry_table s') (registry_table (others_commit s'))"
  unfolding peer_commits_def assms [symmetric] by (auto simp: others_commit_def Let_def)

lemma others_only_two:
  assumes "peer_commits s a b" and "peer_commits s b c"
  shows "others_only s a c"
  using assms by (meson converse_rtranclp_into_rtranclp r_into_rtranclp)

lemma others_only_evolves:
  assumes "lawful_peers cit s" and "others_only s t t'"
  shows "registry_evolves cit t t'"
  using assms(2)
proof (induction rule: rtranclp_induct)
  case (step t' t'')
  from step.hyps(2) obtain k ns "is" where t: "t'' = peers s k ns is t'" unfolding peer_commits_def by blast
  have "registry_evolves cit t' t''"
    unfolding t by (rule peers_free [of cit ns "is"]) (use assms(1) in \<open>simp add: lawful_peers_def\<close>)
  with step.IH show ?case by (rule rtranclp_trans)
qed simp

lemma registry_okD:
  assumes "registry_ok calm cit s"
  shows "table_ok cit (registry_table s)" and "own_changes s = (\<lambda>t. t)" and "held_names s = []" and "held_ids s = []"
    and "lawful_peers cit s"
    and "calm \<Longrightarrow> \<not> aborted (session_db s) \<and> db_fault (session_db s) = (\<lambda>_. None) \<and> commit_fault (session_db s) = (\<lambda>_. None)"
  using assms by (simp_all add: registry_ok_def)

lemma others_commit_ok:
  assumes "registry_ok calm cit s"
  shows "registry_ok calm cit (others_commit s)"
    and "working (session_db (others_commit s)) = registry_table (others_commit s)"
proof -
  note ok = registry_okD [OF assms]
  have "table_ok cit (registry_table (others_commit s))"
    using peers_table [OF others_commit_steps [OF ok(5)] ok(1)] .
  then show "registry_ok calm cit (others_commit s)" using ok by (simp add: registry_ok_def)
  show "working (session_db (others_commit s)) = registry_table (others_commit s)" using ok(2) by simp
qed

text \<open>A statement fails and aborts the transaction, or runs.\<close>

lemma db_execute_cases:
  obtains (failed) e where "db_execute cit stmt d = (Inl e, (in_tx d)\<lparr>aborted := True\<rparr>)"
      and "\<not> aborted d \<Longrightarrow> db_fault d = (\<lambda>_. None) \<Longrightarrow> run_statement cit stmt (tx_now d) (in_tx d) = Inl e"
  | (ran) r d2 where "\<not> aborted d" and "run_statement cit stmt (tx_now d) (in_tx d) = Inr (r, d2)"
      and "db_execute cit stmt d = (Inr r, d2)"
proof (cases "aborted d")
  case True
  then have "in_tx d = (in_tx d)\<lparr>aborted := True\<rparr>" by (cases d) (simp add: in_tx_def)
  with True show ?thesis by (intro failed) (simp_all add: db_execute_def Let_def in_tx_def tx_now_def split: option.split)
next
  case False
  show ?thesis
  proof (cases "db_fault d (db_clock d)")
    case (Some e)
    with False show ?thesis by (intro failed [of e]) (simp_all add: db_execute_def Let_def in_tx_def tx_now_def)
  next
    case None
    with False have run: "db_execute cit stmt d = (case run_statement cit stmt (tx_now d) (in_tx d) of
        Inl e \<Rightarrow> (Inl e, (in_tx d)\<lparr>aborted := True\<rparr>) | Inr (r, d2) \<Rightarrow> (Inr r, d2))"
      by (simp add: db_execute_def Let_def in_tx_def tx_now_def split: sum.split)
    with False show ?thesis
      by (cases "run_statement cit stmt (tx_now d) (in_tx d)") (auto intro: failed ran)
  qed
qed

text \<open>After a failed statement the session holds nothing new, and others go on as before.\<close>

definition refused_state :: "registry \<Rightarrow> registry" where
  "refused_state s = (let s1 = others_commit s in s1\<lparr>session_db := (in_tx (session_db s1))\<lparr>aborted := True\<rparr>\<rparr>)"

lemma shared_refused:
  assumes "registry_ok calm cit s" and "db_execute cit stmt (session_db (others_commit s)) =
      (Inl e, (in_tx (session_db (others_commit s)))\<lparr>aborted := True\<rparr>)"
  shows "shared_execute cit stmt s = (Inl e, refused_state s)" and "registry_ok False cit (refused_state s)"
    and "peer_commits s (registry_table s) (registry_table (refused_state s))" and "peers (refused_state s) = peers s"
  using assms(2) registry_okD [OF others_commit_ok(1) [OF assms(1)]] others_commit_alone [of s s]
  by (simp_all add: shared_execute_def refused_state_def Let_def registry_ok_def)

lemma shared_rollback_refused:
  assumes "registry_ok calm cit s"
  shows "\<exists>s'. shared_rollback (refused_state s) = (Inr (), s') \<and> registry_ok calm cit s'
    \<and> others_only s (registry_table s) (registry_table s')
    \<and> registry_evolves cit (registry_table (others_commit s)) (registry_table s')"
proof -
  let ?s2 = "refused_state s"
  let ?s3 = "nothing_held ((others_commit ?s2)\<lparr>session_db := snd (db_rollback (session_db (others_commit ?s2)))\<rparr>)"
  note ok = registry_okD [OF others_commit_ok(1) [OF assms]]
  have s2: "peers ?s2 = peers s" "registry_table ?s2 = registry_table (others_commit s)" "lawful_peers cit ?s2"
    and calm: "db_fault (session_db ?s2) = db_fault (session_db s)" "commit_fault (session_db ?s2) = commit_fault (session_db s)"
    using ok(5) by (simp_all add: refused_state_def Let_def)
  have table: "registry_table ?s3 = registry_table (others_commit ?s2)" by (simp add: db_rollback_def)
  have "peer_commits s (registry_table s) (registry_table (others_commit s))"
    and last: "peer_commits s (registry_table (others_commit s)) (registry_table ?s3)"
    using others_commit_alone [of s s] others_commit_alone [OF s2(1)] s2(2) table by simp_all
  then have "others_only s (registry_table s) (registry_table ?s3)" by (rule others_only_two)
  moreover have "registry_evolves cit (registry_table (others_commit s)) (registry_table ?s3)"
    using others_only_evolves [of cit s] last registry_okD(5) [OF assms] by blast
  moreover have "registry_ok calm cit ?s3"
    using ok s2(3) calm registry_okD(6) [OF assms] peers_table [OF \<open>registry_evolves cit _ (registry_table ?s3)\<close> ok(1)]
    by (simp add: registry_ok_def db_rollback_def)
  moreover have "shared_rollback ?s2 = (Inr (), ?s3)"
    by (simp add: shared_rollback_def db_rollback_def Let_def)
  ultimately show ?thesis by blast
qed

text \<open>A commit makes the session's changes of the table as the others have it, or fails.\<close>

lemma shared_commit_cases:
  assumes "\<not> aborted (session_db s)" and "lawful_peers cit s"
    and "table_ok cit (registry_table (others_commit s))" and "table_ok cit (own_changes s (registry_table (others_commit s)))"
    and "calm \<longrightarrow> db_fault (session_db s) = (\<lambda>_. None) \<and> commit_fault (session_db s) = (\<lambda>_. None)"
  obtains (made) s' where "shared_commit s = (Inr (), s')" and "registry_ok calm cit s'"
      and "registry_table s' = own_changes s (registry_table (others_commit s))"
  | (broken) e k durable s' where "shared_commit s = (Inl e, s')" and "registry_ok calm cit s'" and "\<not> calm"
      and "commit_fault (session_db s) k = Some (e, durable)"
      and "registry_table s' = (if durable then own_changes s (registry_table (others_commit s)) else registry_table (others_commit s))"
proof -
  let ?d = "session_db (others_commit s)"
  let ?s' = "nothing_held ((others_commit s)\<lparr>session_db := snd (db_commit ?d)\<rparr>)"
  have run: "shared_commit s = (fst (db_commit ?d), ?s')"
    by (simp add: shared_commit_def Let_def split: prod.split)
  show ?thesis
  proof (cases "commit_fault (session_db s) (db_clock ?d)")
    case None
    then show ?thesis
      by (intro made [of ?s']) (use assms in \<open>simp_all add: run db_commit_def registry_ok_def\<close>)
  next
    case (Some f)
    then obtain e durable where f: "commit_fault (session_db s) (db_clock ?d) = Some (e, durable)" by (cases f) auto
    then have "\<not> calm" using assms(5) by auto
    with f show ?thesis
      by (intro broken [of e ?s' "db_clock ?d" durable]) (use assms in \<open>simp_all add: run db_commit_def registry_ok_def\<close>)
  qed
qed

section \<open>Creating\<close>

text \<open>What the insert of a session that holds nothing comes to.\<close>

definition inserted_row :: "db \<Rightarrow> pystr \<Rightarrow> repository" where
  "inserted_row d n = \<lparr>rep_id = drawn_id d, rep_name = n, rep_created_at = tx_now d, rep_updated_at = tx_now d,
     rep_deleted_at = None\<rparr>"

definition insert_refusal :: "(pystr \<Rightarrow> pystr) \<Rightarrow> db \<Rightarrow> pystr \<Rightarrow> exn \<Rightarrow> bool" where
  "insert_refusal cit d n e \<longleftrightarrow>
     MAX_NAME_LENGTH < length n \<and> e = violation ''23514'' NAME_LENGTH_CONSTRAINT
     \<or> drawn_id d \<in> rep_id ` set (committed d) \<and> e = violation ''23505'' (lit ''repositories_pkey'')
     \<or> cit n \<in> cit ` rep_name ` set (committed d) \<and> e = violation ''23505'' NAME_UNIQUE_INDEX"

lemma run_insert:
  assumes "working d = committed d"
  shows "(case run_statement cit (Insert_Row n) (tx_now d) (in_tx d) of
      Inl e \<Rightarrow> insert_refusal cit d n e
    | Inr (r, d2) \<Rightarrow> drawn_id d \<notin> rep_id ` set (committed d) \<and> cit n \<notin> cit ` rep_name ` set (committed d)
        \<and> length n \<le> MAX_NAME_LENGTH \<and> r = Row_Models [inserted_row d n]
        \<and> d2 = (in_tx d)\<lparr>working := committed d @ [inserted_row d n], next_uuid := Suc (next_uuid d)\<rparr>)"
proof -
  have "db_uuids d (next_uuid d) = drawn_id d" by (simp add: drawn_id_def)
  moreover have "list_ex (\<lambda>r. rep_id r = drawn_id d) (committed d) \<longleftrightarrow> drawn_id d \<in> rep_id ` set (committed d)"
    by (auto simp: list_ex_iff) (metis image_eqI)
  moreover have "list_ex (\<lambda>r. cit (rep_name r) = cit n) (committed d) \<longleftrightarrow> cit n \<in> cit ` rep_name ` set (committed d)"
    by (auto simp: list_ex_iff) (metis image_eqI)
  ultimately show ?thesis
    using assms by (simp add: run_statement_def Let_def insert_refusal_def inserted_row_def)
qed

lemma insert_cases:
  assumes "working d = committed d"
  obtains (inserted) "\<not> aborted d" and "drawn_id d \<notin> rep_id ` set (committed d)"
      and "cit n \<notin> cit ` rep_name ` set (committed d)" and "length n \<le> MAX_NAME_LENGTH"
      and "db_execute cit (Insert_Row n) d = (Inr (Row_Models [inserted_row d n]),
        (in_tx d)\<lparr>working := committed d @ [inserted_row d n], next_uuid := Suc (next_uuid d)\<rparr>)"
  | (failed) e where "db_execute cit (Insert_Row n) d = (Inl e, (in_tx d)\<lparr>aborted := True\<rparr>)"
      and "\<not> aborted d \<Longrightarrow> db_fault d = (\<lambda>_. None) \<Longrightarrow> insert_refusal cit d n e"
proof (cases rule: db_execute_cases [of cit "Insert_Row n" d])
  case (failed e)
  have "insert_refusal cit d n e" if "\<not> aborted d" and "db_fault d = (\<lambda>_. None)"
    using run_insert [OF assms, of cit n] failed(2) [OF that] by simp
  with failed(1) show ?thesis by (rule that(2))
next
  case (ran r d2)
  with run_insert [OF assms, of cit n] that(1) show ?thesis by simp
qed

text \<open>The insert has run: what the session holds, and what the table will be.\<close>

definition inserted_state :: "(pystr \<Rightarrow> pystr) \<Rightarrow> pystr \<Rightarrow> registry \<Rightarrow> registry" where
  "inserted_state cit n s = snd (shared_execute cit (Insert_Row n) s)"

lemma shared_inserted:
  assumes "registry_ok calm cit s" and "drawn_id (session_db s) \<notin> rep_id ` set (registry_table (others_commit s))"
    and "cit n \<notin> cit ` rep_name ` set (registry_table (others_commit s))" and "length n \<le> MAX_NAME_LENGTH"
    and "\<not> aborted (session_db s)"
    and "db_execute cit (Insert_Row n) (session_db (others_commit s)) = (Inr (Row_Models [inserted_row (session_db s) n]),
        (in_tx (session_db (others_commit s)))\<lparr>working := registry_table (others_commit s) @ [inserted_row (session_db s) n], next_uuid := k\<rparr>)"
  shows "shared_execute cit (Insert_Row n) s = (Inr (Row_Models [inserted_row (session_db s) n]), inserted_state cit n s)"
    and "own_changes (inserted_state cit n s) = (\<lambda>t. t @ [inserted_row (session_db s) n])"
    and "others_only s (registry_table s) (registry_table (others_commit (inserted_state cit n s)))"
    and "table_ok cit (registry_table (others_commit (inserted_state cit n s)) @ [inserted_row (session_db s) n])"
    and "\<not> aborted (session_db (inserted_state cit n s))" and "lawful_peers cit (inserted_state cit n s)"
    and "db_fault (session_db (inserted_state cit n s)) = db_fault (session_db s)"
    and "commit_fault (session_db (inserted_state cit n s)) = commit_fault (session_db s)"
proof -
  let ?r = "inserted_row (session_db s) n" and ?s1 = "others_commit s" and ?s2 = "inserted_state cit n s"
  note ok = registry_okD [OF others_commit_ok(1) [OF assms(1)]]
  show exec: "shared_execute cit (Insert_Row n) s = (Inr (Row_Models [?r]), ?s2)"
    using assms(6) by (simp add: inserted_state_def shared_execute_def Let_def)
  have s2: "?s2 = note_write (tx_now (session_db ?s1)) (Insert_Row n) (Row_Models [?r])
      (?s1\<lparr>session_db := (in_tx (session_db ?s1))\<lparr>working := registry_table ?s1 @ [?r], next_uuid := k\<rparr>\<rparr>)"
    using assms(6) by (simp add: inserted_state_def shared_execute_def Let_def)
  show "own_changes ?s2 = (\<lambda>t. t @ [?r])" and "\<not> aborted (session_db ?s2)" and law: "lawful_peers cit ?s2"
    and "db_fault (session_db ?s2) = db_fault (session_db s)" and "commit_fault (session_db ?s2) = commit_fault (session_db s)"
    using ok assms(5) by (simp_all add: s2)
  have held: "held_names ?s2 = [n]" "held_ids ?s2 = [rep_id ?r]" "registry_table ?s2 = registry_table ?s1" "peers ?s2 = peers s"
    using ok(3,4) by (simp_all add: s2)
  let ?t = "registry_table (others_commit ?s2)"
  have "peer_commits s (registry_table ?s1) ?t"
    using others_commit_alone [OF held(4)] unfolding held(3) .
  from others_only_two [OF others_commit_alone [OF refl] this] show "others_only s (registry_table s) ?t" .
  have steps: "(registry_step cit [n] [rep_id ?r])\<^sup>*\<^sup>* (registry_table ?s1) ?t"
    using others_commit_steps [OF law] unfolding held .
  have "cit n \<notin> cit ` rep_name ` set ?t"
    using held_stays(1) [OF steps _ assms(3)] by simp
  moreover have "filter (\<lambda>x. rep_id x = rep_id ?r) (registry_table ?s1) = []"
    using assms(2) by (auto simp: inserted_row_def filter_empty_conv image_iff)
  with held_stays(2) [OF steps, of "rep_id ?r"] have "filter (\<lambda>x. rep_id x = rep_id ?r) ?t = []" by simp
  ultimately show "table_ok cit (?t @ [?r])"
    using peers_table [OF steps ok(1)] assms(4)
    by (auto simp: table_ok_def inserted_row_def filter_empty_conv)
qed

section \<open>Deleting\<close>

lemma delete_ids:
  assumes "table_ok cit t"
  shows "(if i \<in> rep_id ` set t then map rep_id (filter (\<lambda>r. rep_id r = i) t) = [i]
    else map rep_id (filter (\<lambda>r. rep_id r = i) t) = [])"
proof -
  have "distinct t" using assms by (auto simp: table_ok_def distinct_map)
  then have one: "filter (\<lambda>r. rep_id r = i) t = (case find (\<lambda>r. rep_id r = i) t of None \<Rightarrow> [] | Some r \<Rightarrow> [r])"
    using assms by (intro filter_at_most_one) (auto simp: table_ok_def distinct_map inj_on_def)
  show ?thesis
  proof (cases "find (\<lambda>r. rep_id r = i) t")
    case None
    with one show ?thesis by (auto simp: find_None_iff)
  next
    case (Some r)
    then have "rep_id r = i" "r \<in> set t" by (auto simp: find_Some_iff)
    with one Some show ?thesis by auto
  qed
qed

lemma run_soft_delete:
  assumes "working d = committed d" and "table_ok cit (committed d)"
  shows "run_statement cit (Update_Rows [Id_Equals i] (with_onupdate [(Col_Deleted_At, Coalesce_Now Col_Deleted_At)])) now (in_tx d) =
    Inr (Ids (if i \<in> rep_id ` set (committed d) then [i] else []), (in_tx d)\<lparr>working := mark_deleted i now (committed d)\<rparr>)"
proof -
  have "meets_all cit [Id_Equals i] = (\<lambda>r. rep_id r = i)" by (simp add: fun_eq_iff)
  then show ?thesis
    using assms(1) delete_ids [OF assms(2), of i]
    by (auto simp: run_statement_def mark_deleted_def soft_delete_assigns simp del: meets_all_Cons)
qed

text \<open>The update is refused, or has run; then the commit makes the mark or fails.\<close>

lemma delete_run:
  assumes "registry_ok calm cit s"
    and "known \<longleftrightarrow> i \<in> rep_id ` set (registry_table (others_commit s))"
  shows "(\<exists>e s'. sql_delete (shared_session cit) i s = (Inl e, s') \<and> \<not> calm \<and> registry_ok calm cit s'
      \<and> others_only s (registry_table s) (registry_table s'))
    \<or> (\<exists>t s'. others_only s (registry_table s) t \<and> registry_evolves cit (registry_table (others_commit s)) t \<and> registry_ok calm cit s'
        \<and> (sql_delete (shared_session cit) i s = (Inr known, s') \<and> registry_table s' = (if known then mark_deleted i (tx_now (session_db s)) t else t)
          \<or> (\<exists>e k durable. sql_delete (shared_session cit) i s = (Inl e, s') \<and> \<not> calm
              \<and> commit_fault (session_db s) k = Some (e, durable)
              \<and> registry_table s' = (if durable \<and> known then mark_deleted i (tx_now (session_db s)) t else t))))"
proof -
  let ?s1 = "others_commit s" and ?now = "tx_now (session_db s)"
  let ?vals = "with_onupdate [(Col_Deleted_At, Coalesce_Now Col_Deleted_At)]"
  let ?stmt = "Update_Rows [Id_Equals i] ?vals"
  let ?ids = "if known then [i] else []"
  let ?d = "(in_tx (session_db ?s1))\<lparr>working := mark_deleted i ?now (registry_table ?s1)\<rparr>"
  note first = others_commit_ok [OF assms(1)]
  note ok = registry_okD [OF first(1)]
  note ran = run_soft_delete [OF first(2) ok(1), of i "tx_now (session_db ?s1)"]
  show ?thesis
  proof (cases rule: db_execute_cases [of cit ?stmt "session_db ?s1"])
    case (failed e)
    have "\<not> calm" using failed(2) ok(6) ran by auto
    moreover have "sql_delete (shared_session cit) i s = (Inl e, refused_state s)"
      using shared_refused(1) [OF assms(1) failed(1)] by (simp add: sql_delete_def Let_def and_then_def)
    ultimately show ?thesis using shared_refused(2,3) [OF assms(1) failed(1)] by auto
  next
    case (ran r d2)
    obtain s2 where s2: "s2 = note_write ?now ?stmt (Ids ?ids) (?s1\<lparr>session_db := ?d\<rparr>)" by simp
    have exec: "shared_execute cit ?stmt s = (Inr (Ids ?ids), s2)"
      using ran run_soft_delete [OF first(2) ok(1), of i] by (simp add: shared_execute_def Let_def s2 assms(2))
    have law: "lawful_peers cit s2" and live: "\<not> aborted (session_db s2)"
      and held: "held_names s2 = []" "held_ids s2 = ?ids" "peers s2 = peers s" "registry_table s2 = registry_table ?s1"
      and faults: "db_fault (session_db s2) = db_fault (session_db s)" "commit_fault (session_db s2) = commit_fault (session_db s)"
      using ok(3-5) ran(1) by (simp_all add: s2)
    have own: "own_changes s2 t = (if known then mark_deleted i ?now t else t)" for t
      using ok(2) by (simp add: s2 mark_deleted_def soft_delete_assigns)
    let ?t = "registry_table (others_commit s2)"
    have steps: "(registry_step cit [] ?ids)\<^sup>*\<^sup>* (registry_table ?s1) ?t"
      using others_commit_steps [OF law] unfolding held .
    have table: "table_ok cit ?t" "table_ok cit (own_changes s2 ?t)"
      unfolding own using peers_table [OF steps ok(1)] table_ok_mark by simp_all
    have alone: "others_only s (registry_table s) ?t"
      using others_only_two [OF others_commit_alone [OF refl]] others_commit_alone [OF held(3)] unfolding held(4) by blast
    have run: "sql_delete (shared_session cit) i s = (case shared_commit s2 of (Inl e, s') \<Rightarrow> (Inl e, s') | (Inr _, s') \<Rightarrow> (Inr known, s'))"
      using exec by (cases known) (auto simp: sql_delete_def and_then_def id_or_none_def one_or_none_def split: prod.splits sum.splits)
    have calm: "calm \<longrightarrow> db_fault (session_db s2) = (\<lambda>_. None) \<and> commit_fault (session_db s2) = (\<lambda>_. None)"
      using registry_okD(6) [OF assms(1)] unfolding faults by blast
    note ending = alone peers_free [OF steps]
    from live law table calm show ?thesis
    proof (cases rule: shared_commit_cases)
      case (made s')
      with run ending show ?thesis unfolding own by auto
    next
      case (broken e k durable s')
      from broken(5) have "registry_table s' = (if durable \<and> known then mark_deleted i ?now ?t else ?t)"
        unfolding own by (cases durable; cases known) simp_all
      moreover have "sql_delete (shared_session cit) i s = (Inl e, s')" using broken(1) run by simp
      ultimately show ?thesis using ending broken(2-4) unfolding faults by blast
    qed
  qed
qed

section \<open>Listing\<close>

text \<open>Reading neither holds nor changes anything.\<close>

lemma shared_read:
  assumes "registry_ok calm cit s"
    and "run_statement cit stmt (tx_now (session_db s)) (in_tx (session_db (others_commit s))) = Inr (r, in_tx (session_db (others_commit s)))"
    and "\<And>now x. note_write now stmt r x = x"
  shows "(\<exists>e s'. shared_execute cit stmt s = (Inl e, s') \<and> \<not> calm \<and> registry_ok calm cit s'
      \<and> peer_commits s (registry_table s) (registry_table s'))
    \<or> (\<exists>s'. shared_execute cit stmt s = (Inr r, s') \<and> registry_ok calm cit s' \<and> peers s' = peers s
        \<and> registry_table s' = registry_table (others_commit s))"
proof (cases rule: db_execute_cases [of cit stmt "session_db (others_commit s)"])
  case (failed e)
  have "\<not> calm" using failed(2) registry_okD(6) [OF assms(1)] assms(2) by auto
  with shared_refused [OF assms(1) failed(1)] show ?thesis by simp
next
  case (ran r' d2)
  let ?s2 = "(others_commit s)\<lparr>session_db := in_tx (session_db (others_commit s))\<rparr>"
  have "registry_ok calm cit ?s2"
    using registry_okD [OF others_commit_ok(1) [OF assms(1)]] by (simp add: registry_ok_def)
  moreover have "r' = r" and "d2 = in_tx (session_db (others_commit s))" using ran(2) assms(2) by simp_all
  with ran(3) assms(3) have "shared_execute cit stmt s = (Inr r, ?s2)" by (simp add: shared_execute_def Let_def)
  ultimately show ?thesis by simp
qed

lemma list_run:
  assumes "registry_ok calm cit s" and "0 \<le> limit" and "0 \<le> offset"
  shows "case sql_list (shared_session cit) limit offset s of
      (Inr p, s') \<Rightarrow> registry_ok calm cit s' \<and> (\<exists>t. p = \<lparr>page_items = page_of limit offset t,
          page_total = int (length (filter active (registry_table s'))), page_limit = limit, page_offset = offset\<rparr>
        \<and> others_only s (registry_table s) t \<and> others_only s t (registry_table s'))
    | (Inl e, s') \<Rightarrow> \<not> calm \<and> registry_ok calm cit s' \<and> others_only s (registry_table s) (registry_table s')"
proof -
  have null: "meets_all cit [Is_Null Col_Deleted_At] = active"
    by (simp add: fun_eq_iff active_def)
  let ?page = "Select_Rows [Is_Null Col_Deleted_At] [(Col_Created_At, True), (Col_Id, True)] (Some limit) (Some offset)"
  let ?count = "Select_Count [Is_Null Col_Deleted_At] :: statement"
  let ?t1 = "registry_table (others_commit s)"
  have first: "others_only s (registry_table s) ?t1" using others_commit_alone [of s s] by blast
  have "run_statement cit ?page (tx_now (session_db s)) (in_tx (session_db (others_commit s))) =
      Inr (Row_Models (page_of limit offset ?t1), in_tx (session_db (others_commit s)))"
    using others_commit_ok(2) [OF assms(1)] assms(2,3) by (simp add: run_statement_def null order_rows_newest page_of_def window_def)
  from shared_read [OF assms(1) this] consider
    (lost) e s2 where "shared_execute cit ?page s = (Inl e, s2)" "\<not> calm" "registry_ok calm cit s2"
      "peer_commits s (registry_table s) (registry_table s2)"
  | (paged) s2 where "shared_execute cit ?page s = (Inr (Row_Models (page_of limit offset ?t1)), s2)"
      "registry_ok calm cit s2" "peers s2 = peers s" "registry_table s2 = ?t1" by auto
  then show ?thesis
  proof cases
    case lost
    then show ?thesis by (simp add: sql_list_def Let_def and_then_def r_into_rtranclp)
  next
    case paged
    let ?t2 = "registry_table (others_commit s2)"
    have second: "peer_commits s ?t1 ?t2" using others_commit_alone [OF paged(3)] unfolding paged(4) .
    have "run_statement cit ?count (tx_now (session_db s2)) (in_tx (session_db (others_commit s2))) =
        Inr (Scalar (int (length (filter active ?t2))), in_tx (session_db (others_commit s2)))"
      using others_commit_ok(2) [OF paged(2)] by (simp add: run_statement_def null)
    from shared_read [OF paged(2) this] consider
      (lost) e s3 where "shared_execute cit ?count s2 = (Inl e, s3)" "\<not> calm" "registry_ok calm cit s3"
        "peer_commits s2 (registry_table s2) (registry_table s3)"
    | (counted) s3 where "shared_execute cit ?count s2 = (Inr (Scalar (int (length (filter active ?t2)))), s3)"
        "registry_ok calm cit s3" "registry_table s3 = ?t2" by auto
    then show ?thesis
    proof cases
      case lost
      have "peer_commits s ?t1 (registry_table s3)"
        using lost(4) paged(3,4) by (simp add: peer_commits_def)
      with first have "others_only s (registry_table s) (registry_table s3)" by (rule rtranclp.rtrancl_into_rtrancl)
      with lost paged(1) show ?thesis by (simp add: sql_list_def Let_def and_then_def)
    next
      case counted
      with paged(1) first second show ?thesis
        by (auto simp: sql_list_def Let_def and_then_def scalar_one_def scalars_def)
    qed
  qed
qed

section \<open>A busy registry\<close>

definition busy_row :: "nat \<Rightarrow> repository" where
  "busy_row k = \<lparr>rep_id = word_of_nat (100 + k), rep_name = [97 + k], rep_created_at = 50 + k, rep_updated_at = 50 + k,
     rep_deleted_at = None\<rparr>"

text \<open>Before every call of ours another session registers a name of one letter, if it is free.\<close>

definition busy_peer :: "(pystr \<Rightarrow> pystr) \<Rightarrow> nat \<Rightarrow> pystr list \<Rightarrow> uuid list \<Rightarrow> repository list \<Rightarrow> repository list" where
  "busy_peer cit k ns is t =
     (if rep_id (busy_row k) \<in> rep_id ` set t \<union> set is
         \<or> cit (rep_name (busy_row k)) \<in> cit ` (rep_name ` set t \<union> set ns) then t
      else t @ [busy_row k])"

definition calm_db :: db where
  "calm_db = \<lparr>committed = [], working = [], tx_start = None, aborted = False, db_clock = 0,
     db_uuids = word_of_nat, next_uuid = 0, db_fault = (\<lambda>_. None),
     commit_fault = (\<lambda>_. None)\<rparr>"

definition busy_registry :: "(pystr \<Rightarrow> pystr) \<Rightarrow> registry" where
  "busy_registry cit = \<lparr>session_db = calm_db, own_changes = (\<lambda>t. t), held_names = [], held_ids = [], turn = 0,
     peers = busy_peer cit\<rparr>"

text \<open>The same, where every commit of ours is cancelled after the database made it durable.\<close>

definition broken_registry :: "(pystr \<Rightarrow> pystr) \<Rightarrow> registry" where
  "broken_registry cit = (busy_registry cit)\<lparr>session_db := calm_db\<lparr>commit_fault := (\<lambda>_. Some (CancelledError, True))\<rparr>\<rparr>"

lemma busy_peers_lawful: "lawful_peers cit (busy_registry cit)" and broken_peers_lawful: "lawful_peers cit (broken_registry cit)"
proof -
  have "(registry_step cit ns is)\<^sup>*\<^sup>* t (busy_peer cit k ns is t)" for k ns "is" t
  proof (cases "busy_peer cit k ns is t = t")
    case False
    then have "registry_step cit ns is t (t @ [busy_row k])"
      by (intro registry_step.Add) (auto simp: busy_peer_def busy_row_def MAX_NAME_LENGTH_def active_def split: if_splits)
    moreover have "busy_peer cit k ns is t = t @ [busy_row k]" using False by (auto simp: busy_peer_def)
    ultimately show ?thesis by simp
  qed simp
  then show "lawful_peers cit (busy_registry cit)" and "lawful_peers cit (broken_registry cit)"
    by (simp_all add: lawful_peers_def busy_registry_def broken_registry_def)
qed

lemma busy_registry_ok: "registry_ok True cit (busy_registry cit)" and broken_registry_ok: "registry_ok False cit (broken_registry cit)"
  using busy_peers_lawful [of cit] broken_peers_lawful [of cit]
  by (simp_all add: registry_ok_def busy_registry_def broken_registry_def calm_db_def table_ok_def)

section \<open>Properties\<close>

lemma registry_evolves_trans:
  "registry_evolves cit a b \<Longrightarrow> registry_evolves cit b c \<Longrightarrow> registry_evolves cit a c"
  by (rule rtranclp_trans)

lemma sole_name:
  assumes "table_ok cit t" and "r \<in> set t"
  shows "filter (\<lambda>x. cit (rep_name x) = cit (rep_name r)) t = [r]"
proof -
  from assms(2) obtain xs ys where t: "t = xs @ r # ys" by (auto dest: split_list)
  then have "cit (rep_name r) \<notin> cit ` rep_name ` set (xs @ ys)"
    using assms(1) by (auto simp: table_ok_def)
  then have "filter (\<lambda>x. cit (rep_name x) = cit (rep_name r)) (xs @ ys) = []"
    by (metis (mono_tags, lifting) filter_False imageI)
  then show ?thesis by (simp add: t)
qed

lemma registry_keys:
  assumes "registry_evolves cit t t'"
  shows "rep_id ` set t \<subseteq> rep_id ` set t'" and "cit ` rep_name ` set t \<subseteq> cit ` rep_name ` set t'"
proof -
  have "rep_id r \<in> rep_id ` set t' \<and> cit (rep_name r) \<in> cit ` rep_name ` set t'" if r: "r \<in> set t" for r
  proof -
    obtain r' where "r' \<in> set t'" "row_stays r r'" by (rule registry_rows [OF assms r])
    then show ?thesis unfolding row_stays_def by (metis imageI)
  qed
  then show "rep_id ` set t \<subseteq> rep_id ` set t'" and "cit ` rep_name ` set t \<subseteq> cit ` rep_name ` set t'" by blast+
qed

lemma violation_kinds:
  "is_dbapi_error (violation state name)"
  "duplicate_name (violation ''23505'' NAME_UNIQUE_INDEX)"
  "\<not> duplicate_name (violation ''23505'' (lit ''repositories_pkey''))"
  by (simp_all add: violation_def is_duplicate_name_violation_def UNIQUE_VIOLATION_SQLSTATE_def NAME_UNIQUE_INDEX_def lit_def)

lemma create_shared:
  assumes "registry_ok calm cit s" and "length n \<le> MAX_NAME_LENGTH"
  shows "case sql_create (shared_session cit) n s of
      (Inr r, s') \<Rightarrow> registry_ok calm cit s' \<and> r = inserted_row (session_db s) n
        \<and> (\<exists>t. others_only s (registry_table s) t \<and> registry_table s' = t @ [r])
    | (Inl e, s') \<Rightarrow> registry_ok calm cit s'
        \<and> (others_only s (registry_table s) (registry_table s')
           \<or> (\<exists>k t. commit_fault (session_db s) k = Some (e, True) \<and> others_only s (registry_table s) t
                \<and> registry_table s' = t @ [inserted_row (session_db s) n]))
        \<and> (calm \<longrightarrow> e = Repo (RepositoryAlreadyExists None) \<and> cit n \<in> cit ` rep_name ` set (registry_table s')
           \<or> e = violation ''23505'' (lit ''repositories_pkey'') \<and> drawn_id (session_db s) \<in> rep_id ` set (registry_table s'))"
proof -
  let ?s1 = "others_commit s"
  note first = others_commit_ok [OF assms(1)]
  note ok = registry_okD [OF assms(1)]
  have row: "inserted_row (session_db ?s1) n = inserted_row (session_db s) n" by (simp add: inserted_row_def)
  from first(2) show ?thesis
  proof (cases rule: insert_cases [where n = n and cit = cit])
    case inserted
    then have "drawn_id (session_db s) \<notin> rep_id ` set (registry_table ?s1)" "\<not> aborted (session_db s)" by simp_all
    note held = shared_inserted [OF assms(1) this(1) inserted(3,4) this(2) inserted(5) [unfolded row]]
    have table: "table_ok cit (registry_table (others_commit (inserted_state cit n s)))"
      using held(4) by (auto simp: table_ok_def)
    have made: "table_ok cit (own_changes (inserted_state cit n s) (registry_table (others_commit (inserted_state cit n s))))"
      using held(4) unfolding held(2) .
    have run: "sql_create (shared_session cit) n s = (case shared_commit (inserted_state cit n s) of
        (Inl e, s') \<Rightarrow> (Inl e, s') | (Inr _, s') \<Rightarrow> (Inr (inserted_row (session_db s) n), s'))"
      using held(1) by (simp add: sql_create_def flush_new_def and_then_def trying_def scalars_def split: prod.split sum.split)
    have "calm \<longrightarrow> db_fault (session_db (inserted_state cit n s)) = (\<lambda>_. None)
        \<and> commit_fault (session_db (inserted_state cit n s)) = (\<lambda>_. None)"
      using ok(6) unfolding held(7,8) by blast
    from held(5,6) table made this show ?thesis
    proof (cases rule: shared_commit_cases)
      case (made s')
      with run held(3) show ?thesis unfolding held(2) by auto
    next
      case (broken e k durable s')
      have "sql_create (shared_session cit) n s = (Inl e, s')" using broken(1) run by simp
      with broken(2-5) held(3) show ?thesis unfolding held(2,8) by (cases durable) auto
    qed
  next
    case (failed e)
    from shared_rollback_refused [OF assms(1)] obtain s3 where undone: "shared_rollback (refused_state s) = (Inr (), s3)"
      "registry_ok calm cit s3" "others_only s (registry_table s) (registry_table s3)"
      and later: "registry_evolves cit (registry_table ?s1) (registry_table s3)" by blast
    note refused = shared_refused [OF assms(1) failed(1)]
    have reason: "insert_refusal cit (session_db ?s1) n e" if calm
      using failed(2) ok(6) that by simp
    show ?thesis
    proof (cases "is_dbapi_error e")
      case True
      have run: "sql_create (shared_session cit) n s = (Inl (if duplicate_name e then Repo (RepositoryAlreadyExists None) else e), s3)"
        using sql_create_refused [of "shared_session cit" n s e "refused_state s" s3] refused(1) undone(1) True by simp
      have "(if duplicate_name e then Repo (RepositoryAlreadyExists None) else e) = Repo (RepositoryAlreadyExists None)
            \<and> cit n \<in> cit ` rep_name ` set (registry_table s3)
          \<or> (if duplicate_name e then Repo (RepositoryAlreadyExists None) else e) = violation ''23505'' (lit ''repositories_pkey'')
            \<and> drawn_id (session_db s) \<in> rep_id ` set (registry_table s3)" if calm
        using reason [OF that] assms(2) unfolding insert_refusal_def
        by (elim disjE conjE) (simp_all add: violation_kinds subsetD [OF registry_keys(1) [OF later]] subsetD [OF registry_keys(2) [OF later]])
      with run undone(2,3) show ?thesis by simp
    next
      case False
      then have "\<not> calm" using reason by (auto simp: insert_refusal_def violation_kinds)
      moreover have "sql_create (shared_session cit) n s = (Inl e, refused_state s)"
        using refused(1) False by (simp add: sql_create_def flush_new_def and_then_def trying_def)
      ultimately show ?thesis using refused(2,3) by auto
    qed
  qed
qed

lemma delete_shared:
  assumes "registry_ok calm cit s"
  shows "case sql_delete (shared_session cit) i s of
      (Inr known, s') \<Rightarrow> registry_ok calm cit s'
        \<and> (if known then \<exists>t now. others_only s (registry_table s) t \<and> i \<in> rep_id ` set t \<and> registry_table s' = mark_deleted i now t
            else i \<notin> rep_id ` set (registry_table s) \<and> others_only s (registry_table s) (registry_table s'))
    | (Inl e, s') \<Rightarrow> registry_ok calm cit s' \<and> \<not> calm
        \<and> (others_only s (registry_table s) (registry_table s')
           \<or> (\<exists>k t now. commit_fault (session_db s) k = Some (e, True) \<and> others_only s (registry_table s) t
                \<and> i \<in> rep_id ` set t \<and> registry_table s' = mark_deleted i now t))"
proof -
  obtain known where known: "known \<longleftrightarrow> i \<in> rep_id ` set (registry_table (others_commit s))" by simp
  have here: "i \<in> rep_id ` set t" if "registry_evolves cit (registry_table (others_commit s)) t" and known for t
    using registry_keys(1) [OF that(1)] that(2) known by blast
  have start: "i \<notin> rep_id ` set (registry_table s)" if "\<not> known"
    using that known registry_keys(1) [OF others_only_evolves [OF registry_okD(5) [OF assms]]] others_commit_alone [of s s] by blast
  from delete_run [OF assms known] consider
    (refused) e s' where "sql_delete (shared_session cit) i s = (Inl e, s')" "\<not> calm" "registry_ok calm cit s'"
      "others_only s (registry_table s) (registry_table s')"
  | (made) t s' where "sql_delete (shared_session cit) i s = (Inr known, s')" "registry_ok calm cit s'"
      "others_only s (registry_table s) t" "registry_evolves cit (registry_table (others_commit s)) t"
      "registry_table s' = (if known then mark_deleted i (tx_now (session_db s)) t else t)"
  | (broken) t s' e k durable where "sql_delete (shared_session cit) i s = (Inl e, s')" "\<not> calm" "registry_ok calm cit s'"
      "others_only s (registry_table s) t" "registry_evolves cit (registry_table (others_commit s)) t"
      "commit_fault (session_db s) k = Some (e, durable)"
      "registry_table s' = (if durable \<and> known then mark_deleted i (tx_now (session_db s)) t else t)"
    by blast
  then show ?thesis
  proof cases
    case refused
    then show ?thesis by simp
  next
    case made
    with here [OF made(4)] start show ?thesis by (cases known) auto
  next
    case broken
    with here [OF broken(5)] show ?thesis by (cases "durable \<and> known") auto
  qed
qed

abbreviation shared_repositories :: "(pystr \<Rightarrow> pystr) \<Rightarrow> registry repository_store" where
  "shared_repositories cit \<equiv> sql_store (shared_session cit)"

text \<open>C12. Creation among other sessions. Whatever the others create and delete between the statements of this
  call, a creation that succeeds has added exactly its row to what the others made of the table, and from then on,
  however the table goes on, exactly one row has that name, the created one; so of several sessions that create
  one name at once at most one succeeds. A creation that fails wrote no record and left the table to the
  others, unless it is the commit that failed although the database had made it durable. In calm it
  fails with \<open>RepositoryAlreadyExists\<close> because another row has the name (or with the database's error
  because it drew an identifier that another row has).\<close>

theorem concurrent_create:
  assumes "registry_ok calm cit (part w)" and "repository_name u v = Inr n"
  shows "case create_execute u (shared_repositories cit) v w of
      (Inr r, w') \<Rightarrow> registry_ok calm cit (part w') \<and> rep_name r = n \<and> active r
        \<and> (\<exists>t. others_only (part w) (registry_table (part w)) t \<and> registry_table (part w') = t @ [r])
        \<and> (\<forall>t. registry_evolves cit (registry_table (part w')) t \<longrightarrow>
             (\<exists>x. filter (\<lambda>x. cit (rep_name x) = cit n) t = [x] \<and> rep_id x = rep_id r))
        \<and> journal w' = journal w @ [log_event_of INFO (lit ''repository_created'') (repository_fields r)]
    | (Inl e, w') \<Rightarrow> registry_ok calm cit (part w') \<and> journal w' = journal w
        \<and> (others_only (part w) (registry_table (part w)) (registry_table (part w'))
           \<or> (\<exists>k t r. commit_fault (session_db (part w)) k = Some (e, True) \<and> rep_name r = n \<and> active r
                \<and> others_only (part w) (registry_table (part w)) t \<and> registry_table (part w') = t @ [r]))
        \<and> (calm \<longrightarrow> e = Repo (RepositoryAlreadyExists None) \<and> cit n \<in> cit ` rep_name ` set (registry_table (part w'))
           \<or> e = violation ''23505'' (lit ''repositories_pkey'')
               \<and> drawn_id (session_db (part w)) \<in> rep_id ` set (registry_table (part w')))"
proof -
  have len: "length n \<le> MAX_NAME_LENGTH" using accepted_length [OF assms(2)] by (simp add: MAX_NAME_LENGTH_def)
  obtain q s' where run: "sql_create (shared_session cit) n (part w) = (q, s')" by fastforce
  have exec: "create_execute u (shared_repositories cit) v w = (case q of
      Inl e \<Rightarrow> (Inl e, w\<lparr>part := s'\<rparr>)
    | Inr r \<Rightarrow> (Inr r, w\<lparr>part := s', journal := journal w @ [log_event_of INFO (lit ''repository_created'') (repository_fields r)]\<rparr>))"
    using assms(2) run by (cases q) (simp_all add: create_execute_def use_case_run)
  have row: "rep_name (inserted_row d n) = n" "active (inserted_row d n)" for d
    by (simp_all add: inserted_row_def active_def)
  show ?thesis
  proof (cases q)
    case (Inl e)
    with create_shared [OF assms(1) len] run row show ?thesis by (simp add: exec) blast
  next
    case (Inr r)
    from create_shared [OF assms(1) len] have r: "registry_ok calm cit s'" "r = inserted_row (session_db (part w)) n"
      and added: "\<exists>t. others_only (part w) (registry_table (part w)) t \<and> registry_table s' = t @ [r]"
      unfolding run Inr prod.case sum.case by blast+
    have "\<exists>x. filter (\<lambda>x. cit (rep_name x) = cit n) t = [x] \<and> rep_id x = rep_id r"
      if step: "registry_evolves cit (registry_table s') t" for t
    proof -
      have "r \<in> set (registry_table s')" using added by auto
      then obtain x where x: "x \<in> set t" "row_stays r x" by (rule registry_rows [OF step])
      have "filter (\<lambda>y. cit (rep_name y) = cit (rep_name x)) t = [x]"
        using sole_name [OF peers_table [OF step registry_okD(1) [OF r(1)]] x(1)] .
      with x(2) r(2) show ?thesis by (auto simp: row_stays_def inserted_row_def)
    qed
    with r added row show ?thesis by (simp add: exec Inr)
  qed
qed

text \<open>In calm, and where the commit is cancelled after it became durable.\<close>

lemma concurrent_create_witness:
  "(case create_execute plain_unicode (shared_repositories id) (lit ''b'')
      \<lparr>part = busy_registry id, journal = [], bound_context = Map.empty\<rparr> of
      (Inr r, w') \<Rightarrow> rep_name r = lit ''b''
    | (Inl e, w') \<Rightarrow> e = Repo (RepositoryAlreadyExists None) \<or> e = violation ''23505'' (lit ''repositories_pkey''))
   \<and> (case create_execute plain_unicode (shared_repositories id) (lit ''b'')
      \<lparr>part = broken_registry id, journal = [], bound_context = Map.empty\<rparr> of
      (Inr r, w') \<Rightarrow> rep_name r = lit ''b'' | (Inl e, w') \<Rightarrow> journal w' = [])"
proof -
  have "repository_name plain_unicode (lit ''b'') = Inr (lit ''b'')" by code_simp
  from concurrent_create [where w = "\<lparr>part = busy_registry id, journal = [], bound_context = Map.empty\<rparr>" and calm = True,
      simplified, OF busy_registry_ok this]
    concurrent_create [where w = "\<lparr>part = broken_registry id, journal = [], bound_context = Map.empty\<rparr>" and calm = False,
      simplified, OF broken_registry_ok this] show ?thesis
    by (auto split: prod.splits sum.splits)
qed

text \<open>C14. Deletion among other sessions. When it succeeds, a row with the identifier was committed, and what
  the others made of the table has that row marked deleted, with the time of the first deletion if
  there was one before. When it raises the absence, no such row existed when it started. No
  row is lost or renamed, and no other row is changed but by the others; a deletion that fails leaves the
  table to the others, unless it is the commit that failed although it had become durable.\<close>

theorem concurrent_soft_delete:
  assumes "registry_ok calm cit (part w)"
  shows "case delete_execute (shared_repositories cit) i w of
      (Inr _, w') \<Rightarrow> registry_ok calm cit (part w')
        \<and> (\<exists>t now. others_only (part w) (registry_table (part w)) t \<and> i \<in> rep_id ` set t
             \<and> registry_table (part w') = mark_deleted i now t)
        \<and> (\<exists>r\<in>set (registry_table (part w')). rep_id r = i \<and> \<not> active r)
        \<and> (\<forall>r\<in>set (registry_table (part w)). \<exists>r'\<in>set (registry_table (part w')). row_stays r r')
    | (Inl e, w') \<Rightarrow> registry_ok calm cit (part w') \<and> journal w' = journal w
        \<and> (others_only (part w) (registry_table (part w)) (registry_table (part w'))
              \<and> (e = not_found_by_id i \<and> i \<notin> rep_id ` set (registry_table (part w)) \<or> \<not> calm)
           \<or> (\<exists>k t now. commit_fault (session_db (part w)) k = Some (e, True)
                \<and> others_only (part w) (registry_table (part w)) t \<and> registry_table (part w') = mark_deleted i now t))"
proof -
  let ?s = "part w"
  note lawful = registry_okD(5) [OF assms]
  obtain q s' where run: "sql_delete (shared_session cit) i ?s = (q, s')" by fastforce
  note outcome = delete_shared [OF assms, of i, unfolded run]
  show ?thesis
  proof (cases q)
    case (Inl e)
    with outcome run show ?thesis by (auto simp: delete_execute_def use_case_run)
  next
    case (Inr known)
    show ?thesis
    proof (cases known)
      case False
      with outcome run Inr show ?thesis by (simp add: delete_execute_def use_case_run)
    next
      case True
      with outcome Inr obtain t now where ok: "registry_ok calm cit s'" and t: "others_only ?s (registry_table ?s) t"
        "i \<in> rep_id ` set t" "registry_table s' = mark_deleted i now t" by auto
      from t(2) obtain x where "x \<in> set t" "rep_id x = i" by blast
      then have "deleted_at_time now x \<in> set (registry_table s')" and "rep_id (deleted_at_time now x) = i"
        by (auto simp: t(3) mark_deleted_def)
      then have gone: "\<exists>r\<in>set (registry_table s'). rep_id r = i \<and> \<not> active r" using deleted_at_time_simps(4) by blast
      have "registry_evolves cit t (registry_table s')"
        using registry_step.Mark [of i "[]"] by (simp add: t(3) r_into_rtranclp)
      with others_only_evolves [OF lawful t(1)] have "registry_evolves cit (registry_table ?s) (registry_table s')"
        by (rule registry_evolves_trans)
      then have rows: "\<forall>r\<in>set (registry_table ?s). \<exists>r'\<in>set (registry_table s'). row_stays r r'"
        by (intro ballI, elim registry_rows) blast+
      from ok t gone rows run Inr True show ?thesis by (auto simp: delete_execute_def use_case_run)
    qed
  qed
qed

lemma concurrent_soft_delete_witness:
  "(case delete_execute (shared_repositories id) 101 \<lparr>part = busy_registry id, journal = [], bound_context = Map.empty\<rparr> of
      (Inr _, w') \<Rightarrow> \<exists>r\<in>set (registry_table (part w')). rep_id r = 101 \<and> \<not> active r
    | (Inl e, w') \<Rightarrow> e = not_found_by_id 101)
   \<and> (case delete_execute (shared_repositories id) 101 \<lparr>part = broken_registry id, journal = [], bound_context = Map.empty\<rparr> of
      (Inr _, w') \<Rightarrow> \<exists>r\<in>set (registry_table (part w')). rep_id r = 101 \<and> \<not> active r
    | (Inl e, w') \<Rightarrow> journal w' = [])"
proof -
  have "commit_fault (session_db (busy_registry id)) k = None" for k
    by (simp add: busy_registry_def calm_db_def)
  with concurrent_soft_delete [where w = "\<lparr>part = busy_registry id, journal = [], bound_context = Map.empty\<rparr>" and i = 101 and calm = True,
      simplified, OF busy_registry_ok]
    concurrent_soft_delete [where w = "\<lparr>part = broken_registry id, journal = [], bound_context = Map.empty\<rparr>" and i = 101 and calm = False,
      simplified, OF broken_registry_ok] show ?thesis
    by (auto split: prod.splits sum.splits)
qed

text \<open>C15. A listing among other sessions is two truths: the page is the clamped page of the table as it was at
  one moment of the call, bounded, newest first and active, and the total is the number of active
  rows at a moment not earlier, the same unless others committed in between. It changes nothing and
  records nothing, and fails only when the database refuses a statement.\<close>

theorem concurrent_listing:
  assumes "registry_ok calm cit (part w)"
  shows "case list_execute (shared_repositories cit) limit offset w of
      (Inr p, w') \<Rightarrow> registry_ok calm cit (part w') \<and> journal w' = journal w
        \<and> (\<exists>t. others_only (part w) (registry_table (part w)) t \<and> others_only (part w) t (registry_table (part w'))
             \<and> page_items p = page_of (clamp_limit limit) (clamp_offset offset) t)
        \<and> page_total p = int (length (filter active (registry_table (part w'))))
        \<and> length (page_items p) \<le> 100 \<and> sorted_wrt newer (page_items p) \<and> (\<forall>r\<in>set (page_items p). active r)
    | (Inl e, w') \<Rightarrow> \<not> calm \<and> registry_ok calm cit (part w') \<and> journal w' = journal w
        \<and> others_only (part w) (registry_table (part w)) (registry_table (part w'))"
proof -
  have nonneg: "0 \<le> clamp_limit limit" "0 \<le> clamp_offset offset"
    using clamp_bounds(1) [of limit] clamp_bounds(3) [of offset] by simp_all
  have sorted: "sorted_wrt newer (page_of (clamp_limit limit) (clamp_offset offset) t)" for t
    using newest_first_sorted by (simp add: page_of_def sorted_wrt_take sorted_wrt_drop)
  have live: "\<forall>r\<in>set (page_of (clamp_limit limit) (clamp_offset offset) t). active r" for t
    by (auto simp: page_of_def dest!: in_set_takeD in_set_dropD)
  have bound: "length (page_of (clamp_limit limit) (clamp_offset offset) t) \<le> 100" for t
    using clamp_bounds(2) [of limit] by (auto simp: page_of_def)
  obtain q s' where run: "sql_list (shared_session cit) (clamp_limit limit) (clamp_offset offset) (part w) = (q, s')" by fastforce
  then have exec: "list_execute (shared_repositories cit) limit offset w = (q, w\<lparr>part := s'\<rparr>)"
    by (simp add: list_execute_def on_part_outcome)
  from list_run [OF assms nonneg] show ?thesis
    unfolding run exec by (cases q) (use sorted live bound in auto)
qed

lemma concurrent_listing_witness:
  "(case list_execute (shared_repositories id) 20 0 \<lparr>part = busy_registry id, journal = [], bound_context = Map.empty\<rparr> of
      (Inr p, w') \<Rightarrow> (\<exists>t. page_items p = page_of 20 0 t) \<and> page_total p = int (length (filter active (registry_table (part w'))))
    | (Inl e, w') \<Rightarrow> False)"
proof -
  have "clamp_limit 20 = 20" "clamp_offset 0 = 0" by (simp_all add: clamp_in_range)
  with concurrent_listing [where w = "\<lparr>part = busy_registry id, journal = [], bound_context = Map.empty\<rparr>" and limit = 20 and offset = 0
      and calm = True, simplified, OF busy_registry_ok] show ?thesis
    by (auto split: prod.splits sum.splits)
qed

text \<open>The total can disagree with the page: here the page shows one row and the total says two.\<close>

lemma page_and_total_may_disagree:
  "\<exists>p s'. sql_list (shared_session id) 20 0 (busy_registry id) = (Inr p, s')
    \<and> page_items p = [busy_row 0] \<and> page_total p = 2"
  by (simp add: busy_registry_def calm_db_def sql_list_def and_then_def shared_execute_def Let_def others_commit_def
      busy_peer_def busy_row_def db_execute_def run_statement_def scalar_one_def scalars_def tx_now_def window_def
      order_rows_newest newest_first_def meets_all_def active_def)

end
