(* ===== verification/Registry_History.thy ===== *)
theory Registry_History
  imports Sql_Concurrent Histories
begin

text \<open>
  Histories of use cases among other sessions. Every call is a request of its own, in a session that is
  closed when the request ends, which rolls back what it has not committed. Between any two statements
  other sessions commit what the locks let them. Creations, lookups and deletions each take effect at
  one moment, as atomic operations of the table; when the database may fail, a call that fails
  has taken effect whole or not at all.
\<close>

section \<open>Looking up\<close>

lemma run_find:
  assumes "working d = committed d" and "table_ok cit (committed d)"
    and "\<And>x y. x \<in> set (committed d) \<Longrightarrow> y \<in> set (committed d) \<Longrightarrow> meets cit c x \<Longrightarrow> meets cit c y \<Longrightarrow> x = y"
  shows "run_statement cit (Select_Rows [c, Is_Null Col_Deleted_At] [] None None) now (in_tx d) =
    Inr (Row_Models (case find (\<lambda>r. meets cit c r \<and> active r) (committed d) of None \<Rightarrow> [] | Some r \<Rightarrow> [r]), in_tx d)"
proof -
  have "distinct (committed d)" using assms(2) by (auto simp: table_ok_def distinct_map)
  moreover have "meets_all cit [c, Is_Null Col_Deleted_At] = (\<lambda>r. meets cit c r \<and> active r)"
    by (simp add: fun_eq_iff active_def)
  ultimately show ?thesis
    using assms(1,3) filter_at_most_one [of "committed d" "\<lambda>r. meets cit c r \<and> active r"]
    by (simp add: run_statement_def)
qed

lemma shared_find:
  assumes "registry_ok calm cit s" and "\<And>t x y. table_ok cit t \<Longrightarrow> x \<in> set t \<Longrightarrow> y \<in> set t \<Longrightarrow> meets cit c x \<Longrightarrow> meets cit c y \<Longrightarrow> x = y"
  shows "case find_active (shared_session cit) c s of
      (Inr r, s') \<Rightarrow> registry_ok calm cit s' \<and> peer_commits s (registry_table s) (registry_table s')
        \<and> r = find (\<lambda>x. meets cit c x \<and> active x) (registry_table s')
    | (Inl e, s') \<Rightarrow> \<not> calm \<and> registry_ok calm cit s' \<and> peer_commits s (registry_table s) (registry_table s')"
proof -
  let ?stmt = "Select_Rows [c, Is_Null Col_Deleted_At] [] None None" and ?t = "registry_table (others_commit s)"
  note first = others_commit_ok [OF assms(1)]
  note ok = registry_okD [OF first(1)]
  have alone: "peer_commits s (registry_table s) ?t" by (rule others_commit_alone) simp
  from shared_read [OF assms(1) run_find [OF first(2) ok(1), of c, OF assms(2) [OF ok(1)]]] show ?thesis
    using alone by (cases "find (\<lambda>r. meets cit c r \<and> active r) ?t")
      (auto simp: find_active_def and_then_def model_or_none_def)
qed

lemma shared_get_by_id:
  assumes "registry_ok calm cit s"
  shows "case sql_get_by_id (shared_session cit) i s of
      (Inr r, s') \<Rightarrow> registry_ok calm cit s' \<and> peer_commits s (registry_table s) (registry_table s')
        \<and> r = find (\<lambda>x. rep_id x = i \<and> active x) (registry_table s')
    | (Inl e, s') \<Rightarrow> \<not> calm \<and> registry_ok calm cit s' \<and> peer_commits s (registry_table s) (registry_table s')"
  unfolding sql_get_by_id_def by (rule shared_find [OF assms, of "Id_Equals i", unfolded meets.simps])
    (auto simp: table_ok_def distinct_map inj_on_def)

lemma shared_get_by_name:
  assumes "registry_ok calm cit s"
  shows "case sql_get_by_name (shared_session cit) n s of
      (Inr r, s') \<Rightarrow> registry_ok calm cit s' \<and> peer_commits s (registry_table s) (registry_table s')
        \<and> r = find (\<lambda>x. cit (rep_name x) = cit n \<and> active x) (registry_table s')
    | (Inl e, s') \<Rightarrow> \<not> calm \<and> registry_ok calm cit s' \<and> peer_commits s (registry_table s) (registry_table s')"
  unfolding sql_get_by_name_def by (rule shared_find [OF assms, of "Name_Equals n", unfolded meets.simps])
    (auto simp: table_ok_def distinct_map inj_on_def)

text \<open>The others are the same throughout.\<close>

definition peers_are :: "(nat \<Rightarrow> pystr list \<Rightarrow> uuid list \<Rightarrow> repository list \<Rightarrow> repository list) \<Rightarrow> registry \<Rightarrow> bool" where
  "peers_are p s \<longleftrightarrow> peers s = p"

lemma note_write_peers [simp]: "peers (note_write now stmt r s) = peers s"
  by (cases "(now, stmt, r, s)" rule: note_write.cases) simp_all

lemma peers_session [intro!]:
  "keeps (peers_are p) (shared_execute cit stmt)" "keeps (peers_are p) shared_commit" "keeps (peers_are p) shared_rollback"
  by (auto simp: keeps_def peers_are_def shared_execute_def shared_commit_def shared_rollback_def Let_def
      split: prod.splits sum.splits)

lemma peers_lookups [intro!]:
  "keeps (peers_are p) (scalars r)" "keeps (peers_are p) (id_or_none r)" "keeps (peers_are p) (model_or_none r)"
  "keeps (peers_are p) (scalar_one r)"
  by (cases r; auto simp: scalars_def id_or_none_def model_or_none_def scalar_one_def one_or_none_def split: list.split)+

lemma peers_store:
  "keeps (peers_are p) (sql_create (shared_session cit) n)" "keeps (peers_are p) (sql_get_by_id (shared_session cit) i)"
  "keeps (peers_are p) (sql_get_by_name (shared_session cit) n)" "keeps (peers_are p) (sql_delete (shared_session cit) i)"
  by (auto simp: sql_create_def flush_new_def sql_get_by_id_def sql_get_by_name_def find_active_def sql_delete_def Let_def
      intro!: keeps_and_then keeps_trying split: list.split)

lemma same_peers: "peers_are (peers s) s' \<Longrightarrow> peer_commits s' = peer_commits s"
  by (simp add: peers_are_def peer_commits_def fun_eq_iff)

section \<open>Calls and their answers\<close>

datatype registry_call =
    Create_Call pystr
  | Fetch_Call uuid
  | Fetch_Name_Call pystr
  | Delete_Call uuid

datatype registry_answer = Given repository | Deleted | Refused exn

text \<open>
  \<open>async with get_session_factory()() as session\<close>: the session is closed however the request ends, which
  gives its connection back and rolls back what is uncommitted.
\<close>

definition in_session :: "(registry, 'a) app \<Rightarrow> (registry, 'a) app" where
  "in_session m = finally_do m (on_part shared_rollback)"

definition answer_with :: "('a \<Rightarrow> registry_answer) \<Rightarrow> (registry, 'a) app \<Rightarrow> registry world \<Rightarrow> registry_answer \<times> registry world" where
  "answer_with f m w = (case in_session m w of (Inr x, w') \<Rightarrow> (f x, w') | (Inl e, w') \<Rightarrow> (Refused e, w'))"

fun call_registry :: "unicode_data \<Rightarrow> (pystr \<Rightarrow> pystr) \<Rightarrow> registry_call \<Rightarrow> registry world \<Rightarrow> registry_answer \<times> registry world" where
  "call_registry u cit (Create_Call v) = answer_with Given (create_execute u (shared_repositories cit) v)"
| "call_registry u cit (Fetch_Call i) = answer_with Given (get_by_id_execute (shared_repositories cit) i)"
| "call_registry u cit (Fetch_Name_Call v) = answer_with Given (get_by_name_execute u (shared_repositories cit) v)"
| "call_registry u cit (Delete_Call i) = answer_with (\<lambda>_. Deleted) (delete_execute (shared_repositories cit) i)"

text \<open>The operations of the table, each at one moment.\<close>

inductive registry_effect ::
  "unicode_data \<Rightarrow> (pystr \<Rightarrow> pystr) \<Rightarrow> registry_call \<Rightarrow> registry_answer \<Rightarrow> repository list \<Rightarrow> repository list \<Rightarrow> bool"
  for u cit where
  Created: "repository_name u v = Inr n \<Longrightarrow> rep_name r = n \<Longrightarrow> active r \<Longrightarrow> cit n \<notin> cit ` rep_name ` set t
    \<Longrightarrow> rep_id r \<notin> rep_id ` set t \<Longrightarrow> registry_effect u cit (Create_Call v) (Given r) t (t @ [r])"
| Bad_Name: "repository_name u v = Inl e \<Longrightarrow> registry_effect u cit (Create_Call v) (Refused e) t t"
| Name_Taken: "repository_name u v = Inr n \<Longrightarrow> cit n \<in> cit ` rep_name ` set t
    \<Longrightarrow> registry_effect u cit (Create_Call v) (Refused (Repo (RepositoryAlreadyExists None))) t t"
| Id_Taken: "r \<in> set t \<Longrightarrow> registry_effect u cit (Create_Call v) (Refused (violation ''23505'' (lit ''repositories_pkey''))) t t"
| Found: "find (\<lambda>x. rep_id x = i \<and> active x) t = Some r \<Longrightarrow> registry_effect u cit (Fetch_Call i) (Given r) t t"
| Not_Found: "find (\<lambda>x. rep_id x = i \<and> active x) t = None
    \<Longrightarrow> registry_effect u cit (Fetch_Call i) (Refused (not_found_by_id i)) t t"
| Found_Name: "find (\<lambda>x. cit (rep_name x) = cit v \<and> active x) t = Some r
    \<Longrightarrow> registry_effect u cit (Fetch_Name_Call v) (Given r) t t"
| Name_Not_Found: "find (\<lambda>x. cit (rep_name x) = cit v \<and> active x) t = None
    \<Longrightarrow> registry_effect u cit (Fetch_Name_Call v)
          (Refused (Repo (RepositoryNotFound (Some (lit ''repository not found: name='' @ repr_str u v))))) t t"
| Marked: "i \<in> rep_id ` set t \<Longrightarrow> registry_effect u cit (Delete_Call i) Deleted t (mark_deleted i now t)"
| Never_There: "i \<notin> rep_id ` set t \<Longrightarrow> registry_effect u cit (Delete_Call i) (Refused (not_found_by_id i)) t t"

text \<open>When the database may fail, a call may fail too; then it took effect whole, or not at all.\<close>

definition registry_outcome ::
  "bool \<Rightarrow> unicode_data \<Rightarrow> (pystr \<Rightarrow> pystr) \<Rightarrow> registry_call \<Rightarrow> registry_answer \<Rightarrow> repository list \<Rightarrow> repository list \<Rightarrow> bool" where
  "registry_outcome calm u cit c a t t' \<longleftrightarrow> registry_effect u cit c a t t'
     \<or> \<not> calm \<and> (\<exists>e. a = Refused e) \<and> (t' = t \<or> (\<exists>b. registry_effect u cit c b t t'))"

definition takes_effect ::
  "bool \<Rightarrow> unicode_data \<Rightarrow> (pystr \<Rightarrow> pystr) \<Rightarrow> registry_call \<Rightarrow> registry_answer \<Rightarrow> registry \<Rightarrow> registry \<Rightarrow> bool" where
  "takes_effect calm u cit c a s s' \<longleftrightarrow> registry_ok calm cit s'
     \<and> (\<exists>t t'. others_only s (registry_table s) t \<and> registry_outcome calm u cit c a t t' \<and> others_only s t' (registry_table s'))"

lemma effect_at_end:
  assumes "registry_ok calm cit s'" and "others_only s (registry_table s) t" and "registry_outcome calm u cit c a t (registry_table s')"
  shows "takes_effect calm u cit c a s s'"
  using assms unfolding takes_effect_def by blast

lemma effect_in_place:
  assumes "registry_ok calm cit s'" and "peer_commits s (registry_table s) (registry_table s')"
    and "registry_outcome calm u cit c a (registry_table s') (registry_table s')"
  shows "takes_effect calm u cit c a s s'"
  using effect_at_end [OF assms(1) _ assms(3), of s] assms(2) by blast

lemma no_effect:
  assumes "registry_ok calm cit s'" and "others_only s (registry_table s) (registry_table s')" and "\<not> calm"
  shows "takes_effect calm u cit c (Refused e) s s'"
  using effect_at_end [OF assms(1,2), of u c "Refused e"] assms(3) by (simp add: registry_outcome_def)

section \<open>Every call takes effect at one moment\<close>

lemma accepted_fits: "repository_name u v = Inr n \<Longrightarrow> length n \<le> MAX_NAME_LENGTH"
  using accepted_length [of u v n] by (simp add: MAX_NAME_LENGTH_def)

lemma created_effect:
  assumes "table_ok cit (t @ [r])" and "repository_name u v = Inr n" and "rep_name r = n" and "active r"
  shows "registry_effect u cit (Create_Call v) (Given r) t (t @ [r])"
  using assms by (intro registry_effect.Created [OF assms(2,3,4)]) (auto simp: table_ok_def)

lemma create_takes_effect:
  assumes "registry_ok calm cit (part w)"
  shows "case create_execute u (shared_repositories cit) v w of
      (Inr r, w') \<Rightarrow> takes_effect calm u cit (Create_Call v) (Given r) (part w) (part w')
    | (Inl e, w') \<Rightarrow> takes_effect calm u cit (Create_Call v) (Refused e) (part w) (part w')"
proof (cases "repository_name u v")
  case (Inl e)
  have "registry_outcome calm u cit (Create_Call v) (Refused e) (registry_table (part w)) (registry_table (part w))"
    using Inl by (simp add: registry_outcome_def registry_effect.Bad_Name)
  from effect_at_end [OF assms _ this] have "takes_effect calm u cit (Create_Call v) (Refused e) (part w) (part w)" by simp
  then show ?thesis by (simp add: create_execute_def Inl)
next
  case (Inr n)
  let ?s = "part w" and ?r = "inserted_row (session_db (part w)) n"
  have row: "rep_name ?r = n" "active ?r" by (simp_all add: inserted_row_def active_def)
  obtain q s' where run: "sql_create (shared_session cit) n ?s = (q, s')" by fastforce
  note outcome = create_shared [OF assms accepted_fits [OF Inr], unfolded run]
  show ?thesis
  proof (cases q)
    case (Inr r)
    with outcome obtain t where ok: "registry_ok calm cit s'" and r: "r = ?r"
      and t: "others_only ?s (registry_table ?s) t" "registry_table s' = t @ [r]" by auto
    have "registry_effect u cit (Create_Call v) (Given r) t (registry_table s')"
      unfolding t(2) by (rule created_effect) (use registry_okD(1) [OF ok] t(2) \<open>repository_name u v = Inr n\<close> row r in auto)
    then have "takes_effect calm u cit (Create_Call v) (Given r) ?s s'"
      by (intro effect_at_end [OF ok t(1)]) (simp add: registry_outcome_def)
    with run Inr \<open>repository_name u v = Inr n\<close> show ?thesis by (simp add: create_execute_def use_case_run)
  next
    case (Inl e)
    with outcome have ok: "registry_ok calm cit s'" by simp
    have "takes_effect calm u cit (Create_Call v) (Refused e) ?s s'"
    proof (cases "others_only ?s (registry_table ?s) (registry_table s')")
      case alone: True
      show ?thesis
      proof (cases calm)
        case False
        with no_effect [OF ok alone] show ?thesis .
      next
        case True
        with outcome Inl have "registry_effect u cit (Create_Call v) (Refused e) (registry_table s') (registry_table s')"
          using registry_effect.Name_Taken [OF \<open>repository_name u v = Inr n\<close>] by (auto intro: registry_effect.Id_Taken)
        then show ?thesis by (intro effect_at_end [OF ok alone]) (simp add: registry_outcome_def)
      qed
    next
      case False
      with outcome Inl obtain k t where k: "commit_fault (session_db ?s) k = Some (e, True)"
        and t: "others_only ?s (registry_table ?s) t" "registry_table s' = t @ [?r]" by auto
      have "\<not> calm" using k registry_okD(6) [OF assms] by auto
      moreover have "registry_effect u cit (Create_Call v) (Given ?r) t (registry_table s')"
        unfolding t(2) by (rule created_effect) (use registry_okD(1) [OF ok] t(2) \<open>repository_name u v = Inr n\<close> row in auto)
      ultimately show ?thesis by (intro effect_at_end [OF ok t(1)]) (auto simp: registry_outcome_def)
    qed
    with run Inl \<open>repository_name u v = Inr n\<close> show ?thesis by (simp add: create_execute_def use_case_run)
  qed
qed

lemma fetch_takes_effect:
  assumes "registry_ok calm cit (part w)"
  shows "case get_by_id_execute (shared_repositories cit) i w of
      (Inr r, w') \<Rightarrow> takes_effect calm u cit (Fetch_Call i) (Given r) (part w) (part w')
    | (Inl e, w') \<Rightarrow> takes_effect calm u cit (Fetch_Call i) (Refused e) (part w) (part w')"
proof -
  obtain q s' where run: "sql_get_by_id (shared_session cit) i (part w) = (q, s')" by fastforce
  note outcome = shared_get_by_id [OF assms, of i, unfolded run]
  show ?thesis
  proof (cases q)
    case (Inl e)
    with outcome run show ?thesis by (auto simp: get_by_id_execute_def use_case_run intro: no_effect)
  next
    case (Inr found)
    show ?thesis
    proof (cases found)
      case None
      with outcome Inr have "registry_effect u cit (Fetch_Call i) (Refused (not_found_by_id i)) (registry_table s') (registry_table s')"
        by (intro registry_effect.Not_Found) simp
      with outcome Inr None run show ?thesis
        by (auto simp: get_by_id_execute_def use_case_run registry_outcome_def intro: effect_in_place)
    next
      case (Some r)
      with outcome Inr have "registry_effect u cit (Fetch_Call i) (Given r) (registry_table s') (registry_table s')"
        by (intro registry_effect.Found) simp
      then have "takes_effect calm u cit (Fetch_Call i) (Given r) (part w) s'"
        using outcome Inr by (intro effect_in_place) (simp_all add: registry_outcome_def)
      with Inr Some run show ?thesis by (simp add: get_by_id_execute_def use_case_run)
    qed
  qed
qed

lemma fetch_name_takes_effect:
  assumes "registry_ok calm cit (part w)"
  shows "case get_by_name_execute u (shared_repositories cit) v w of
      (Inr r, w') \<Rightarrow> takes_effect calm u cit (Fetch_Name_Call v) (Given r) (part w) (part w')
    | (Inl e, w') \<Rightarrow> takes_effect calm u cit (Fetch_Name_Call v) (Refused e) (part w) (part w')"
proof -
  obtain q s' where run: "sql_get_by_name (shared_session cit) v (part w) = (q, s')" by fastforce
  note outcome = shared_get_by_name [OF assms, of v, unfolded run]
  show ?thesis
  proof (cases q)
    case (Inl e)
    with outcome run show ?thesis by (auto simp: get_by_name_execute_def use_case_run intro: no_effect)
  next
    case (Inr found)
    show ?thesis
    proof (cases found)
      case None
      with outcome Inr have "registry_effect u cit (Fetch_Name_Call v)
          (Refused (Repo (RepositoryNotFound (Some (lit ''repository not found: name='' @ repr_str u v))))) (registry_table s') (registry_table s')"
        by (intro registry_effect.Name_Not_Found) simp
      with outcome Inr None run show ?thesis
        by (auto simp: get_by_name_execute_def use_case_run registry_outcome_def intro: effect_in_place)
    next
      case (Some r)
      with outcome Inr have "registry_effect u cit (Fetch_Name_Call v) (Given r) (registry_table s') (registry_table s')"
        by (intro registry_effect.Found_Name) simp
      then have "takes_effect calm u cit (Fetch_Name_Call v) (Given r) (part w) s'"
        using outcome Inr by (intro effect_in_place) (simp_all add: registry_outcome_def)
      with Inr Some run show ?thesis by (simp add: get_by_name_execute_def use_case_run)
    qed
  qed
qed

lemma delete_takes_effect:
  assumes "registry_ok calm cit (part w)"
  shows "case delete_execute (shared_repositories cit) i w of
      (Inr _, w') \<Rightarrow> takes_effect calm u cit (Delete_Call i) Deleted (part w) (part w')
    | (Inl e, w') \<Rightarrow> takes_effect calm u cit (Delete_Call i) (Refused e) (part w) (part w')"
proof -
  let ?s = "part w"
  obtain q s' where run: "sql_delete (shared_session cit) i ?s = (q, s')" by fastforce
  note outcome = delete_shared [OF assms, of i, unfolded run]
  show ?thesis
  proof (cases q)
    case (Inr known)
    show ?thesis
    proof (cases known)
      case True
      with outcome Inr obtain t now where t: "registry_ok calm cit s'" "others_only ?s (registry_table ?s) t"
        "i \<in> rep_id ` set t" "registry_table s' = mark_deleted i now t" by auto
      have "registry_effect u cit (Delete_Call i) Deleted t (registry_table s')"
        unfolding t(4) using t(3) by (rule registry_effect.Marked)
      then have "takes_effect calm u cit (Delete_Call i) Deleted ?s s'"
        by (intro effect_at_end [OF t(1,2)]) (simp add: registry_outcome_def)
      with run Inr True show ?thesis by (simp add: delete_execute_def use_case_run)
    next
      case False
      with outcome Inr have "registry_ok calm cit s'" and later: "others_only ?s (registry_table ?s) (registry_table s')"
        and "registry_outcome calm u cit (Delete_Call i) (Refused (not_found_by_id i)) (registry_table ?s) (registry_table ?s)"
        by (simp_all add: registry_outcome_def registry_effect.Never_There)
      then have "takes_effect calm u cit (Delete_Call i) (Refused (not_found_by_id i)) ?s s'"
        unfolding takes_effect_def by blast
      with run Inr False show ?thesis by (simp add: delete_execute_def use_case_run)
    qed
  next
    case (Inl e)
    have ok: "registry_ok calm cit s'" and "\<not> calm" using outcome Inl by (cases calm; simp)+
    have "takes_effect calm u cit (Delete_Call i) (Refused e) ?s s'"
    proof (cases "others_only ?s (registry_table ?s) (registry_table s')")
      case True
      from no_effect [OF ok this \<open>\<not> calm\<close>] show ?thesis .
    next
      case False
      with outcome Inl obtain t now where t: "others_only ?s (registry_table ?s) t" "i \<in> rep_id ` set t"
        "registry_table s' = mark_deleted i now t" by auto
      have "registry_effect u cit (Delete_Call i) Deleted t (registry_table s')"
        unfolding t(3) using t(2) by (rule registry_effect.Marked)
      with \<open>\<not> calm\<close> show ?thesis by (intro effect_at_end [OF ok t(1)]) (auto simp: registry_outcome_def)
    qed
    with run Inl show ?thesis by (simp add: delete_execute_def use_case_run)
  qed
qed

text \<open>Closing the session changes nothing but what others commit meanwhile.\<close>

lemma shared_rollback_run:
  assumes "registry_ok calm cit s"
  shows "\<exists>s'. shared_rollback s = (Inr (), s') \<and> registry_ok calm cit s' \<and> peer_commits s (registry_table s) (registry_table s')"
proof -
  let ?s' = "nothing_held ((others_commit s)\<lparr>session_db := snd (db_rollback (session_db (others_commit s)))\<rparr>)"
  have "registry_ok calm cit ?s'"
    using registry_okD [OF others_commit_ok(1) [OF assms]] by (simp add: registry_ok_def db_rollback_def)
  moreover have "peer_commits s (registry_table s) (registry_table ?s')"
    using others_commit_alone [of s s] by (simp add: db_rollback_def)
  moreover have "shared_rollback s = (Inr (), ?s')" by (simp add: shared_rollback_def db_rollback_def Let_def)
  ultimately show ?thesis by blast
qed

lemma peers_use_cases:
  "keeps (\<lambda>w. peers_are p (part w)) (create_execute u (shared_repositories cit) v)"
  "keeps (\<lambda>w. peers_are p (part w)) (get_by_id_execute (shared_repositories cit) i)"
  "keeps (\<lambda>w. peers_are p (part w)) (get_by_name_execute u (shared_repositories cit) v)"
  "keeps (\<lambda>w. peers_are p (part w)) (delete_execute (shared_repositories cit) i)"
proof -
  have part: "keeps (\<lambda>w. peers_are p (part w)) (on_part m)" if "keeps (peers_are p) m" for m :: "(registry, exn, 'x) action"
    using that by (auto simp: keeps_def on_part_def lifting_def split: prod.split)
  have log: "keeps (\<lambda>w. peers_are p (part w)) (log_as l n es)" for l n es by (simp add: keeps_def)
  show "keeps (\<lambda>w. peers_are p (part w)) (create_execute u (shared_repositories cit) v)"
    unfolding create_execute_def by (cases "repository_name u v") (auto intro!: keeps_and_then part log simp: peers_store)
  show "keeps (\<lambda>w. peers_are p (part w)) (get_by_id_execute (shared_repositories cit) i)"
    unfolding get_by_id_execute_def log_retrieved_def
    by (auto intro!: keeps_and_then part log simp: peers_store split: option.split)
  show "keeps (\<lambda>w. peers_are p (part w)) (get_by_name_execute u (shared_repositories cit) v)"
    unfolding get_by_name_execute_def log_retrieved_def
    by (auto intro!: keeps_and_then part log simp: peers_store split: option.split)
  show "keeps (\<lambda>w. peers_are p (part w)) (delete_execute (shared_repositories cit) i)"
    unfolding delete_execute_def by (auto intro!: keeps_and_then part log simp: peers_store)
qed

lemma answers_take_effect:
  fixes m :: "(registry, 'x) app"
  assumes "registry_ok calm cit (part w)" and "keeps (\<lambda>w'. peers_are (peers (part w)) (part w')) m"
    and "case m w of (Inr x, w') \<Rightarrow> takes_effect calm u cit c (f x) (part w) (part w')
      | (Inl e, w') \<Rightarrow> takes_effect calm u cit c (Refused e) (part w) (part w')"
  shows "case answer_with f m w of (a, w') \<Rightarrow> takes_effect calm u cit c a (part w) (part w') \<and> peers (part w') = peers (part w)"
proof -
  obtain q w1 where run: "m w = (q, w1)" by fastforce
  let ?a = "case q of Inr x \<Rightarrow> f x | Inl e \<Rightarrow> Refused e"
  have effect: "takes_effect calm u cit c ?a (part w) (part w1)"
    using assms(3) by (cases q) (simp_all add: run)
  then have "registry_ok calm cit (part w1)" by (simp add: takes_effect_def)
  from shared_rollback_run [OF this] obtain s' where close: "shared_rollback (part w1) = (Inr (), s')" "registry_ok calm cit s'"
    "peer_commits (part w1) (registry_table (part w1)) (registry_table s')" by blast
  have same: "peers_are (peers (part w)) (part w1)"
    using keepsD [OF assms(2), of w] by (simp add: peers_are_def run)
  have "peer_commits (part w) (registry_table (part w1)) (registry_table s')"
    using close(3) same_peers [OF same] by simp
  with effect close(2) have "takes_effect calm u cit c ?a (part w) s'"
    unfolding takes_effect_def by (blast intro: rtranclp.rtrancl_into_rtrancl)
  moreover have "peers s' = peers (part w)"
    using keepsD [OF peers_session(3), of "peers (part w)" "part w1"] same close(1) by (simp add: peers_are_def)
  moreover have "answer_with f m w = (?a, w1\<lparr>part := s'\<rparr>)"
    using run close(1) by (cases q) (simp_all add: answer_with_def in_session_def finally_do_def on_part_run)
  ultimately show ?thesis by simp
qed

lemma call_takes_effect:
  assumes "registry_ok calm cit (part w)"
  shows "case call_registry u cit c w of (a, w') \<Rightarrow> takes_effect calm u cit c a (part w) (part w') \<and> peers (part w') = peers (part w)"
  by (cases c; simp only: call_registry.simps; rule answers_take_effect [OF assms])
    (rule peers_use_cases create_takes_effect [OF assms] fetch_takes_effect [OF assms] fetch_name_takes_effect [OF assms]
      delete_takes_effect [OF assms])+

section \<open>Properties\<close>

text \<open>C4. The registry is linearizable. A history of requests that create, look up and delete repositories, each
  in its own session, with any commits of other sessions between their statements that the locks
  allow, is one in which every request takes effect at one moment between its start and its end,
  as an atomic operation on the table: a creation adds one active row under a name and an identifier
  that no row has, or is refused because one has; a lookup answers the active row of that
  identifier or name at that moment; a deletion marks the row, which there is, or reports that there
  is none. At no other moment does a request change the table. When the database may fail
  statements or commits, a request that fails has taken effect whole or not at all.\<close>

theorem registry_histories_linearized:
  assumes "registry_ok calm cit (part w)"
  shows "case history (call_registry u cit) cs w of (as, w') \<Rightarrow>
      registry_ok calm cit (part w') \<and> length as = length cs
      \<and> linearized (others_only (part w)) (registry_outcome calm u cit) (zip cs as) (registry_table (part w)) (registry_table (part w'))"
proof -
  let ?ok = "\<lambda>v :: registry world. registry_ok calm cit (part v) \<and> peers_are (peers (part w)) (part v)"
  have "case history (call_registry u cit) cs w of (as, w') \<Rightarrow> ?ok w' \<and> length as = length cs
      \<and> linearized (others_only (part w)) (registry_outcome calm u cit) (zip cs as) (registry_table (part w)) (registry_table (part w'))"
  proof (rule history_linearized [where ok = ?ok and view = "\<lambda>v :: registry world. registry_table (part v)"])
    fix c and v :: "registry world"
    assume v: "?ok v"
    have "peer_commits (part v) = peer_commits (part w)" using v by (intro same_peers) simp
    with call_takes_effect [of calm cit v u c] v
    show "case call_registry u cit c v of (a, v') \<Rightarrow> ?ok v'
        \<and> (\<exists>t1 t2. others_only (part w) (registry_table (part v)) t1 \<and> registry_outcome calm u cit c a t1 t2
             \<and> others_only (part w) t2 (registry_table (part v')))"
      by (auto simp: takes_effect_def peers_are_def split: prod.splits)
  next
    show "?ok w" using assms by (simp add: peers_are_def)
  qed (auto intro: rtranclp_trans)
  then show ?thesis by (auto split: prod.splits)
qed

definition sample_requests :: "registry_call list" where
  "sample_requests = [Create_Call (lit ''b''), Fetch_Name_Call (lit ''b''), Delete_Call 101, Fetch_Call 101]"

lemma registry_histories_linearized_witness:
  "(\<exists>t. linearized (others_only (busy_registry id)) (registry_outcome True plain_unicode id)
      (zip sample_requests (fst (history (call_registry plain_unicode id) sample_requests
        \<lparr>part = busy_registry id, journal = [], bound_context = Map.empty\<rparr>))) [] t)
   \<and> (\<exists>t. linearized (others_only (broken_registry id)) (registry_outcome False plain_unicode id)
      (zip sample_requests (fst (history (call_registry plain_unicode id) sample_requests
        \<lparr>part = broken_registry id, journal = [], bound_context = Map.empty\<rparr>))) [] t)"
proof -
  have start: "registry_table (busy_registry id) = []" "registry_table (broken_registry id) = []"
    by (simp_all add: busy_registry_def broken_registry_def calm_db_def)
  note run = registry_histories_linearized [where u = plain_unicode and cs = sample_requests and cit = id]
  from run [where w = "\<lparr>part = busy_registry id, journal = [], bound_context = Map.empty\<rparr>" and calm = True]
    run [where w = "\<lparr>part = broken_registry id, journal = [], bound_context = Map.empty\<rparr>" and calm = False]
  show ?thesis
    using busy_registry_ok [of id] broken_registry_ok [of id] by (auto simp: start split: prod.splits)
qed

end
