(* ===== verification/Migrations.thy ===== *)
theory Migrations
  imports Sql_Engine Repo_Name
begin

text \<open>
  The schema: the three migrations (\<open>migrations/versions\<close>) as lists of operations on a catalogue
  of tables, indexes, constraints and extensions, run in one transaction as
  \<open>migrations/env.py\<close> does, and the table the SQLAlchemy model declares
  (\<open>infrastructure/database/models\<close>) with its naming convention.
\<close>

section \<open>The catalogue\<close>

datatype column_type = Uuid_Type | Citext_Type | Timestamptz_Type

datatype column_default = Uuid_Generate_V4 | Now_Default

record column_def =
  cd_name :: pystr
  cd_type :: column_type
  cd_primary :: bool
  cd_default :: "column_default option"
  cd_nullable :: bool

record index_def =
  ix_table :: pystr
  ix_columns :: "pystr list"
  ix_unique :: bool

text \<open>\<open>length(name::text) <= n\<close>.\<close>

datatype check = Length_At_Most pystr nat

record catalogue =
  extensions :: "pystr set"
  tables :: "pystr \<rightharpoonup> column_def list"
  indexes :: "pystr \<rightharpoonup> index_def"
  checks :: "(pystr \<times> pystr) \<rightharpoonup> check"

datatype migration_op =
    Create_Extension pystr
  | Drop_Extension pystr
  | Create_Table pystr "column_def list"
  | Drop_Table pystr
  | Create_Index pystr pystr "pystr list" bool
  | Drop_Index pystr
  | Create_Check_Constraint pystr pystr check
  | Drop_Constraint pystr pystr

text \<open>The extension that a column of a table needs.\<close>

definition column_needs :: "column_def \<Rightarrow> pystr list" where
  "column_needs c = (if cd_type c = Citext_Type then [lit ''citext''] else [])
     @ (if cd_default c = Some Uuid_Generate_V4 then [lit ''uuid-ossp''] else [])"

definition table_needs :: "column_def list \<Rightarrow> pystr set" where
  "table_needs cols = set (concat (map column_needs cols))"

definition extension_used :: "pystr \<Rightarrow> catalogue \<Rightarrow> bool" where
  "extension_used e c \<longleftrightarrow> (\<exists>cols\<in>ran (tables c). e \<in> table_needs cols)"

text \<open>
  A reference database. \<open>None\<close> is an error: a relation that exists or does not, a type or
  function that no extension provides, an extension that a table still uses.
\<close>

fun apply_op :: "migration_op \<Rightarrow> catalogue \<Rightarrow> catalogue option" where
  "apply_op (Create_Extension e) c = Some (c\<lparr>extensions := insert e (extensions c)\<rparr>)"
| "apply_op (Drop_Extension e) c =
     (if extension_used e c then None
      else Some (c\<lparr>extensions := extensions c - {e}\<rparr>))"
| "apply_op (Create_Table t cols) c =
     (if t \<in> dom (tables c) \<or> t \<in> dom (indexes c) \<or> \<not> table_needs cols \<subseteq> extensions c then None
      else Some (c\<lparr>tables := (tables c)(t \<mapsto> cols)\<rparr>))"
| "apply_op (Drop_Table t) c =
     (if t \<notin> dom (tables c) then None
      else Some (c\<lparr>tables := (tables c)(t := None),
        indexes := (\<lambda>n. case indexes c n of None \<Rightarrow> None | Some i \<Rightarrow> if ix_table i = t then None else Some i),
        checks := (\<lambda>(u, n). if u = t then None else checks c (u, n))\<rparr>))"
| "apply_op (Create_Index n t cols u) c =
     (case tables c t of
        None \<Rightarrow> None
      | Some cds \<Rightarrow>
          if n \<in> dom (tables c) \<or> n \<in> dom (indexes c) \<or> \<not> set cols \<subseteq> cd_name ` set cds then None
          else Some (c\<lparr>indexes := (indexes c)(n \<mapsto> \<lparr>ix_table = t, ix_columns = cols, ix_unique = u\<rparr>)\<rparr>))"
| "apply_op (Drop_Index n) c =
     (if n \<notin> dom (indexes c) then None else Some (c\<lparr>indexes := (indexes c)(n := None)\<rparr>))"
| "apply_op (Create_Check_Constraint n t k) c =
     (if t \<notin> dom (tables c) \<or> (t, n) \<in> dom (checks c) then None
      else Some (c\<lparr>checks := (checks c)((t, n) \<mapsto> k)\<rparr>))"
| "apply_op (Drop_Constraint n t) c =
     (if (t, n) \<notin> dom (checks c) then None else Some (c\<lparr>checks := (checks c)((t, n) := None)\<rparr>))"

fun apply_ops :: "migration_op list \<Rightarrow> catalogue \<Rightarrow> catalogue option" where
  "apply_ops [] c = Some c"
| "apply_ops (p # ps) c = (case apply_op p c of None \<Rightarrow> None | Some c' \<Rightarrow> apply_ops ps c')"

text \<open>\<open>with context.begin_transaction(): context.run_migrations()\<close>: an error rolls everything back.\<close>

definition do_run_migrations :: "migration_op list \<Rightarrow> (catalogue, exn, unit) action" where
  "do_run_migrations ps c = (case apply_ops ps c of
       None \<Rightarrow> (Inl (Db (OtherDBAPIError 0)), c)
     | Some c' \<Rightarrow> (Inr (), c'))"

section \<open>The migrations\<close>

record migration =
  revision :: pystr
  down_revision :: "pystr option"
  upgrade :: "migration_op list"
  downgrade :: "migration_op list"

definition enable_postgres_extensions :: migration where
  "enable_postgres_extensions =
     \<lparr>revision = lit ''0001_enable_postgres_extensions'', down_revision = None,
      upgrade = [Create_Extension (lit ''uuid-ossp''), Create_Extension (lit ''citext'')],
      downgrade = [Drop_Extension (lit ''citext''), Drop_Extension (lit ''uuid-ossp'')]\<rparr>"

definition schema_column :: "string \<Rightarrow> column_type \<Rightarrow> bool \<Rightarrow> column_default option \<Rightarrow> bool \<Rightarrow> column_def" where
  "schema_column n t p d null_ok = \<lparr>cd_name = lit n, cd_type = t, cd_primary = p, cd_default = d, cd_nullable = null_ok\<rparr>"

definition create_repositories_table :: migration where
  "create_repositories_table =
     \<lparr>revision = lit ''0002_create_repositories_table'', down_revision = Some (lit ''0001_enable_postgres_extensions''),
      upgrade =
        [Create_Table (lit ''repositories'')
          [schema_column ''id'' Uuid_Type True (Some Uuid_Generate_V4) False,
           schema_column ''name'' Citext_Type False None False,
           schema_column ''created_at'' Timestamptz_Type False (Some Now_Default) False,
           schema_column ''updated_at'' Timestamptz_Type False (Some Now_Default) False,
           schema_column ''deleted_at'' Timestamptz_Type False None True],
         Create_Index (lit ''ix_repositories_name'') (lit ''repositories'') [lit ''name''] True,
         Create_Index (lit ''ix_repositories_deleted_at'') (lit ''repositories'') [lit ''deleted_at''] False],
      downgrade =
        [Drop_Index (lit ''ix_repositories_deleted_at''), Drop_Index (lit ''ix_repositories_name''),
         Drop_Table (lit ''repositories'')]\<rparr>"

definition add_repository_name_length :: migration where
  "add_repository_name_length =
     \<lparr>revision = lit ''0003_add_repository_name_length'', down_revision = Some (lit ''0002_create_repositories_table''),
      upgrade = [Create_Check_Constraint NAME_LENGTH_CONSTRAINT (lit ''repositories'') (Length_At_Most (lit ''name'') MAX_NAME_LENGTH)],
      downgrade = [Drop_Constraint NAME_LENGTH_CONSTRAINT (lit ''repositories'')]\<rparr>"

definition MIGRATIONS :: "migration list" where
  "MIGRATIONS = [enable_postgres_extensions, create_repositories_table, add_repository_name_length]"

text \<open>Upgrading through some revisions, and back.\<close>

definition upgrade_to :: "nat \<Rightarrow> migration_op list" where
  "upgrade_to k = concat (map upgrade (take k MIGRATIONS))"

definition downgrade_from :: "nat \<Rightarrow> migration_op list" where
  "downgrade_from k = concat (map downgrade (rev (take k MIGRATIONS)))"

section \<open>The model\<close>

record mapped_column =
  mc_name :: pystr
  mc_type :: column_type
  mc_primary_key :: bool
  mc_server_default :: "column_default option"
  mc_nullable :: "bool option"
  mc_index :: bool
  mc_unique :: bool

definition NAMING_CONVENTION :: "(pystr \<times> pystr) list" where
  "NAMING_CONVENTION =
     [(lit ''ix'', lit ''ix_%(table_name)s_%(column_0_N_name)s''),
      (lit ''uq'', lit ''uq_%(table_name)s_%(column_0_name)s''),
      (lit ''ck'', lit ''ck_%(table_name)s_%(constraint_name)s''),
      (lit ''fk'', lit ''fk_%(table_name)s_%(column_0_name)s_%(referred_table_name)s''),
      (lit ''pk'', lit ''pk_%(table_name)s'')]"

definition repository_tablename :: pystr where
  "repository_tablename = lit ''repositories''"

definition repository_model :: "mapped_column list" where
  "repository_model =
     [\<lparr>mc_name = lit ''id'', mc_type = Uuid_Type, mc_primary_key = True, mc_server_default = Some Uuid_Generate_V4,
       mc_nullable = None, mc_index = False, mc_unique = False\<rparr>,
      \<lparr>mc_name = lit ''name'', mc_type = Citext_Type, mc_primary_key = False, mc_server_default = None,
       mc_nullable = Some False, mc_index = True, mc_unique = True\<rparr>,
      \<lparr>mc_name = lit ''created_at'', mc_type = Timestamptz_Type, mc_primary_key = False, mc_server_default = Some Now_Default,
       mc_nullable = Some False, mc_index = False, mc_unique = False\<rparr>,
      \<lparr>mc_name = lit ''updated_at'', mc_type = Timestamptz_Type, mc_primary_key = False, mc_server_default = Some Now_Default,
       mc_nullable = Some False, mc_index = False, mc_unique = False\<rparr>,
      \<lparr>mc_name = lit ''deleted_at'', mc_type = Timestamptz_Type, mc_primary_key = False, mc_server_default = None,
       mc_nullable = Some True, mc_index = True, mc_unique = False\<rparr>]"

text \<open>Python's \<open>%\<close> formatting with a mapping: \<open>%(key)s\<close> is replaced by the key's text.\<close>

function expand :: "(pystr \<Rightarrow> pystr) \<Rightarrow> pystr \<Rightarrow> pystr" where
  "expand env s = (case s of
       [] \<Rightarrow> []
     | c # rest \<Rightarrow>
         if c = 37 \<and> take 1 rest = [40]
         then env (takeWhile (\<lambda>d. d \<noteq> 41) (drop 1 rest)) @ expand env (drop 2 (dropWhile (\<lambda>d. d \<noteq> 41) (drop 1 rest)))
         else c # expand env rest)"
  by pat_completeness auto
termination
proof (relation "measure (length \<circ> snd)")
  fix env :: "pystr \<Rightarrow> pystr" and s c rest
  have "length (drop 2 (dropWhile (\<lambda>d. d \<noteq> 41) (drop 1 rest))) \<le> length rest"
    using length_dropWhile_le [of "\<lambda>d. d \<noteq> 41" "drop 1 rest"] by simp
  then show "s = c # rest \<Longrightarrow> ((env, drop 2 (dropWhile (\<lambda>d. d \<noteq> 41) (drop 1 rest))), env, s) \<in> measure (length \<circ> snd)"
    by simp
qed auto

declare expand.simps [simp del]

text \<open>The code reads no other conventions: what \<open>metadata\<close> makes of a column's \<open>index\<close>, \<open>unique\<close> and \<open>nullable\<close>.\<close>

definition convention_name :: "string \<Rightarrow> (pystr \<times> pystr) list \<Rightarrow> pystr" where
  "convention_name kind tokens =
     expand (\<lambda>k. case map_of tokens k of None \<Rightarrow> [] | Some v \<Rightarrow> v) (case map_of NAMING_CONVENTION (lit kind) of None \<Rightarrow> [] | Some f \<Rightarrow> f)"

definition column_index_name :: "mapped_column \<Rightarrow> pystr" where
  "column_index_name c = convention_name ''ix''
     [(lit ''table_name'', repository_tablename), (lit ''column_0_N_name'', mc_name c)]"

definition mapped_column_def :: "mapped_column \<Rightarrow> column_def" where
  "mapped_column_def c =
     \<lparr>cd_name = mc_name c, cd_type = mc_type c, cd_primary = mc_primary_key c, cd_default = mc_server_default c,
      cd_nullable = (case mc_nullable c of None \<Rightarrow> \<not> mc_primary_key c | Some b \<Rightarrow> b)\<rparr>"

definition mapped_indexes :: "pystr \<rightharpoonup> index_def" where
  "mapped_indexes = map_of (map (\<lambda>c. (column_index_name c,
     \<lparr>ix_table = repository_tablename, ix_columns = [mc_name c], ix_unique = mc_unique c\<rparr>))
       (filter mc_index repository_model))"

section \<open>Runs\<close>

lemmas migration_defs = enable_postgres_extensions_def create_repositories_table_def add_repository_name_length_def

lemma apply_ops_append:
  "apply_ops (ps @ qs) c = (case apply_ops ps c of None \<Rightarrow> None | Some c' \<Rightarrow> apply_ops qs c')"
  by (induction ps arbitrary: c) (auto split: option.split)

definition empty_catalogue :: catalogue where
  "empty_catalogue = \<lparr>extensions = {}, tables = Map.empty, indexes = Map.empty, checks = Map.empty\<rparr>"

text \<open>A catalogue in which nothing of the service is installed, whatever else it holds.\<close>

definition untouched_catalogue :: "catalogue \<Rightarrow> bool" where
  "untouched_catalogue c \<longleftrightarrow>
     extensions c \<inter> {lit ''uuid-ossp'', lit ''citext''} = {}
     \<and> (\<forall>cols\<in>ran (tables c). table_needs cols \<subseteq> extensions c)
     \<and> {repository_tablename, lit ''ix_repositories_name'', lit ''ix_repositories_deleted_at''}
         \<inter> (dom (tables c) \<union> dom (indexes c)) = {}
     \<and> (\<forall>i\<in>ran (indexes c). ix_table i \<in> dom (tables c))
     \<and> (\<forall>t n k. checks c (t, n) = Some k \<longrightarrow> t \<in> dom (tables c))"

definition with_extensions :: "catalogue \<Rightarrow> catalogue" where
  "with_extensions c = c\<lparr>extensions := insert (lit ''citext'') (insert (lit ''uuid-ossp'') (extensions c))\<rparr>"

definition model_columns :: "column_def list" where
  "model_columns = map mapped_column_def repository_model"

definition with_table :: "catalogue \<Rightarrow> catalogue" where
  "with_table c = c\<lparr>tables := (tables c)(repository_tablename \<mapsto> model_columns),
     indexes := (indexes c)(
       lit ''ix_repositories_name'' \<mapsto> \<lparr>ix_table = repository_tablename, ix_columns = [lit ''name''], ix_unique = True\<rparr>,
       lit ''ix_repositories_deleted_at'' \<mapsto> \<lparr>ix_table = repository_tablename, ix_columns = [lit ''deleted_at''], ix_unique = False\<rparr>)\<rparr>"

definition with_check :: "catalogue \<Rightarrow> catalogue" where
  "with_check c = c\<lparr>checks := (checks c)((repository_tablename, NAME_LENGTH_CONSTRAINT) \<mapsto> Length_At_Most (lit ''name'') MAX_NAME_LENGTH)\<rparr>"

lemma object_names:
  "lit ''citext'' \<noteq> lit ''uuid-ossp''" "lit ''ix_repositories_name'' \<noteq> lit ''ix_repositories_deleted_at''"
  "repository_tablename \<noteq> lit ''ix_repositories_name''" "repository_tablename \<noteq> lit ''ix_repositories_deleted_at''"
  by (simp_all add: lit_def repository_tablename_def)

lemma migrated_columns:
  "[schema_column ''id'' Uuid_Type True (Some Uuid_Generate_V4) False, schema_column ''name'' Citext_Type False None False,
      schema_column ''created_at'' Timestamptz_Type False (Some Now_Default) False,
      schema_column ''updated_at'' Timestamptz_Type False (Some Now_Default) False,
      schema_column ''deleted_at'' Timestamptz_Type False None True] = model_columns"
  by (simp add: repository_model_def mapped_column_def_def schema_column_def model_columns_def)

lemma model_needs: "table_needs model_columns = {lit ''citext'', lit ''uuid-ossp''}"
  by (auto simp: table_needs_def migrated_columns [symmetric] schema_column_def column_needs_def)

lemma model_column_names: "lit ''name'' \<in> cd_name ` set model_columns" "lit ''deleted_at'' \<in> cd_name ` set model_columns"
  by (simp_all add: migrated_columns [symmetric] schema_column_def)

lemma create_repositories_ops:
  "upgrade create_repositories_table =
     [Create_Table repository_tablename model_columns,
      Create_Index (lit ''ix_repositories_name'') repository_tablename [lit ''name''] True,
      Create_Index (lit ''ix_repositories_deleted_at'') repository_tablename [lit ''deleted_at''] False]"
  by (simp add: create_repositories_table_def migrated_columns repository_tablename_def)

lemma upgrade_extensions: "apply_ops (upgrade enable_postgres_extensions) c = Some (with_extensions c)"
  by (simp add: migration_defs with_extensions_def)

lemma untouchedD:
  assumes "untouched_catalogue c"
  shows "lit ''uuid-ossp'' \<notin> extensions c" "lit ''citext'' \<notin> extensions c"
    and "\<not> extension_used (lit ''uuid-ossp'') c" "\<not> extension_used (lit ''citext'') c"
    and "tables c repository_tablename = None" "indexes c repository_tablename = None"
    and "tables c (lit ''ix_repositories_name'') = None" "indexes c (lit ''ix_repositories_name'') = None"
    and "tables c (lit ''ix_repositories_deleted_at'') = None" "indexes c (lit ''ix_repositories_deleted_at'') = None"
  using assms unfolding untouched_catalogue_def extension_used_def by auto

lemma downgrade_extensions:
  assumes "untouched_catalogue c"
  shows "apply_ops (downgrade enable_postgres_extensions) (with_extensions c) = Some c"
proof -
  have used: "extension_used e (c\<lparr>extensions := x\<rparr>) = extension_used e c" for e x
    by (simp add: extension_used_def)
  have "insert (lit ''citext'') (insert (lit ''uuid-ossp'') (extensions c)) - {lit ''citext''} - {lit ''uuid-ossp''} = extensions c"
    using untouchedD(1,2) [OF assms] by blast
  then show ?thesis
    using untouchedD(3,4) [OF assms] by (simp add: migration_defs with_extensions_def used)
qed

lemma upgrade_table:
  assumes "untouched_catalogue c"
  shows "apply_ops (upgrade create_repositories_table) (with_extensions c) = Some (with_table (with_extensions c))"
  using untouchedD [OF assms] object_names model_column_names
  by (simp add: create_repositories_ops with_table_def with_extensions_def model_needs domIff)

lemma check_free: "untouched_catalogue c \<Longrightarrow> checks c (repository_tablename, n) = None"
  using untouchedD(5) [of c] unfolding untouched_catalogue_def
  by (cases "checks c (repository_tablename, n)") fastforce+

lemma downgrade_table:
  assumes "untouched_catalogue c"
  shows "apply_ops (downgrade create_repositories_table) (with_table (with_extensions c)) = Some (with_extensions c)"
proof -
  have "(case indexes c n of None \<Rightarrow> None | Some i \<Rightarrow> if ix_table i = repository_tablename then None else Some i) = indexes c n" for n
  proof (cases "indexes c n")
    case (Some i)
    then have "ix_table i \<in> dom (tables c)" using assms by (auto simp: untouched_catalogue_def ran_def)
    with untouchedD(5) [OF assms] Some show ?thesis by auto
  qed simp
  moreover note check_free [OF assms]
  ultimately show ?thesis
    using untouchedD [OF assms] object_names
    by (auto simp: create_repositories_table_def repository_tablename_def [symmetric] with_table_def with_extensions_def
        fun_upd_twist fun_upd_idem intro!: catalogue.equality ext)
qed

lemma upgrade_check:
  assumes "untouched_catalogue c"
  shows "apply_ops (upgrade add_repository_name_length) (with_table (with_extensions c)) = Some (with_check (with_table (with_extensions c)))"
  using check_free [OF assms]
  by (simp add: add_repository_name_length_def repository_tablename_def [symmetric] with_check_def with_table_def with_extensions_def domIff)

lemma downgrade_check:
  assumes "untouched_catalogue c"
  shows "apply_ops (downgrade add_repository_name_length) (with_check (with_table (with_extensions c))) = Some (with_table (with_extensions c))"
  using check_free [OF assms]
  by (simp add: add_repository_name_length_def repository_tablename_def [symmetric] with_check_def with_table_def with_extensions_def
      fun_upd_idem)

lemmas migration_runs = apply_ops_append upgrade_extensions upgrade_table upgrade_check
  downgrade_extensions downgrade_table downgrade_check

lemma expand_step:
  "expand env [] = []"
  "c \<noteq> 37 \<Longrightarrow> expand env (c # rest) = c # expand env rest"
  "expand env (37 # 40 # rest) = env (takeWhile (\<lambda>d. d \<noteq> 41) rest) @ expand env (drop 2 (dropWhile (\<lambda>d. d \<noteq> 41) rest))"
  by (subst expand.simps; simp)+

lemma index_names:
  "column_index_name c = lit ''ix_repositories_'' @ mc_name c"
  by (simp add: column_index_name_def convention_name_def NAMING_CONVENTION_def expand_step lit_def repository_tablename_def)

lemma check_name:
  "convention_name ''ck'' [(lit ''table_name'', repository_tablename), (lit ''constraint_name'', lit ''name_length'')] = NAME_LENGTH_CONSTRAINT"
  by (simp add: convention_name_def NAMING_CONVENTION_def expand_step lit_def repository_tablename_def NAME_LENGTH_CONSTRAINT_def)

lemma mapped_indexes_eval:
  "mapped_indexes = [lit ''ix_repositories_name'' \<mapsto> \<lparr>ix_table = repository_tablename, ix_columns = [lit ''name''], ix_unique = True\<rparr>,
     lit ''ix_repositories_deleted_at'' \<mapsto> \<lparr>ix_table = repository_tablename, ix_columns = [lit ''deleted_at''], ix_unique = False\<rparr>]"
  by (simp add: mapped_indexes_def repository_model_def index_names lit_def fun_upd_twist)

section \<open>Properties\<close>



definition foreign_catalogue :: catalogue where
  "foreign_catalogue = empty_catalogue\<lparr>extensions := {lit ''pgcrypto''},
     tables := [lit ''users'' \<mapsto> [schema_column ''id'' Timestamptz_Type True None False]],
     checks := [(lit ''users'', lit ''ck_users_id'') \<mapsto> Length_At_Most (lit ''id'') 3]\<rparr>"


end
