(* ===== verification/Migration_Env.thy ===== *)
theory Migration_Env
  imports Migrations Settings
begin

text \<open>
  The migration environment (\<open>src/migrations/env.py\<close>): where the database's address comes from, and
  the two ways a run goes, offline into a script and online over one connection. Alembic decides
  which operations a command runs and whether it is offline; with its configuration file and the
  engine's failures they are the argument \<open>alembic\<close>.
\<close>

section \<open>State\<close>

text \<open>What an offline run prints.\<close>

datatype script_line = Begin_Transaction | Operation migration_op | Commit_Transaction

record migration_world =
  database :: catalogue
  script :: "script_line list"
  configured_url :: "pystr option"
  engine_urls :: "pystr option list" \<comment> \<open>of the engines created and not disposed\<close>
  connections :: nat
  loggers_from :: "pystr option"

record alembic =
  al_offline :: bool
  al_operations :: "migration_op list"
  al_config_file_name :: "pystr option"
  al_file_config :: "pystr \<Rightarrow> exn option"
  al_section :: "pystr \<rightharpoonup> pystr"
  al_settings :: "exn + settings"
  al_engine_error :: "pystr option \<Rightarrow> exn option"
  al_connect_error :: "exn option"
  al_dispose_error :: "exn option"

type_synonym 'a migrating = "(migration_world, exn, 'a) action"

definition raised_or :: "exn option \<Rightarrow> (migration_world \<Rightarrow> migration_world) \<Rightarrow> unit migrating" where
  "raised_or err f w = (case err of Some e \<Rightarrow> (Inl e, w) | None \<Rightarrow> (Inr (), f w))"

section \<open>Operations\<close>

definition get_database_url :: "alembic \<Rightarrow> pystr migrating" where
  "get_database_url al = (case al_settings al of Inl e \<Rightarrow> raising e | Inr st \<Rightarrow> returning (database_url st))"

definition run_migrations_offline :: "alembic \<Rightarrow> unit migrating" where
  "run_migrations_offline al =
     and_then (get_database_url al) (\<lambda>url w.
       (Inr (), w\<lparr>configured_url := Some url,
          script := script w @ Begin_Transaction # map Operation (al_operations al) @ [Commit_Transaction]\<rparr>))"

definition async_engine_from_config :: "alembic \<Rightarrow> (pystr \<rightharpoonup> pystr) \<Rightarrow> unit migrating" where
  "async_engine_from_config al configuration =
     (let url = configuration (lit ''sqlalchemy.url'')
      in raised_or (al_engine_error al url) (\<lambda>w. w\<lparr>engine_urls := engine_urls w @ [url]\<rparr>))"

text \<open>\<open>do_run_migrations\<close> on the connection, whose database is the catalogue.\<close>

definition on_database :: "(catalogue, exn, 'a) action \<Rightarrow> 'a migrating" where
  "on_database = lifting database (\<lambda>c w. w\<lparr>database := c\<rparr>)"

definition run_async_migrations :: "alembic \<Rightarrow> unit migrating" where
  "run_async_migrations al =
     and_then (get_database_url al) (\<lambda>url.
     let configuration = (al_section al)(lit ''sqlalchemy.url'' \<mapsto> url)
     in and_then (async_engine_from_config al configuration) (\<lambda>_.
        and_then
          (and_then (raised_or (al_connect_error al) (\<lambda>w. w\<lparr>connections := Suc (connections w)\<rparr>)) (\<lambda>_.
             finally_do (on_database (do_run_migrations (al_operations al)))
               (\<lambda>w. (Inr (), w\<lparr>connections := connections w - 1\<rparr>))))
          (\<lambda>_. raised_or (al_dispose_error al) (\<lambda>w. w\<lparr>engine_urls := butlast (engine_urls w)\<rparr>))))"

definition run_migrations_online :: "alembic \<Rightarrow> unit migrating" where
  "run_migrations_online al = run_async_migrations al"

text \<open>The body of the module: its loggers, and then the run.\<close>

definition configure_loggers :: "alembic \<Rightarrow> unit migrating" where
  "configure_loggers al = (case al_config_file_name al of
      None \<Rightarrow> returning ()
    | Some f \<Rightarrow> raised_or (al_file_config al f) (\<lambda>w. w\<lparr>loggers_from := Some f\<rparr>))"

definition migration_env :: "alembic \<Rightarrow> unit migrating" where
  "migration_env al =
     and_then (configure_loggers al) (\<lambda>_. if al_offline al then run_migrations_offline al else run_migrations_online al)"

section \<open>Facts\<close>

lemmas migration_env_defs = migration_env_def configure_loggers_def run_migrations_offline_def run_migrations_online_def
  run_async_migrations_def get_database_url_def async_engine_from_config_def raised_or_def on_database_def
  do_run_migrations_def

text \<open>
  The exception that ends a run before a migration is applied: of the logging configuration, the
  settings, the engine or the connection, in the order they are reached.
\<close>

definition run_refused :: "alembic \<Rightarrow> exn option" where
  "run_refused al = (case Option.bind (al_config_file_name al) (al_file_config al) of
       Some e \<Rightarrow> Some e
     | None \<Rightarrow> (case al_settings al of
         Inl e \<Rightarrow> Some e
       | Inr st \<Rightarrow> if al_offline al then None
           else (case al_engine_error al (Some (database_url st)) of Some e \<Rightarrow> Some e | None \<Rightarrow> al_connect_error al)))"

lemma env_refused:
  assumes "run_refused al = Some e"
  shows "\<exists>w'. migration_env al w = (Inl e, w') \<and> database w' = database w \<and> script w' = script w \<and> connections w' = connections w"
  using assms
  by (auto simp: run_refused_def migration_env_defs and_then_def Let_def split: option.splits sum.splits if_splits)

section \<open>Properties\<close>

text \<open>C13. A migration run is all or nothing and talks to one database. Online, when the settings, the engine
  and the connection are there, the operations are applied to the database whole, or the error is
  raised and the database is as before; the connection is closed either way. Offline the same
  operations are printed between the transaction's brackets and the database is not touched. What
  stops a run earlier leaves the database, the script and the connections alone. The address is
  always that of the service's settings, whatever the configuration file says.\<close>

theorem migration_run:
  "(case run_refused al of
      Some e \<Rightarrow> \<exists>w'. migration_env al w = (Inl e, w') \<and> database w' = database w \<and> script w' = script w
        \<and> connections w' = connections w
    | None \<Rightarrow> \<exists>st r w'. al_settings al = Inr st \<and> migration_env al w = (r, w') \<and> connections w' = connections w \<and>
        (if al_offline al then r = Inr () \<and> database w' = database w \<and> configured_url w' = Some (database_url st)
           \<and> script w' = script w @ Begin_Transaction # map Operation (al_operations al) @ [Commit_Transaction]
         else script w' = script w \<and> (case apply_ops (al_operations al) (database w) of
             None \<Rightarrow> r = Inl (Db (OtherDBAPIError 0)) \<and> database w' = database w
               \<and> engine_urls w' = engine_urls w @ [Some (database_url st)]
           | Some c \<Rightarrow> database w' = c \<and> (case al_dispose_error al of
                 None \<Rightarrow> r = Inr () \<and> engine_urls w' = engine_urls w
               | Some e \<Rightarrow> r = Inl e \<and> engine_urls w' = engine_urls w @ [Some (database_url st)]))))"
proof (cases "run_refused al")
  case (Some e)
  with env_refused [OF Some, of w] show ?thesis by simp
next
  case None
  then obtain st where st: "al_settings al = Inr st"
    by (auto simp: run_refused_def split: option.splits sum.splits)
  show ?thesis
  proof (cases "al_offline al")
    case True
    with None st show ?thesis
      by (auto simp: run_refused_def migration_env_defs and_then_def split: option.splits)
  next
    case False
    with None st have "al_engine_error al (Some (database_url st)) = None" "al_connect_error al = None"
      and "Option.bind (al_config_file_name al) (al_file_config al) = None"
      by (auto simp: run_refused_def split: option.splits)
    with None st False show ?thesis
      by (auto simp: migration_env_defs and_then_def finally_do_def lifting_def Let_def
          split: option.splits)
  qed
qed

end
