(* ===== verification/Http_Errors.thy ===== *)
theory Http_Errors
  imports Events
begin

text \<open>
  Exceptions as HTTP error responses (\<open>api/errors\<close> and the registrations of \<open>main.py\<close>): the
  presentations, the handlers, each with the record it writes, and the table they are
  registered in. Which registered handler an exception reaches is decided by the framework
  from the exception's class and its ancestors.
\<close>

section \<open>Classes\<close>

text \<open>The classes that the lookups distinguish, and the method resolution order of an exception's.\<close>

datatype exn_class =
    Class_Wooloo wooloo_class
  | Class_StorageException | Class_BlobNotFound | Class_BlobAlreadyExists
  | Class_RepositoryError | Class_InvalidRepositoryName | Class_RepositoryAlreadyExists | Class_RepositoryNotFound
  | Class_Exception | Class_BaseException | Class_Builtin

fun wooloo_mro :: "wooloo_class \<Rightarrow> wooloo_class list" where
  "wooloo_mro WoolooException = [WoolooException]"
| "wooloo_mro ValidationException = [ValidationException, WoolooException]"
| "wooloo_mro NotFoundException = [NotFoundException, WoolooException]"
| "wooloo_mro ConflictException = [ConflictException, WoolooException]"
| "wooloo_mro (Subclass n c) = Subclass n c # wooloo_mro c"

fun storage_mro :: "storage_exn \<Rightarrow> exn_class list" where
  "storage_mro (StorageException m) = [Class_StorageException]"
| "storage_mro (BlobNotFound m) = [Class_BlobNotFound, Class_StorageException]"
| "storage_mro (BlobAlreadyExists m) = [Class_BlobAlreadyExists, Class_StorageException]"

fun repository_mro :: "repository_exn \<Rightarrow> exn_class list" where
  "repository_mro (RepositoryError m) = [Class_RepositoryError]"
| "repository_mro (InvalidRepositoryName m) = [Class_InvalidRepositoryName, Class_RepositoryError]"
| "repository_mro (RepositoryAlreadyExists m) = [Class_RepositoryAlreadyExists, Class_RepositoryError]"
| "repository_mro (RepositoryNotFound m) = [Class_RepositoryNotFound, Class_RepositoryError]"

fun wooloo_type :: "wooloo_exn \<Rightarrow> wooloo_class" where
  "wooloo_type (Wooloo_Exn c m) = c"

definition mro :: "exn \<Rightarrow> exn_class list" where
  "mro e = (case e of
       Wooloo x \<Rightarrow> map Class_Wooloo (wooloo_mro (wooloo_type x))
     | Storage x \<Rightarrow> storage_mro x
     | Repo x \<Rightarrow> repository_mro x
     | _ \<Rightarrow> [Class_Builtin]) @ (if is_exception e then [Class_Exception] else []) @ [Class_BaseException]"

section \<open>Presentations\<close>

record error_presentation =
  pr_status_code :: nat
  pr_code :: pystr
  pr_default_message :: pystr

definition VALIDATION_ERROR :: error_presentation where
  "VALIDATION_ERROR = \<lparr>pr_status_code = 400, pr_code = lit ''validation_error'', pr_default_message = lit ''Validation failed''\<rparr>"

definition NOT_FOUND :: error_presentation where
  "NOT_FOUND = \<lparr>pr_status_code = 404, pr_code = lit ''not_found'', pr_default_message = lit ''Resource not found''\<rparr>"

definition CONFLICT :: error_presentation where
  "CONFLICT = \<lparr>pr_status_code = 409, pr_code = lit ''conflict'', pr_default_message = lit ''Resource already exists''\<rparr>"

definition DOMAIN_PRESENTATIONS :: "(wooloo_class \<times> error_presentation) list" where
  "DOMAIN_PRESENTATIONS =
     [(ValidationException, VALIDATION_ERROR), (NotFoundException, NOT_FOUND), (ConflictException, CONFLICT)]"

definition INTERNAL_ERROR :: error_presentation where
  "INTERNAL_ERROR = \<lparr>pr_status_code = 500, pr_code = lit ''internal_error'', pr_default_message = lit ''An unexpected error occurred''\<rparr>"

section \<open>Responses and handlers\<close>

record error_response =
  err_code :: pystr
  err_message :: pystr
  err_request_id :: "pystr option"

record json_response =
  resp_status :: nat
  resp_content :: error_response

text \<open>What handlers read of a request: the texts in its \<open>state\<close>.\<close>

record request =
  req_state :: "pystr \<rightharpoonup> pystr"

definition resolve_state_request_id :: "request \<Rightarrow> pystr option" where
  "resolve_state_request_id req = req_state req (lit ''request_id'')"

definition json_error_response :: "error_presentation \<Rightarrow> pystr \<Rightarrow> pystr option \<Rightarrow> json_response" where
  "json_error_response presentation message request_id =
     \<lparr>resp_status = pr_status_code presentation,
      resp_content = \<lparr>err_code = pr_code presentation, err_message = message, err_request_id = request_id\<rparr>\<rparr>"

text \<open>\<open>m or default\<close>: an empty text is false.\<close>

definition or_default :: "pystr option \<Rightarrow> pystr \<Rightarrow> pystr" where
  "or_default m d = (case m of None \<Rightarrow> d | Some t \<Rightarrow> if t = [] then d else t)"

fun exn_message :: "exn \<Rightarrow> pystr option" where
  "exn_message (Wooloo x) = wooloo_message x"
| "exn_message (Storage x) = storage_message x"
| "exn_message (Repo x) = repository_message x"
| "exn_message _ = None"

fun nearest_presentation :: "wooloo_class list \<Rightarrow> error_presentation option" where
  "nearest_presentation [] = None"
| "nearest_presentation (cls # rest) = (case map_of DOMAIN_PRESENTATIONS cls of
       Some presentation \<Rightarrow> Some presentation
     | None \<Rightarrow> nearest_presentation rest)"

definition resolve_presentation :: "wooloo_exn \<Rightarrow> error_presentation option" where
  "resolve_presentation exc = nearest_presentation (wooloo_mro (wooloo_type exc))"

definition request_failed_fields :: "pystr option \<Rightarrow> pystr \<Rightarrow> (pystr \<times> field_value) list" where
  "request_failed_fields request_id code = [(lit ''request_id'', text_or_none request_id), (lit ''code'', Text code)]"

definition unhandled_exception_handler :: "request \<Rightarrow> exn \<Rightarrow> ('p, json_response) app" where
  "unhandled_exception_handler request exc =
     (let request_id = resolve_state_request_id request in
      and_then (log_exception (lit ''request_failed'') (request_failed_fields request_id (pr_code INTERNAL_ERROR)) exc) (\<lambda>_.
      returning (json_error_response INTERNAL_ERROR (pr_default_message INTERNAL_ERROR) request_id)))"

definition wooloo_exception_handler :: "request \<Rightarrow> wooloo_exn \<Rightarrow> ('p, json_response) app" where
  "wooloo_exception_handler request exc = (case resolve_presentation exc of
       None \<Rightarrow> unhandled_exception_handler request (Wooloo exc)
     | Some presentation \<Rightarrow>
         (let request_id = resolve_state_request_id request in
          and_then (log_as WARNING (lit ''request_failed'') (request_failed_fields request_id (pr_code presentation))) (\<lambda>_.
          returning (json_error_response presentation
            (or_default (wooloo_message exc) (pr_default_message presentation)) request_id))))"

definition repository_error_response :: "request \<Rightarrow> repository_exn \<Rightarrow> error_presentation \<Rightarrow> ('p, json_response) app" where
  "repository_error_response request exc presentation =
     (let request_id = resolve_state_request_id request in
      and_then (log_as WARNING (lit ''request_failed'') (request_failed_fields request_id (pr_code presentation))) (\<lambda>_.
      returning (json_error_response presentation
        (or_default (repository_message exc) (pr_default_message presentation)) request_id)))"

definition invalid_repository_name_handler :: "request \<Rightarrow> repository_exn \<Rightarrow> ('p, json_response) app" where
  "invalid_repository_name_handler request exc = repository_error_response request exc VALIDATION_ERROR"

definition repository_already_exists_handler :: "request \<Rightarrow> repository_exn \<Rightarrow> ('p, json_response) app" where
  "repository_already_exists_handler request exc = repository_error_response request exc CONFLICT"

definition repository_not_found_handler :: "request \<Rightarrow> repository_exn \<Rightarrow> ('p, json_response) app" where
  "repository_not_found_handler request exc = repository_error_response request exc NOT_FOUND"

definition storage_error_response :: "request \<Rightarrow> storage_exn \<Rightarrow> error_presentation \<Rightarrow> ('p, json_response) app" where
  "storage_error_response request exc presentation =
     (let request_id = resolve_state_request_id request in
      and_then (log_as WARNING (lit ''request_failed'') (request_failed_fields request_id (pr_code presentation))) (\<lambda>_.
      returning (json_error_response presentation
        (or_default (storage_message exc) (pr_default_message presentation)) request_id)))"

definition blob_not_found_handler :: "request \<Rightarrow> storage_exn \<Rightarrow> ('p, json_response) app" where
  "blob_not_found_handler request exc = storage_error_response request exc NOT_FOUND"

definition blob_already_exists_handler :: "request \<Rightarrow> storage_exn \<Rightarrow> ('p, json_response) app" where
  "blob_already_exists_handler request exc = storage_error_response request exc CONFLICT"

section \<open>Registration\<close>

text \<open>
  A handler is registered for a class and called with an instance of it; the constructor says
  which hierarchy it takes its argument from.
\<close>

datatype 'p handler =
    Wooloo_Handler "request \<Rightarrow> wooloo_exn \<Rightarrow> ('p, json_response) app"
  | Repository_Handler "request \<Rightarrow> repository_exn \<Rightarrow> ('p, json_response) app"
  | Storage_Handler "request \<Rightarrow> storage_exn \<Rightarrow> ('p, json_response) app"
  | Any_Handler "request \<Rightarrow> exn \<Rightarrow> ('p, json_response) app"

text \<open>Calling one with an exception of another hierarchy finds no \<open>message\<close> on it.\<close>

fun call_handler :: "'p handler \<Rightarrow> request \<Rightarrow> exn \<Rightarrow> ('p, json_response) app" where
  "call_handler (Wooloo_Handler h) request (Wooloo e) = h request e"
| "call_handler (Repository_Handler h) request (Repo e) = h request e"
| "call_handler (Storage_Handler h) request (Storage e) = h request e"
| "call_handler (Any_Handler h) request e = h request e"
| "call_handler _ request e = raising (Other_Exception 0)"

definition EXCEPTION_HANDLERS :: "(exn_class \<times> 'p handler) list" where
  "EXCEPTION_HANDLERS =
     [(Class_Wooloo WoolooException, Wooloo_Handler wooloo_exception_handler),
      (Class_InvalidRepositoryName, Repository_Handler invalid_repository_name_handler),
      (Class_RepositoryAlreadyExists, Repository_Handler repository_already_exists_handler),
      (Class_RepositoryNotFound, Repository_Handler repository_not_found_handler),
      (Class_BlobNotFound, Storage_Handler blob_not_found_handler),
      (Class_BlobAlreadyExists, Storage_Handler blob_already_exists_handler),
      (Class_Exception, Any_Handler unhandled_exception_handler)]"

text \<open>
  The framework's documented lookup: the handler of the first class of the exception's
  resolution order that has one.
\<close>

fun nearest_registered :: "(exn_class \<times> 'h) list \<Rightarrow> exn_class list \<Rightarrow> 'h option" where
  "nearest_registered table [] = None"
| "nearest_registered table (c # cs) = (case map_of table c of Some h \<Rightarrow> Some h | None \<Rightarrow> nearest_registered table cs)"

definition looks_up_nearest :: "((exn_class \<times> 'h) list \<Rightarrow> exn \<Rightarrow> 'h option) \<Rightarrow> bool" where
  "looks_up_nearest lookup \<longleftrightarrow> (\<forall>table e. lookup table e = nearest_registered table (mro e))"

section \<open>The specification\<close>

text \<open>
  What the documentation promises for each failure: status, code, and message, with the
  raiser's own message only for failures this code base raises deliberately.
\<close>

fun base_kind :: "wooloo_class \<Rightarrow> error_presentation" where
  "base_kind WoolooException = INTERNAL_ERROR"
| "base_kind ValidationException = VALIDATION_ERROR"
| "base_kind NotFoundException = NOT_FOUND"
| "base_kind ConflictException = CONFLICT"
| "base_kind (Subclass n c) = base_kind c"

fun presented :: "exn \<Rightarrow> error_presentation" where
  "presented (Wooloo x) = base_kind (wooloo_type x)"
| "presented (Repo (InvalidRepositoryName m)) = VALIDATION_ERROR"
| "presented (Repo (RepositoryNotFound m)) = NOT_FOUND"
| "presented (Repo (RepositoryAlreadyExists m)) = CONFLICT"
| "presented (Storage (BlobNotFound m)) = NOT_FOUND"
| "presented (Storage (BlobAlreadyExists m)) = CONFLICT"
| "presented _ = INTERNAL_ERROR"

definition presented_message :: "exn \<Rightarrow> pystr" where
  "presented_message e = (if pr_status_code (presented e) = 500 then lit ''An unexpected error occurred''
     else or_default (exn_message e) (pr_default_message (presented e)))"

definition failure_record :: "request \<Rightarrow> exn \<Rightarrow> log_event" where
  "failure_record request e =
     (let entries = request_failed_fields (resolve_state_request_id request) (pr_code (presented e))
      in if pr_status_code (presented e) = 500
         then (log_event_of ERROR (lit ''request_failed'') entries)\<lparr>ev_exc := Some e\<rparr>
         else log_event_of WARNING (lit ''request_failed'') entries)"

lemmas presentations =
  VALIDATION_ERROR_def NOT_FOUND_def CONFLICT_def INTERNAL_ERROR_def

lemma resolve_presentation_base:
  "resolve_presentation x = (if base_kind (wooloo_type x) = INTERNAL_ERROR then None else Some (base_kind (wooloo_type x)))"
proof -
  have "nearest_presentation (wooloo_mro c) = (if base_kind c = INTERNAL_ERROR then None else Some (base_kind c))" for c
    by (induction c) (simp_all add: DOMAIN_PRESENTATIONS_def presentations)
  then show ?thesis by (simp add: resolve_presentation_def)
qed

lemma base_kind_status: "pr_status_code (base_kind c) = 500 \<longleftrightarrow> base_kind c = INTERNAL_ERROR"
  by (induction c) (simp_all add: presentations)

lemma nearest_wooloo:
  "nearest_registered EXCEPTION_HANDLERS (map Class_Wooloo (wooloo_mro c) @ cs) = Some (Wooloo_Handler wooloo_exception_handler)"
  by (induction c) (simp_all add: EXCEPTION_HANDLERS_def)

lemma handled_by_nearest:
  assumes "is_exception e"
  shows "\<exists>h. nearest_registered EXCEPTION_HANDLERS (mro e) = Some h
    \<and> call_handler h request e w =
        (Inr (json_error_response (presented e) (presented_message e) (resolve_state_request_id request)),
         w\<lparr>journal := journal w @ [failure_record request e]\<rparr>)"
proof (cases "\<exists>x. e = Wooloo x")
  case True
  then obtain x where e: "e = Wooloo x" by blast
  show ?thesis
    by (cases "base_kind (wooloo_type x) = INTERNAL_ERROR")
      (simp_all add: e mro_def nearest_wooloo wooloo_exception_handler_def resolve_presentation_base
        unhandled_exception_handler_def and_then_def presented_message_def failure_record_def Let_def base_kind_status,
       simp add: presentations)
next
  case False
  then show ?thesis
    using assms
    by (cases e rule: presented.cases)
      (auto simp: mro_def EXCEPTION_HANDLERS_def and_then_def presented_message_def failure_record_def Let_def
        unhandled_exception_handler_def invalid_repository_name_handler_def repository_already_exists_handler_def
        repository_not_found_handler_def blob_not_found_handler_def blob_already_exists_handler_def
        repository_error_response_def storage_error_response_def presentations)
qed

section \<open>Properties\<close>

text \<open>C18. Every \<open>Exception\<close> is answered, and as documented: the handler the framework finds for it
  returns the one error shape, under the status and code of the nearest ancestor that has a
  presentation and otherwise the opaque \<open>500\<close> whose text tells nothing of the exception; it
  writes exactly one record, a warning for an expected failure, an error with the exception for
  a \<open>500\<close>; the correlation ID of the request is in both. What is no \<open>Exception\<close>, the signal of
  an oversized body among it, has no handler.\<close>

theorem failures_presented:
  assumes "looks_up_nearest lookup"
  shows "if is_exception e
    then \<exists>h. lookup EXCEPTION_HANDLERS e = Some h
      \<and> call_handler h request e w =
        (Inr \<lparr>resp_status = pr_status_code (presented e),
           resp_content = \<lparr>err_code = pr_code (presented e), err_message = presented_message e,
             err_request_id = req_state request (lit ''request_id'')\<rparr>\<rparr>,
         w\<lparr>journal := journal w @ [failure_record request e]\<rparr>)
    else lookup EXCEPTION_HANDLERS e = None"
proof (cases "is_exception e")
  case True
  with handled_by_nearest [OF True, of request w] assms show ?thesis
    by (simp add: looks_up_nearest_def json_error_response_def resolve_state_request_id_def)
next
  case False
  then have "mro e = [Class_Builtin, Class_BaseException]"
    by (cases e) (simp_all add: mro_def)
  with False assms show ?thesis by (simp add: looks_up_nearest_def EXCEPTION_HANDLERS_def)
qed

lemma failures_presented_witness:
  "\<exists>h. nearest_registered EXCEPTION_HANDLERS (mro (Wooloo (Wooloo_Exn (Subclass 1 (Subclass 2 NotFoundException)) (Some [])))) = Some h
    \<and> fst (call_handler h \<lparr>req_state = Map.empty\<rparr> (Wooloo (Wooloo_Exn (Subclass 1 (Subclass 2 NotFoundException)) (Some [])))
        \<lparr>part = (), journal = [], bound_context = Map.empty\<rparr>) =
      Inr \<lparr>resp_status = 404, resp_content = \<lparr>err_code = lit ''not_found'', err_message = lit ''Resource not found'', err_request_id = None\<rparr>\<rparr>"
proof -
  let ?lookup = "\<lambda>table e. nearest_registered table (mro e)"
  let ?e = "Wooloo (Wooloo_Exn (Subclass 1 (Subclass 2 NotFoundException)) (Some []))"
  have "looks_up_nearest ?lookup" by (simp add: looks_up_nearest_def)
  from failures_presented [OF this, of ?e "\<lparr>req_state = Map.empty\<rparr>" "\<lparr>part = (), journal = [], bound_context = Map.empty\<rparr>"]
  show ?thesis by (auto simp: NOT_FOUND_def presented_message_def or_default_def)
qed

end
