(* ===== verification/Health.thy ===== *)
theory Health
  imports Storage_Stack
begin

text \<open>
  Health reporting: the service that probes the database and the blob storage under a
  deadline (\<open>application/services/health_service.py\<close>), and the route that answers with its
  verdict (\<open>api/routes/health.py\<close>).
\<close>

section \<open>Deadlines\<close>

text \<open>
  \<open>async with asyncio.timeout(...)\<close> around an action. Whether the deadline passes, and the state
  the cancelled action leaves, is the argument \<open>expiry\<close>; an action that is cut off is seen as
  \<open>TimeoutError\<close>, any other keeps its outcome.
\<close>

definition under_deadline :: "('s \<Rightarrow> 's option) \<Rightarrow> ('s, exn, 'a) action \<Rightarrow> ('s, exn, 'a) action" where
  "under_deadline expiry m s = (case expiry s of Some s' \<Rightarrow> (Inl TimeoutError, s') | None \<Rightarrow> m s)"

section \<open>The service\<close>

text \<open>
  The service over a pair of states, the session's and the storage's: the session's answer to
  \<open>SELECT 1\<close> and the storage port, with the deadline of each probe.
\<close>

record ('d, 's, 'g) health_service =
  hs_select_one :: "('d, exn, unit) action"
  hs_storage :: "('s, 'g) blob_storage"
  hs_session_expiry :: "'d \<Rightarrow> 'd option"
  hs_storage_expiry :: "'s \<Rightarrow> 's option"

definition on_session :: "('d, exn, 'a) action \<Rightarrow> ('d \<times> 's, exn, 'a) action" where
  "on_session = lifting fst (\<lambda>d p. (d, snd p))"

definition on_storage :: "('s, exn, 'a) action \<Rightarrow> ('d \<times> 's, exn, 'a) action" where
  "on_storage = lifting snd (\<lambda>s p. (fst p, s))"

definition check_database :: "('d, 's, 'g) health_service \<Rightarrow> ('d, exn, bool) action" where
  "check_database self =
     trying (and_then (under_deadline (hs_session_expiry self) (hs_select_one self)) (\<lambda>_. returning True))
       (\<lambda>e. if is_exception e then returning False else raising e)"

definition check_storage :: "('d, 's, 'g) health_service \<Rightarrow> ('s, exn, bool) action" where
  "check_storage self =
     trying (under_deadline (hs_storage_expiry self) (blob_check_health (hs_storage self)))
       (\<lambda>e. if e = TimeoutError then returning False else raising e)"

definition STATUS_OK :: pystr where
  "STATUS_OK = lit ''ok''"

definition STATUS_DEGRADED :: pystr where
  "STATUS_DEGRADED = lit ''degraded''"

definition UP :: pystr where
  "UP = lit ''up''"

definition DOWN :: pystr where
  "DOWN = lit ''down''"

record health_status =
  h_status :: pystr
  h_database :: pystr
  h_storage :: pystr

definition get_status :: "('d, 's, 'g) health_service \<Rightarrow> ('d \<times> 's, exn, health_status) action" where
  "get_status self =
     and_then (on_session (check_database self)) (\<lambda>database_ok.
     and_then (on_storage (check_storage self)) (\<lambda>storage_ok.
     returning
       \<lparr>h_status = (if database_ok \<and> storage_ok then STATUS_OK else STATUS_DEGRADED),
        h_database = (if database_ok then UP else DOWN),
        h_storage = (if storage_ok then UP else DOWN)\<rparr>))"

section \<open>The route\<close>

text \<open>A request's service, from its session and the configured storage, with the deadlines they will meet.\<close>

definition get_health_service ::
  "('d, exn, unit) action \<Rightarrow> ('s, 'g) blob_storage \<Rightarrow> ('d \<Rightarrow> 'd option) \<Rightarrow> ('s \<Rightarrow> 's option) \<Rightarrow> ('d, 's, 'g) health_service" where
  "get_health_service session storage session_expiry storage_expiry =
     \<lparr>hs_select_one = session, hs_storage = storage, hs_session_expiry = session_expiry, hs_storage_expiry = storage_expiry\<rparr>"

definition healthz :: "('d, 's, 'g) health_service \<Rightarrow> ('d \<times> 's, health_status) app" where
  "healthz health_service =
     and_then (log_as INFO (lit ''health_check_requested'') []) (\<lambda>_.
     and_then (on_part (get_status health_service)) (\<lambda>result.
     and_then (if h_database result = lit ''down'' then log_as WARNING (lit ''database_unavailable'') [] else returning ()) (\<lambda>_.
     and_then (if h_storage result = lit ''down'' then log_as WARNING (lit ''storage_unavailable'') [] else returning ()) (\<lambda>_.
     returning result))))"

section \<open>What the probes answer\<close>

definition probe_up :: "('s \<Rightarrow> 's option) \<Rightarrow> ('s, exn, 'a) action \<Rightarrow> 's \<Rightarrow> bool" where
  "probe_up expiry m s \<longleftrightarrow> expiry s = None \<and> (\<exists>a. fst (m s) = Inr a)"

lemma check_database_run:
  assumes "raises_only is_exception (hs_select_one self)"
  shows "\<exists>d'. check_database self d = (Inr (probe_up (hs_session_expiry self) (hs_select_one self) d), d')"
proof (cases "hs_session_expiry self d")
  case None
  obtain r d' where run: "hs_select_one self d = (r, d')" by fastforce
  show ?thesis
  proof (cases r)
    case (Inl e)
    with run have "hs_select_one self d = (Inl e, d')" by simp
    from raises_onlyD [OF assms this] this None show ?thesis
      by (simp add: check_database_def under_deadline_def and_then_def trying_def probe_up_def)
  next
    case (Inr a)
    with run None show ?thesis
      by (simp add: check_database_def under_deadline_def and_then_def trying_def probe_up_def)
  qed
next
  case (Some d')
  then show ?thesis
    by (simp add: check_database_def under_deadline_def and_then_def trying_def probe_up_def)
qed

definition storage_up :: "('s \<Rightarrow> 's option) \<Rightarrow> ('s, exn, bool) action \<Rightarrow> 's \<Rightarrow> bool" where
  "storage_up expiry m s \<longleftrightarrow> expiry s = None \<and> fst (m s) = Inr True"

lemma check_storage_run:
  assumes "\<exists>b. fst (blob_check_health (hs_storage self) s) = Inr b"
  shows "\<exists>s'. check_storage self s = (Inr (storage_up (hs_storage_expiry self) (blob_check_health (hs_storage self)) s), s')"
proof (cases "hs_storage_expiry self s")
  case None
  obtain r s' where run: "blob_check_health (hs_storage self) s = (r, s')" by fastforce
  moreover have "\<nexists>e. r = Inl e" using assms run by auto
  ultimately show ?thesis
    using None by (cases r) (auto simp: check_storage_def under_deadline_def trying_def storage_up_def)
next
  case (Some s')
  then show ?thesis by (simp add: check_storage_def under_deadline_def trying_def storage_up_def)
qed

lemma fs_port_health_answers: "uncancelled s \<Longrightarrow> \<exists>b. fst (blob_check_health (fs_port u h root) s) = Inr b"
  using check_health_uncancelled by (simp add: fs_port_def)

lemma get_status_run:
  assumes "raises_only is_exception (hs_select_one self)"
    and "\<exists>b. fst (blob_check_health (hs_storage self) s) = Inr b"
  shows "\<exists>d' s'. get_status self (d, s) =
    (let db = probe_up (hs_session_expiry self) (hs_select_one self) d;
         st = storage_up (hs_storage_expiry self) (blob_check_health (hs_storage self)) s
     in (Inr \<lparr>h_status = (if db \<and> st then STATUS_OK else STATUS_DEGRADED), h_database = (if db then UP else DOWN),
          h_storage = (if st then UP else DOWN)\<rparr>, (d', s')))"
proof -
  obtain d' where d: "check_database self d = (Inr (probe_up (hs_session_expiry self) (hs_select_one self) d), d')"
    using check_database_run [OF assms(1)] by blast
  obtain s' where s: "check_storage self s =
      (Inr (storage_up (hs_storage_expiry self) (blob_check_health (hs_storage self)) s), s')"
    using check_storage_run [OF assms(2)] by blast
  show ?thesis
    by (intro exI [of _ d'] exI [of _ s'])
      (simp add: get_status_def on_session_def on_storage_def lifting_def and_then_def d s Let_def)
qed

section \<open>Properties\<close>

definition warning_if_down :: "bool \<Rightarrow> string \<Rightarrow> log_event list" where
  "warning_if_down up name = (if up then [] else [log_event_of WARNING (lit name) []])"


definition sample_health :: "(nat, os_state, generator) health_service" where
  "sample_health = get_health_service (\<lambda>d. (Inl (Db (OtherDBAPIError 1)), d)) (fs_backend plain_unicode srv)
     (\<lambda>_. None) (\<lambda>s. Some s)"


end
