(* ===== verification/Storage_Routes.thy ===== *)
theory Storage_Routes
  imports Storage_Stack
begin

text \<open>
  The storage routes (\<open>api/routes/storage.py\<close>): uploads, downloads and deletions over the blob
  service, with the response bodies of \<open>api/schemas/storage.py\<close>.
\<close>

definition UPLOAD_CHUNK_SIZE :: nat where
  "UPLOAD_CHUNK_SIZE = 64 * 1024"

definition DOWNLOAD_MEDIA_TYPE :: pystr where
  "DOWNLOAD_MEDIA_TYPE = lit ''application/octet-stream''"

text \<open>
  An uploaded file, positioned at its start: its content, the media type the client declared,
  and the read that fails, counted from zero, with what it raises.
\<close>

record upload_file =
  up_content :: bytes
  up_content_type :: "pystr option"
  up_failure :: "(nat \<times> exn) option"

text \<open>
  \<open>while chunk := await file.read(_UPLOAD_CHUNK_SIZE): yield chunk\<close>: the chunks before the first
  read that fails or returns nothing. With \<open>n\<close> chunks there are \<open>n + 1\<close> reads.
\<close>

definition stream_upload :: "upload_file \<Rightarrow> byte_stream" where
  "stream_upload file =
     (let chunks = chunks_of UPLOAD_CHUNK_SIZE (up_content file)
      in case up_failure file of
           None \<Rightarrow> \<lparr>stream_chunks = chunks, stream_error = None\<rparr>
         | Some (i, e) \<Rightarrow>
             if i \<le> length chunks then \<lparr>stream_chunks = take i chunks, stream_error = Some e\<rparr>
             else \<lparr>stream_chunks = chunks, stream_error = None\<rparr>)"

record blob_upload_response =
  upload_key :: pystr
  upload_size :: nat

record 'g streaming_response =
  body_iterator :: 'g
  media_type :: pystr

text \<open>The service has no state but its backend.\<close>

definition get_storage_service :: "('s, 'g) blob_storage \<Rightarrow> ('s, 'g) blob_storage" where
  "get_storage_service storage = storage"

definition upload_blob :: "('s, 'g) blob_storage \<Rightarrow> upload_file \<Rightarrow> ('s, blob_upload_response) app" where
  "upload_blob storage_service file =
     and_then (service_store storage_service (stream_upload file) (up_content_type file)) (\<lambda>blob.
     returning \<lparr>upload_key = blob_key blob, upload_size = blob_size blob\<rparr>)"

definition download_blob :: "('s, 'g) blob_storage \<Rightarrow> pystr \<Rightarrow> ('s, 'g streaming_response) app" where
  "download_blob storage_service key =
     and_then (service_retrieve storage_service key) (\<lambda>stream.
     returning \<lparr>body_iterator = stream, media_type = DOWNLOAD_MEDIA_TYPE\<rparr>)"

definition delete_blob :: "('s, 'g) blob_storage \<Rightarrow> pystr \<Rightarrow> ('s, unit) app" where
  "delete_blob storage_service key = service_remove storage_service key"

section \<open>The upload stream\<close>

lemma upload_chunk_positive: "0 < UPLOAD_CHUNK_SIZE"
  by (simp add: UPLOAD_CHUNK_SIZE_def)

lemma stream_upload_whole:
  assumes "up_failure file = None"
  shows "stream_data (stream_upload file) = up_content file" "stream_error (stream_upload file) = None"
    and "c \<in> set (stream_chunks (stream_upload file)) \<Longrightarrow> c \<noteq> [] \<and> length c \<le> UPLOAD_CHUNK_SIZE"
  using assms chunks_of_bounds [of c UPLOAD_CHUNK_SIZE]
  by (simp_all add: stream_upload_def stream_data_def concat_chunks_of upload_chunk_positive)

end
