(* ===== verification/Repository_Routes.thy ===== *)
theory Repository_Routes
  imports Repo_Properties
begin

text \<open>
  The repository routes (\<open>api/routes/repositories.py\<close>): the providers that build the store and
  the use cases of a request, the four endpoints, and the bodies of
  \<open>api/schemas/repository.py\<close>.
\<close>

section \<open>Bodies\<close>

record create_repository_request =
  requested_name :: pystr

record repository_response =
  rr_id :: uuid
  rr_name :: pystr
  rr_created_at :: datetime

record repository_list_response =
  rl_items :: "repository_response list"
  rl_total :: int
  rl_limit :: int
  rl_offset :: int

text \<open>\<open>model_validate\<close> with \<open>from_attributes\<close>: the attributes of the same names.\<close>

definition model_validate :: "repository \<Rightarrow> repository_response" where
  "model_validate r = \<lparr>rr_id = rep_id r, rr_name = rep_name r, rr_created_at = rep_created_at r\<rparr>"

section \<open>Providers\<close>

definition get_repository_store :: "'d session \<Rightarrow> 'd repository_store" where
  "get_repository_store session = sql_store session"

definition get_create_repository_use_case :: "unicode_data \<Rightarrow> 'd repository_store \<Rightarrow> pystr \<Rightarrow> ('d, repository) app" where
  "get_create_repository_use_case u store = create_execute u store"

definition get_get_repository_use_case :: "'d repository_store \<Rightarrow> uuid \<Rightarrow> ('d, repository) app" where
  "get_get_repository_use_case store = get_by_id_execute store"

definition get_list_repositories_use_case :: "'d repository_store \<Rightarrow> int \<Rightarrow> int \<Rightarrow> ('d, repository_page) app" where
  "get_list_repositories_use_case store = list_execute store"

definition get_delete_repository_use_case :: "'d repository_store \<Rightarrow> uuid \<Rightarrow> ('d, unit) app" where
  "get_delete_repository_use_case store = delete_execute store"

section \<open>Endpoints\<close>

definition create_repository :: "create_repository_request \<Rightarrow> (pystr \<Rightarrow> ('d, repository) app) \<Rightarrow> ('d, repository_response) app" where
  "create_repository request use_case =
     and_then (use_case (requested_name request)) (\<lambda>repository.
     returning (model_validate repository))"

text \<open>The query parameters have the defaults 20 and 0.\<close>

definition list_repositories ::
  "(int \<Rightarrow> int \<Rightarrow> ('d, repository_page) app) \<Rightarrow> int option \<Rightarrow> int option \<Rightarrow> ('d, repository_list_response) app" where
  "list_repositories use_case limit offset =
     and_then (use_case (case limit of None \<Rightarrow> 20 | Some n \<Rightarrow> n) (case offset of None \<Rightarrow> 0 | Some n \<Rightarrow> n)) (\<lambda>page.
     returning \<lparr>rl_items = map model_validate (page_items page), rl_total = page_total page,
       rl_limit = page_limit page, rl_offset = page_offset page\<rparr>)"

definition get_repository :: "uuid \<Rightarrow> (uuid \<Rightarrow> ('d, repository) app) \<Rightarrow> ('d, repository_response) app" where
  "get_repository repository_id use_case =
     and_then (use_case repository_id) (\<lambda>repository.
     returning (model_validate repository))"

definition delete_repository :: "uuid \<Rightarrow> (uuid \<Rightarrow> ('d, unit) app) \<Rightarrow> ('d, unit) app" where
  "delete_repository repository_id use_case = use_case repository_id"

end
