(* ===== verification/Api.thy ===== *)
theory Api
  imports Http_Errors Health Storage_Routes Repository_Routes
begin

text \<open>
  The HTTP interface as a whole: the routes of the three routers under the prefixes of
  \<open>main.py\<close>, and the life of a repository and of a blob through the endpoints and the
  exception handlers.
\<close>

section \<open>Routes\<close>

record route =
  rt_method :: pystr
  rt_path :: pystr
  rt_status :: nat

definition route_of :: "string \<Rightarrow> string \<Rightarrow> nat \<Rightarrow> route" where
  "route_of m p status = \<lparr>rt_method = lit m, rt_path = lit p, rt_status = status\<rparr>"

definition HEALTHZ_ROUTE :: route where
  "HEALTHZ_ROUTE = route_of ''GET'' ''/healthz'' 200"

definition CREATE_REPOSITORY_ROUTE :: route where
  "CREATE_REPOSITORY_ROUTE = route_of ''POST'' '''' 201"

definition LIST_REPOSITORIES_ROUTE :: route where
  "LIST_REPOSITORIES_ROUTE = route_of ''GET'' '''' 200"

definition GET_REPOSITORY_ROUTE :: route where
  "GET_REPOSITORY_ROUTE = route_of ''GET'' ''/{repository_id}'' 200"

definition DELETE_REPOSITORY_ROUTE :: route where
  "DELETE_REPOSITORY_ROUTE = route_of ''DELETE'' ''/{repository_id}'' 204"

definition UPLOAD_BLOB_ROUTE :: route where
  "UPLOAD_BLOB_ROUTE = route_of ''POST'' ''/blobs'' 201"

definition DOWNLOAD_BLOB_ROUTE :: route where
  "DOWNLOAD_BLOB_ROUTE = route_of ''GET'' ''/blobs/{key}'' 200"

definition DELETE_BLOB_ROUTE :: route where
  "DELETE_BLOB_ROUTE = route_of ''DELETE'' ''/blobs/{key}'' 204"

definition include_router :: "string \<Rightarrow> route list \<Rightarrow> route list" where
  "include_router root rs = map (\<lambda>r. r\<lparr>rt_path := lit root @ rt_path r\<rparr>) rs"

definition API_ROUTES :: "route list" where
  "API_ROUTES = include_router ''/api/v1'' [HEALTHZ_ROUTE]
     @ include_router ''/api/v1/repositories''
         [CREATE_REPOSITORY_ROUTE, LIST_REPOSITORIES_ROUTE, GET_REPOSITORY_ROUTE, DELETE_REPOSITORY_ROUTE]
     @ include_router ''/api/v1/storage'' [UPLOAD_BLOB_ROUTE, DOWNLOAD_BLOB_ROUTE, DELETE_BLOB_ROUTE]"

lemma routes_distinct: "distinct (map (\<lambda>r. (rt_method r, rt_path r)) API_ROUTES)"
  by code_simp

section \<open>What the framework does with an endpoint\<close>

text \<open>The bodies of the endpoints, as one type, and the two kinds of answers.\<close>

datatype 'g body =
    Repository_Body repository_response
  | Repository_List_Body repository_list_response
  | Upload_Body blob_upload_response
  | Download_Body "'g streaming_response"
  | No_Body

datatype 'g reply = Success nat "'g body" | Failure json_response

definition giving :: "('a \<Rightarrow> 'g body) \<Rightarrow> ('p, 'a) app \<Rightarrow> ('p, 'g body) app" where
  "giving f m = and_then m (\<lambda>a. returning (f a))"

text \<open>
  \<open>answer\<close> stands for the framework: what an endpoint returns is answered under the route's
  status, and an exception by the handler that its documented lookup finds. The handler
  of \<open>Exception\<close> itself is left out: the framework sends its answer and raises the exception again.
\<close>

fun catches_all :: "'p handler \<Rightarrow> bool" where
  "catches_all (Any_Handler h) = True"
| "catches_all _ = False"

definition answers_as_documented ::
  "(request \<Rightarrow> route \<Rightarrow> ('p, 'g body) app \<Rightarrow> ('p, 'g reply) app) \<Rightarrow> bool" where
  "answers_as_documented answer \<longleftrightarrow>
     (\<forall>request rt m w b w'. m w = (Inr b, w') \<longrightarrow> answer request rt m w = (Inr (Success (rt_status rt) b), w'))
     \<and> (\<forall>request rt m w e w1 h r w2. m w = (Inl e, w1) \<longrightarrow> nearest_registered EXCEPTION_HANDLERS (mro e) = Some h
          \<longrightarrow> \<not> catches_all h \<longrightarrow> call_handler h request e w1 = (Inr r, w2) \<longrightarrow> answer request rt m w = (Inr (Failure r), w2))"

lemma answered:
  assumes "answers_as_documented answer" and "m w = (Inr b, w')"
  shows "answer request rt m w = (Inr (Success (rt_status rt) b), w')"
  using assms unfolding answers_as_documented_def by blast

lemma expected_failure_handler:
  assumes "nearest_registered EXCEPTION_HANDLERS (mro e) = Some h" and "pr_status_code (presented e) \<noteq> 500"
  shows "\<not> catches_all h"
proof (cases "\<exists>x. e = Wooloo x")
  case True
  with assms(1) show ?thesis by (auto simp: mro_def nearest_wooloo)
next
  case False
  with assms show ?thesis
    by (cases e rule: presented.cases) (auto simp: mro_def EXCEPTION_HANDLERS_def INTERNAL_ERROR_def)
qed

lemma answered_failure:
  assumes "answers_as_documented answer" and "m w = (Inl e, w1)" and "is_exception e"
    and "pr_status_code (presented e) \<noteq> 500"
  shows "answer request rt m w =
    (Inr (Failure (json_error_response (presented e) (presented_message e) (resolve_state_request_id request))),
     w1\<lparr>journal := journal w1 @ [failure_record request e]\<rparr>)"
proof -
  obtain h where h: "nearest_registered EXCEPTION_HANDLERS (mro e) = Some h"
    "call_handler h request e w1 =
      (Inr (json_error_response (presented e) (presented_message e) (resolve_state_request_id request)),
       w1\<lparr>journal := journal w1 @ [failure_record request e]\<rparr>)"
    using handled_by_nearest [OF assms(3), of request w1] by blast
  note law = assms(1) [unfolded answers_as_documented_def, THEN conjunct2, rule_format]
  from assms(2) h(1) expected_failure_handler [OF h(1) assms(4)] h(2) show ?thesis by (rule law)
qed

text \<open>A framework of this kind.\<close>

definition plain_framework :: "request \<Rightarrow> route \<Rightarrow> ('p, 'g body) app \<Rightarrow> ('p, 'g reply) app" where
  "plain_framework request rt m = trying (and_then m (\<lambda>b. returning (Success (rt_status rt) b)))
     (\<lambda>e. case nearest_registered EXCEPTION_HANDLERS (mro e) of
        None \<Rightarrow> raising e
      | Some h \<Rightarrow> and_then (call_handler h request e) (\<lambda>r. returning (Failure r)))"

lemma plain_framework_documented: "answers_as_documented plain_framework"
  by (simp add: answers_as_documented_def plain_framework_def trying_def and_then_def)

section \<open>Repositories\<close>

definition post_repository :: "unicode_data \<Rightarrow> (pystr \<Rightarrow> pystr) \<Rightarrow> pystr \<Rightarrow> (db, 'g body) app" where
  "post_repository u cit name = giving Repository_Body (create_repository \<lparr>requested_name = name\<rparr>
     (get_create_repository_use_case u (get_repository_store (reference_session cit))))"

definition fetch_repository :: "(pystr \<Rightarrow> pystr) \<Rightarrow> uuid \<Rightarrow> (db, 'g body) app" where
  "fetch_repository cit i = giving Repository_Body (get_repository i
     (get_get_repository_use_case (get_repository_store (reference_session cit))))"

definition remove_repository :: "(pystr \<Rightarrow> pystr) \<Rightarrow> uuid \<Rightarrow> (db, 'g body) app" where
  "remove_repository cit i = giving (\<lambda>_. No_Body) (delete_repository i
     (get_delete_repository_use_case (get_repository_store (reference_session cit))))"

lemmas repository_endpoints = post_repository_def fetch_repository_def remove_repository_def giving_def
  create_repository_def get_repository_def delete_repository_def get_create_repository_use_case_def
  get_get_repository_use_case_def get_delete_repository_use_case_def get_repository_store_def

lemma post_repository_run:
  "post_repository u cit name w = (case create_execute u (repositories_db cit) name w of
     (Inl e, w') \<Rightarrow> (Inl e, w') | (Inr r, w') \<Rightarrow> (Inr (Repository_Body (model_validate r)), w'))"
  by (simp add: repository_endpoints and_then_def split: prod.split sum.split)

lemma fetch_repository_run:
  "fetch_repository cit i w = (case get_by_id_execute (repositories_db cit) i w of
     (Inl e, w') \<Rightarrow> (Inl e, w') | (Inr r, w') \<Rightarrow> (Inr (Repository_Body (model_validate r)), w'))"
  by (simp add: repository_endpoints and_then_def split: prod.split sum.split)

lemma remove_repository_run:
  "remove_repository cit i w = (case delete_execute (repositories_db cit) i w of
     (Inl e, w') \<Rightarrow> (Inl e, w') | (Inr r, w') \<Rightarrow> (Inr No_Body, w'))"
  by (simp add: repository_endpoints and_then_def split: prod.split sum.split)

definition failed_with :: "'g reply \<Rightarrow> nat \<Rightarrow> string \<Rightarrow> request \<Rightarrow> bool" where
  "failed_with r status code request \<longleftrightarrow> (\<exists>m. r = Failure \<lparr>resp_status = status,
     resp_content = \<lparr>err_code = lit code, err_message = m, err_request_id = req_state request (lit ''request_id'')\<rparr>\<rparr>)"

lemma not_found_presented:
  assumes "answers_as_documented answer" and "m w = (Inl e, w1)" and "presented e = NOT_FOUND" and "is_exception e"
  shows "\<exists>r. answer request rt m w = (Inr r, w1\<lparr>journal := journal w1 @ [failure_record request e]\<rparr>)
    \<and> failed_with r 404 ''not_found'' request"
  using answered_failure [where m = m, OF assms(1,2,4), of request rt] assms(3)
  by (simp add: failed_with_def json_error_response_def NOT_FOUND_def resolve_state_request_id_def)



section \<open>Blobs\<close>

abbreviation post_blob :: "unicode_data \<Rightarrow> path \<Rightarrow> upload_file \<Rightarrow> (os_state, generator body) app" where
  "post_blob u root file \<equiv> giving Upload_Body (upload_blob (fs_backend u root) file)"

abbreviation fetch_blob :: "unicode_data \<Rightarrow> path \<Rightarrow> pystr \<Rightarrow> (os_state, generator body) app" where
  "fetch_blob u root key \<equiv> giving Download_Body (download_blob (fs_backend u root) key)"

abbreviation remove_blob :: "unicode_data \<Rightarrow> path \<Rightarrow> pystr \<Rightarrow> (os_state, generator body) app" where
  "remove_blob u root key \<equiv> giving (\<lambda>_. No_Body) (delete_blob (fs_backend u root) key)"

lemma post_blob_run:
  assumes "fs_ready root (part w)" and "up_failure file = None"
    and "fs_stored root (part w) (content_key (up_content file)) \<in> {None, Some (up_content file)}"
  shows "\<exists>w'. post_blob u root file w = (Inr (Upload_Body \<lparr>upload_key = content_key (up_content file),
      upload_size = length (up_content file)\<rparr>), w')
    \<and> fs_ready root (part w')
    \<and> fs_stored root (part w') = (fs_stored root (part w))(content_key (up_content file) \<mapsto> up_content file)"
proof -
  note whole = stream_upload_whole [OF assms(2)]
  obtain b w' where b: "service_store (fs_backend u root) (stream_upload file) (up_content_type file) w = (Inr b, w')"
    "fs_ready root (part w')" "blob_key b = content_key (up_content file)"
    and m: "fs_stored root (part w') = (if fs_stored root (part w) (blob_key b) = None
       then (fs_stored root (part w))(blob_key b \<mapsto> up_content file) else fs_stored root (part w))"
    and d: "\<exists>d. fs_stored root (part w') (blob_key b) = Some d \<and> blob_size b = length d"
    using fs_service.store_logs [OF assms(1) whole(2), of u fixed_hex "up_content_type file"] unfolding whole(1) by blast
  have m': "fs_stored root (part w') = (fs_stored root (part w))(content_key (up_content file) \<mapsto> up_content file)"
    using assms(3) unfolding m b(3) by auto
  with d b(3) have "blob_size b = length (up_content file)" by auto
  with b m' show ?thesis by (simp add: giving_def upload_blob_def and_then_def)
qed

lemma fetch_blob_run:
  assumes "fs_ready root (part w)" and "fs_stored root (part w) k = Some d"
  shows "\<exists>g w'. fetch_blob u root k w = (Inr (Download_Body \<lparr>body_iterator = g, media_type = DOWNLOAD_MEDIA_TYPE\<rparr>), w')
    \<and> undelivered g = d \<and> fs_ready root (part w') \<and> fs_stored root (part w') = fs_stored root (part w)"
proof -
  obtain g w' where "service_retrieve (fs_backend u root) k w = (Inr g, w')" "fs_ready root (part w')" "undelivered g = d"
    "fs_stored root (part w') = fs_stored root (part w)"
    using fs_service.retrieve_logs [OF assms, of u fixed_hex] by blast
  then show ?thesis by (simp add: giving_def download_blob_def and_then_def)
qed

lemma remove_blob_run:
  assumes "fs_ready root (part w)" and "fs_stored root (part w) k = Some d"
  shows "\<exists>w'. remove_blob u root k w = (Inr No_Body, w') \<and> fs_ready root (part w')
    \<and> fs_stored root (part w') = (fs_stored root (part w))(k := None)"
proof -
  obtain w' where "service_remove (fs_backend u root) k w = (Inr (), w')" "fs_ready root (part w')"
    "fs_stored root (part w') = (fs_stored root (part w))(k := None)"
    using fs_service.remove_logs [OF assms, of u fixed_hex] by blast
  then show ?thesis by (simp add: giving_def delete_blob_def and_then_def)
qed

lemma missing_blob_answered:
  assumes "answers_as_documented answer" and "fs_ready root (part w)" and "fs_stored root (part w) k = None"
    and "m = fetch_blob u root k \<or> m = remove_blob u root k"
  shows "\<exists>f w'. answer request rt m w = (Inr f, w') \<and> failed_with f 404 ''not_found'' request
    \<and> fs_ready root (part w') \<and> fs_stored root (part w') = fs_stored root (part w)"
proof -
  obtain e w1 where run: "service_retrieve (fs_backend u root) k w = (Inl e, w1)"
    "service_remove (fs_backend u root) k w = (Inl e, w1)" "blob_missing e"
    and ok: "fs_ready root (part w1)" "fs_stored root (part w1) = fs_stored root (part w)"
    using fs_service.missing_reported [OF assms(2,3), of u fixed_hex] by blast
  have fetch: "fetch_blob u root k w = (Inl e, w1)" by (simp add: giving_def download_blob_def and_then_def run(1))
  have remove: "remove_blob u root k w = (Inl e, w1)" by (simp add: giving_def delete_blob_def and_then_def run(2))
  have m: "m w = (Inl e, w1)" using assms(4) fetch remove by (elim disjE) (simp_all only:)
  from run(3) have "presented e = NOT_FOUND" "is_exception e" by (auto simp: blob_missing_def)
  from not_found_presented [where m = m, OF assms(1) m this, of request rt] ok show ?thesis by auto
qed

text \<open>C16. The life of a blob through the interface, on the file system: an upload of new content is answered
  \<open>201\<close> with the key computed from it and its size, the same upload again is answered the same, the
  key is served with \<open>200\<close> as an octet stream that delivers exactly the uploaded bytes, and is
  deleted with \<open>204\<close>; from then on both a download and another deletion of it are \<open>404\<close>, and what
  is stored is what was stored before.\<close>

theorem blob_life:
  assumes "answers_as_documented answer" and "fs_ready root (part w)" and "up_failure file = None"
    and "fs_stored root (part w) (content_key (up_content file)) = None"
    and "response = \<lparr>upload_key = content_key (up_content file), upload_size = length (up_content file)\<rparr>"
  shows "\<exists>w1 w2 g w3 w4 f w5 f' w6.
      answer request UPLOAD_BLOB_ROUTE (post_blob u root file) w = (Inr (Success 201 (Upload_Body response)), w1)
    \<and> answer request UPLOAD_BLOB_ROUTE (post_blob u root file) w1 = (Inr (Success 201 (Upload_Body response)), w2)
    \<and> answer request DOWNLOAD_BLOB_ROUTE (fetch_blob u root (upload_key response)) w2 =
        (Inr (Success 200 (Download_Body \<lparr>body_iterator = g, media_type = lit ''application/octet-stream''\<rparr>)), w3)
    \<and> undelivered g = up_content file
    \<and> answer request DELETE_BLOB_ROUTE (remove_blob u root (upload_key response)) w3 = (Inr (Success 204 No_Body), w4)
    \<and> answer request DOWNLOAD_BLOB_ROUTE (fetch_blob u root (upload_key response)) w4 = (Inr f, w5)
    \<and> answer request DELETE_BLOB_ROUTE (remove_blob u root (upload_key response)) w5 = (Inr f', w6)
    \<and> failed_with f 404 ''not_found'' request \<and> failed_with f' 404 ''not_found'' request
    \<and> fs_stored root (part w6) = fs_stored root (part w)"
proof -
  let ?k = "content_key (up_content file)"
  note ok = answered [OF assms(1), where request = request]
  have status: "rt_status UPLOAD_BLOB_ROUTE = 201" "rt_status DOWNLOAD_BLOB_ROUTE = 200" "rt_status DELETE_BLOB_ROUTE = 204"
    by (simp_all add: UPLOAD_BLOB_ROUTE_def DOWNLOAD_BLOB_ROUTE_def DELETE_BLOB_ROUTE_def route_of_def)
  obtain w1 where p1: "post_blob u root file w = (Inr (Upload_Body response), w1)" "fs_ready root (part w1)"
    and m1: "fs_stored root (part w1) = (fs_stored root (part w))(?k \<mapsto> up_content file)"
    using post_blob_run [OF assms(2,3), of u] assms(4,5) by auto
  obtain w2 where p2: "post_blob u root file w1 = (Inr (Upload_Body response), w2)" "fs_ready root (part w2)"
    and m2: "fs_stored root (part w2) = fs_stored root (part w1)"
    using post_blob_run [OF p1(2) assms(3), of u] m1 assms(5) by auto
  have k2: "fs_stored root (part w2) ?k = Some (up_content file)" by (simp add: m2 m1)
  obtain g w3 where p3: "fetch_blob u root ?k w2 =
      (Inr (Download_Body \<lparr>body_iterator = g, media_type = DOWNLOAD_MEDIA_TYPE\<rparr>), w3)" "undelivered g = up_content file"
      "fs_ready root (part w3)" and m3: "fs_stored root (part w3) = fs_stored root (part w2)"
    using fetch_blob_run [OF p2(2) k2] by blast
  have k3: "fs_stored root (part w3) ?k = Some (up_content file)" by (simp add: m3 k2)
  obtain w4 where p4: "remove_blob u root ?k w3 = (Inr No_Body, w4)" "fs_ready root (part w4)"
    and m4: "fs_stored root (part w4) = (fs_stored root (part w3))(?k := None)"
    using remove_blob_run [OF p3(3) k3] by blast
  have k4: "fs_stored root (part w4) ?k = None" by (simp add: m4)
  obtain f w5 where p5: "answer request DOWNLOAD_BLOB_ROUTE (fetch_blob u root ?k) w4 = (Inr f, w5)"
    "failed_with f 404 ''not_found'' request" "fs_ready root (part w5)"
    and m5: "fs_stored root (part w5) = fs_stored root (part w4)"
    using missing_blob_answered [OF assms(1) p4(2) k4, of "fetch_blob u root ?k" u request DOWNLOAD_BLOB_ROUTE] by blast
  have k5: "fs_stored root (part w5) ?k = None" by (simp add: m5 k4)
  obtain f' w6 where p6: "answer request DELETE_BLOB_ROUTE (remove_blob u root ?k) w5 = (Inr f', w6)"
    "failed_with f' 404 ''not_found'' request" and m6: "fs_stored root (part w6) = fs_stored root (part w5)"
    using missing_blob_answered [OF assms(1) p5(3) k5, of "remove_blob u root ?k" u request DELETE_BLOB_ROUTE] by blast
  have "fs_stored root (part w6) = fs_stored root (part w)"
    unfolding m6 m5 m4 m3 m2 m1 using assms(4) by auto
  moreover have "upload_key response = ?k" by (simp add: assms(5))
  ultimately show ?thesis
    using ok [where m = "post_blob u root file", OF p1(1), of UPLOAD_BLOB_ROUTE]
      ok [where m = "post_blob u root file", OF p2(1), of UPLOAD_BLOB_ROUTE]
      ok [where m = "fetch_blob u root ?k", OF p3(1), of DOWNLOAD_BLOB_ROUTE]
      ok [where m = "remove_blob u root ?k", OF p4(1), of DELETE_BLOB_ROUTE] p3(2) p5 p6 unfolding status DOWNLOAD_MEDIA_TYPE_def by metis
qed

lemma blob_life_witness:
  "\<exists>w1. plain_framework \<lparr>req_state = Map.empty\<rparr> UPLOAD_BLOB_ROUTE
      (post_blob plain_unicode srv \<lparr>up_content = [7, 8], up_content_type = None, up_failure = None\<rparr>) (booted fresh_machine) =
      (Inr (Success 201 (Upload_Body \<lparr>upload_key = content_key [7, 8], upload_size = 2\<rparr>)), w1)"
proof -
  let ?file = "\<lparr>up_content = [7, 8], up_content_type = None, up_failure = None\<rparr> :: upload_file"
  have "fs_ready srv (part (booted fresh_machine))" and "up_failure ?file = None"
    and "fs_stored srv (part (booted fresh_machine)) (content_key (up_content ?file)) = None"
    using fresh_machine_ready fresh_machine_stored by (simp_all add: booted_def)
  from blob_life [OF plain_framework_documented this refl, of "\<lparr>req_state = Map.empty\<rparr>" plain_unicode]
  show ?thesis by auto
qed

end
