(* ===== verification/Asgi.thy ===== *)
theory Asgi
  imports Events
begin

text \<open>
  ASGI, the interface between the server, the program's middleware and its application.
  An application is called with a connection's scope and may then receive messages, send
  messages and work on the world, in any order and for as long as it likes: it is a
  \<open>coroutine\<close>, a possibly infinite tree that branches on what \<open>receive\<close> and \<open>send\<close> return
  or raise. \<open>exec\<close> relates a coroutine to the states it reaches and the exchange with the
  server on the way.
\<close>

section \<open>Scopes and messages\<close>

text \<open>
  The entries of the connection scope that the code reads. Of the \<open>state\<close> dictionary only
  the entries that are texts are kept; \<open>client\<close> is \<open>None\<close> when the server reports none.
\<close>

record scope =
  sc_type :: pystr
  sc_headers :: "(bytes \<times> bytes) list"
  sc_state :: "(pystr \<rightharpoonup> pystr) option"
  sc_method :: pystr
  sc_path :: pystr
  sc_client :: "(pystr \<times> int) option"

text \<open>A message; \<open>body\<close> and \<open>headers\<close> may be missing from its dictionary.\<close>

datatype message =
    Http_Request "bytes option" bool
  | Http_Disconnect
  | Response_Start nat "(bytes \<times> bytes) list option"
  | Response_Body bytes bool
  | Other_Message nat

definition HTTP :: pystr where
  "HTTP = lit ''http''"

fun is_response_start :: "message \<Rightarrow> bool" where
  "is_response_start (Response_Start st hs) = True"
| "is_response_start _ = False"

section \<open>Coroutines\<close>

codatatype 'w coroutine =
    Done "exn + unit"
  | Receive "exn + message \<Rightarrow> 'w coroutine"
  | Send message "exn + unit \<Rightarrow> 'w coroutine"
  | Act "'w \<Rightarrow> 'w coroutine \<times> 'w"

type_synonym 'w application = "scope \<Rightarrow> 'w coroutine"

text \<open>An action of the world, and then the rest.\<close>

definition perform :: "('w, exn, 'a) action \<Rightarrow> (exn + 'a \<Rightarrow> 'w coroutine) \<Rightarrow> 'w coroutine" where
  "perform m k = Act (\<lambda>w. case m w of (r, w') \<Rightarrow> (k r, w'))"

datatype event =
    Received "exn + message"
  | Sent message "exn + unit"

inductive exec :: "'w coroutine \<Rightarrow> 'w \<Rightarrow> event list \<Rightarrow> 'w coroutine \<Rightarrow> 'w \<Rightarrow> bool" where
  Stay: "exec c w [] c w"
| Recv: "exec (k r) w es c' w' \<Longrightarrow> exec (Receive k) w (Received r # es) c' w'"
| Snd: "exec (k r) w es c' w' \<Longrightarrow> exec (Send m k) w (Sent m r # es) c' w'"
| Work: "f w = (c, w1) \<Longrightarrow> exec c w1 es c' w' \<Longrightarrow> exec (Act f) w es c' w'"

inductive_cases exec_ReceiveE: "exec (Receive k) w es c' w'"
inductive_cases exec_SendE: "exec (Send m k) w es c' w'"
inductive_cases exec_ActE: "exec (Act f) w es c' w'"

inductive_simps exec_Done [simp]: "exec (Done r) w es c' w'"
inductive_simps exec_Receive: "exec (Receive k) w es c' w'"
inductive_simps exec_Send: "exec (Send m k) w es c' w'"
inductive_simps exec_Act: "exec (Act f) w es c' w'"

text \<open>A run to the end, which is a return or an exception.\<close>

abbreviation ends :: "'w coroutine \<Rightarrow> 'w \<Rightarrow> event list \<Rightarrow> exn + unit \<Rightarrow> 'w \<Rightarrow> bool" where
  "ends c w es r w' \<equiv> exec c w es (Done r) w'"

lemma ends_Receive: "ends (Receive k) w es r w' \<longleftrightarrow> (\<exists>x es'. es = Received x # es' \<and> ends (k x) w es' r w')"
  by (auto simp: exec_Receive)

lemma ends_Send: "ends (Send m k) w es r w' \<longleftrightarrow> (\<exists>x es'. es = Sent m x # es' \<and> ends (k x) w es' r w')"
  by (auto simp: exec_Send)

lemma ends_Act: "ends (Act f) w es r w' \<longleftrightarrow> ends (fst (f w)) (snd (f w)) es r w'"
  by (cases "f w") (auto simp: exec_Act)

lemma ends_perform: "ends (perform m k) w es r w' \<longleftrightarrow> ends (k (fst (m w))) (snd (m w)) es r w'"
  by (simp add: perform_def ends_Act split: prod.split)

text \<open>The same with the two answers of \<open>send\<close>, an exception or a return, told apart.\<close>

lemma ex_reply: "(\<exists>x :: exn + unit. P x) \<longleftrightarrow> (\<exists>e. P (Inl e)) \<or> P (Inr ())"
proof
  assume "\<exists>x. P x"
  then obtain x where "P x" by blast
  then show "(\<exists>e. P (Inl e)) \<or> P (Inr ())" by (cases x) auto
qed auto

lemma ends_Send_cases: "ends (Send m k) w es r w' \<longleftrightarrow>
    (\<exists>e es'. es = Sent m (Inl e) # es' \<and> ends (k (Inl e)) w es' r w')
    \<or> (\<exists>es'. es = Sent m (Inr ()) # es' \<and> ends (k (Inr ())) w es' r w')"
  unfolding ends_Send ex_reply by simp

lemma exec_Send_cases: "exec (Send m k) w es c w' \<longleftrightarrow>
    es = [] \<and> c = Send m k \<and> w' = w
    \<or> (\<exists>e es'. es = Sent m (Inl e) # es' \<and> exec (k (Inl e)) w es' c w')
    \<or> (\<exists>es'. es = Sent m (Inr ()) # es' \<and> exec (k (Inr ())) w es' c w')"
  unfolding exec_Send by (auto simp: ex_reply [of "\<lambda>x. \<exists>es'. es = Sent m x # es' \<and> exec (k x) w es' c w'", simplified])

lemmas ends_simps = ends_Receive ends_Send ends_Act ends_perform

lemma exec_trans: "exec c w es c1 w1 \<Longrightarrow> exec c1 w1 fs c2 w2 \<Longrightarrow> exec c w (es @ fs) c2 w2"
  by (induction rule: exec.induct) (auto intro: exec.intros)

text \<open>Given the server's answers, a run to the end has one outcome.\<close>

lemma ends_deterministic: "ends c w es r w' \<Longrightarrow> ends c w es r' w'' \<Longrightarrow> r' = r \<and> w'' = w'"
proof (induction c w es "Done r :: 'a coroutine" w' rule: exec.induct)
  case (Work f w c w1 es w')
  then show ?case by (simp add: ends_Act)
qed (auto simp: ends_simps)

text \<open>Every run of the coroutine ends, whatever the server answers.\<close>

inductive halts :: "'w coroutine \<Rightarrow> bool" where
  "halts (Done r)"
| "(\<And>r. halts (k r)) \<Longrightarrow> halts (Receive k)"
| "(\<And>r. halts (k r)) \<Longrightarrow> halts (Send m k)"
| "(\<And>w. halts (fst (f w))) \<Longrightarrow> halts (Act f)"

lemma halts_perform: "(\<And>r. halts (k r)) \<Longrightarrow> halts (perform m k)"
  unfolding perform_def by (rule halts.intros) (simp split: prod.split)

inductive_cases halts_ReceiveE: "halts (Receive k)"
inductive_cases halts_SendE: "halts (Send m k)"
inductive_cases halts_ActE: "halts (Act f)"

section \<open>What was exchanged\<close>

definition request_body :: "bytes option \<Rightarrow> bytes" where
  "request_body b = (case b of None \<Rightarrow> [] | Some bs \<Rightarrow> bs)"

fun reply_body :: "exn + message \<Rightarrow> bytes" where
  "reply_body (Inr (Http_Request b more_body)) = request_body b"
| "reply_body _ = []"

fun body_received :: "event list \<Rightarrow> bytes" where
  "body_received [] = []"
| "body_received (Received r # es) = reply_body r @ body_received es"
| "body_received (Sent m r # es) = body_received es"

fun sent_messages :: "event list \<Rightarrow> message list" where
  "sent_messages [] = []"
| "sent_messages (Sent m r # es) = m # sent_messages es"
| "sent_messages (Received r # es) = sent_messages es"

definition started :: "event list \<Rightarrow> bool" where
  "started es \<longleftrightarrow> (\<exists>m\<in>set (sent_messages es). is_response_start m)"

lemma started_simps [simp]:
  "\<not> started []" "started (Received x # es) = started es"
  "started (Sent m r # es) \<longleftrightarrow> is_response_start m \<or> started es"
  by (auto simp: started_def)

lemma body_received_append [simp]: "body_received (es @ fs) = body_received es @ body_received fs"
  by (induction es rule: body_received.induct) auto

lemma sent_messages_append [simp]: "sent_messages (es @ fs) = sent_messages es @ sent_messages fs"
  by (induction es rule: sent_messages.induct) auto

section \<open>Headers\<close>

lemma bytes_lower_lit_eval: "bytes_lower (b # bs) = (if 65 \<le> b \<and> b \<le> 90 then b + 32 else b) # bytes_lower bs"
  "bytes_lower [] = []"
  by (simp_all add: bytes_lower_def)

text \<open>The first header of a name, which is compared in lower case; its value in Latin-1.\<close>

definition header_value :: "bytes \<Rightarrow> (bytes \<times> bytes) list \<Rightarrow> pystr option" where
  "header_value name hs = map_option (\<lambda>h. latin1_decode (snd h)) (find (\<lambda>h. bytes_lower (fst h) = name) hs)"

text \<open>\<open>str.encode("ascii")\<close> of a text known to be ASCII, and UTF-8.\<close>

definition ascii_bytes :: "pystr \<Rightarrow> bytes" where
  "ascii_bytes s = map of_nat s"

definition utf8_char :: "nat \<Rightarrow> bytes" where
  "utf8_char c = map of_nat
     (if c < 128 then [c]
      else if c < 2048 then [192 + c div 64, 128 + c mod 64]
      else if c < 65536 then [224 + c div 4096, 128 + c div 64 mod 64, 128 + c mod 64]
      else [240 + c div 262144, 128 + c div 4096 mod 64, 128 + c div 64 mod 64, 128 + c mod 64])"

definition utf8_encode :: "pystr \<Rightarrow> bytes" where
  "utf8_encode s = concat (map utf8_char s)"

lemma utf8_encode_ascii: "\<forall>c\<in>set s. c < 128 \<Longrightarrow> utf8_encode s = ascii_bytes s"
  by (induction s) (auto simp: utf8_encode_def ascii_bytes_def utf8_char_def)

lemma latin1_ascii_bytes: "\<forall>c\<in>set s. c < 128 \<Longrightarrow> latin1_decode (ascii_bytes s) = s"
  by (rule latin1_ascii_roundtrip) (simp add: ascii_encode_def ascii_bytes_def)

end
