(* ===== verification/Request_Log.thy ===== *)
theory Request_Log
  imports Asgi Regex
begin

text \<open>
  Request correlation and access logging (\<open>api/middleware/request_logging.py\<close>): the middleware
  as a transformer of coroutines over a world with a journal and a bound logging context, and
  its correctness for every application it may wrap.
\<close>

definition REQUEST_ID_HEADER :: bytes where
  "REQUEST_ID_HEADER = bytes_lit ''x-request-id''"

definition CONTENT_TYPE_OPTIONS_HEADER :: bytes where
  "CONTENT_TYPE_OPTIONS_HEADER = bytes_lit ''x-content-type-options''"

definition NOSNIFF :: bytes where
  "NOSNIFF = bytes_lit ''nosniff''"

definition SAFE_REQUEST_ID :: regex where
  "SAFE_REQUEST_ID = between 1 128 (Cls [(65, 90), (97, 122), (48, 57), (46, 46), (95, 95), (45, 45)])"

definition MAX_LOGGED_PATH :: nat where
  "MAX_LOGGED_PATH = 512"

section \<open>Helpers\<close>

text \<open>The module has its own copy of the header lookup.\<close>

definition read_request_header :: "scope \<Rightarrow> bytes \<Rightarrow> pystr option" where
  "read_request_header sc name = header_value name (sc_headers sc)"

text \<open>\<open>fresh\<close> is the \<open>uuid4\<close> drawn when the client's identifier is not used.\<close>

definition resolve_request_id :: "uuid \<Rightarrow> scope \<Rightarrow> pystr" where
  "resolve_request_id fresh sc = (case read_request_header sc REQUEST_ID_HEADER of
       Some inbound \<Rightarrow> if fullmatch SAFE_REQUEST_ID inbound then inbound else uuid_str fresh
     | None \<Rightarrow> uuid_str fresh)"

definition truncate_path :: "pystr \<Rightarrow> pystr" where
  "truncate_path v =
     (if length v \<le> MAX_LOGGED_PATH then v
      else take MAX_LOGGED_PATH v @ [8230, 91] @ nat_dec (length v) @ [93])"

definition client_ip :: "scope \<Rightarrow> pystr option" where
  "client_ip sc = (case sc_client sc of None \<Rightarrow> None | Some client \<Rightarrow> Some (fst client))"

section \<open>The middleware\<close>

text \<open>
  \<open>send_with_request_id\<close>: the message as it is passed on, and the status recorded. The
  identifier is ASCII (\<open>safe_request_id\<close> below), so \<open>encode("ascii")\<close> does not fail.
\<close>

fun send_with_request_id :: "pystr \<Rightarrow> nat option \<Rightarrow> message \<Rightarrow> nat option \<times> message" where
  "send_with_request_id request_id status_code (Response_Start status headers) =
     (Some status, Response_Start status (Some
        ((case headers of None \<Rightarrow> [] | Some hs \<Rightarrow> hs)
         @ [(REQUEST_ID_HEADER, ascii_bytes request_id), (CONTENT_TYPE_OPTIONS_HEADER, NOSNIFF)])))"
| "send_with_request_id request_id status_code m = (status_code, m)"

definition summary_fields :: "scope \<Rightarrow> nat option \<Rightarrow> (pystr \<times> field_value) list" where
  "summary_fields sc status_code =
     [(lit ''method'', Text (sc_method sc)),
      (lit ''path'', Text (truncate_path (sc_path sc))),
      (lit ''status_code'', case status_code of None \<Rightarrow> Absent | Some n \<Rightarrow> Number (int n)),
      (lit ''duration_ms'', Measured),
      (lit ''client_ip'', text_or_none (client_ip sc))]"

definition failure_fields :: "scope \<Rightarrow> (pystr \<times> field_value) list" where
  "failure_fields sc =
     [(lit ''method'', Text (sc_method sc)),
      (lit ''path'', Text (truncate_path (sc_path sc))),
      (lit ''client_ip'', text_or_none (client_ip sc))]"

definition bind_request_id :: "pystr option \<Rightarrow> ('p, unit) app" where
  "bind_request_id v = (\<lambda>w. (Inr (), w\<lparr>bound_context := (bound_context w)(lit ''request_id'' := v)\<rparr>))"

text \<open>The \<open>except Exception\<close> and \<open>finally\<close> blocks, for the outcome of the application.\<close>

definition close_request :: "scope \<Rightarrow> pystr option \<Rightarrow> nat option \<Rightarrow> exn + unit \<Rightarrow> ('p, unit) app" where
  "close_request sc token status_code outcome = (case outcome of
       Inl e \<Rightarrow>
         if is_exception e then
           (let status_code = (case status_code of None \<Rightarrow> Some 500 | Some n \<Rightarrow> Some n)
            in and_then (log_exception (lit ''http_request_failed'') (failure_fields sc) e) (\<lambda>_.
               and_then (log_as INFO (lit ''http_request'') (summary_fields sc status_code)) (\<lambda>_.
               bind_request_id token)))
         else
           and_then (log_as INFO (lit ''http_request'') (summary_fields sc status_code)) (\<lambda>_.
           bind_request_id token)
     | Inr _ \<Rightarrow>
         and_then (log_as INFO (lit ''http_request'') (summary_fields sc status_code)) (\<lambda>_.
         bind_request_id token))"

primcorec logged :: "scope \<Rightarrow> pystr \<Rightarrow> pystr option \<Rightarrow> nat option \<Rightarrow> 'p world coroutine \<Rightarrow> 'p world coroutine" where
  "logged sc request_id token status_code c = (case c of
       Done r \<Rightarrow> perform (close_request sc token status_code r) (\<lambda>_. Done r)
     | Receive k \<Rightarrow> Receive (\<lambda>r. logged sc request_id token status_code (k r))
     | Send m k \<Rightarrow> Send (snd (send_with_request_id request_id status_code m)) (\<lambda>r.
         logged sc request_id token (fst (send_with_request_id request_id status_code m)) (k r))
     | Act f \<Rightarrow> Act (\<lambda>w. map_prod (logged sc request_id token status_code) id (f w)))"

definition with_request_id :: "scope \<Rightarrow> pystr \<Rightarrow> scope" where
  "with_request_id sc request_id =
     sc\<lparr>sc_state := Some ((case sc_state sc of None \<Rightarrow> Map.empty | Some d \<Rightarrow> d)(lit ''request_id'' \<mapsto> request_id))\<rparr>"

lemma with_request_id_simps [simp]:
  "sc_type (with_request_id sc i) = sc_type sc" "sc_headers (with_request_id sc i) = sc_headers sc"
  "sc_method (with_request_id sc i) = sc_method sc" "sc_path (with_request_id sc i) = sc_path sc"
  "sc_client (with_request_id sc i) = sc_client sc"
  by (simp_all add: with_request_id_def)

definition request_logging :: "uuid \<Rightarrow> 'p world application \<Rightarrow> 'p world application" where
  "request_logging fresh app sc =
     (if sc_type sc \<noteq> HTTP then app sc
      else let request_id = resolve_request_id fresh sc;
               sc' = with_request_id sc request_id
           in Act (\<lambda>w. (logged sc' request_id (bound_context w (lit ''request_id'')) None (app sc'),
                         snd (bind_request_id (Some request_id) w))))"

lemma logged_simps [simp]:
  "logged sc i t st (Done r) = perform (close_request sc t st r) (\<lambda>_. Done r)"
  "logged sc i t st (Receive k) = Receive (\<lambda>r. logged sc i t st (k r))"
  "logged sc i t st (Send m k') = Send (snd (send_with_request_id i st m))
     (\<lambda>r. logged sc i t (fst (send_with_request_id i st m)) (k' r))"
  "logged sc i t st (Act f) = Act (\<lambda>w. map_prod (logged sc i t st) id (f w))"
  by (subst logged.code; simp add: perform_def)+

lemma logged_not_Done [simp]: "logged sc i t st c \<noteq> Done r"
  by (cases c) (auto simp: perform_def)

section \<open>Correlation identifiers\<close>

lemma safe_request_id_iff:
  "fullmatch SAFE_REQUEST_ID s \<longleftrightarrow> 1 \<le> length s \<and> length s \<le> 128
     \<and> (\<forall>c\<in>set s. (65 \<le> c \<and> c \<le> 90) \<or> (97 \<le> c \<and> c \<le> 122) \<or> (48 \<le> c \<and> c \<le> 57) \<or> c = 46 \<or> c = 95 \<or> c = 45)"
  by (auto simp: SAFE_REQUEST_ID_def fullmatch_iff matches_between_Cls in_class_def)

lemma safe_uuid: "fullmatch SAFE_REQUEST_ID (uuid_str i)"
proof -
  have "48 \<le> c \<and> c \<le> 57 \<or> 97 \<le> c \<and> c \<le> 102 \<or> c = 45" if "c \<in> set (uuid_str i)" for c
    using uuid_str_chars [OF that] by (simp add: is_hex_def is_digit_def)
  then show ?thesis unfolding safe_request_id_iff by fastforce
qed

lemma resolved_request_id_safe: "fullmatch SAFE_REQUEST_ID (resolve_request_id fresh sc)"
  by (simp add: resolve_request_id_def safe_uuid split: option.split)

lemma safe_request_id_ascii: "fullmatch SAFE_REQUEST_ID s \<Longrightarrow> \<forall>c\<in>set s. c < 128"
  unfolding safe_request_id_iff by force

section \<open>Simulation\<close>

text \<open>What the application sent, as it reaches the server, and the status recorded on the way.\<close>

fun stamped :: "pystr \<Rightarrow> event list \<Rightarrow> event list" where
  "stamped i [] = []"
| "stamped i (Received r # es) = Received r # stamped i es"
| "stamped i (Sent m x # es) = Sent (snd (send_with_request_id i None m)) x # stamped i es"

fun status_after :: "nat option \<Rightarrow> event list \<Rightarrow> nat option" where
  "status_after st [] = st"
| "status_after st (Received r # es) = status_after st es"
| "status_after st (Sent m x # es) = status_after (fst (send_with_request_id [] st m)) es"

lemma send_with_request_id_parts:
  "snd (send_with_request_id i st m) = snd (send_with_request_id i None m)"
  "fst (send_with_request_id i st m) = fst (send_with_request_id [] st m)"
  by (cases m; simp)+

lemma ends_logged_converse:
  assumes "ends c w fs r w1"
  shows "ends (logged sc i t st c) w (stamped i fs) r (snd (close_request sc t (status_after st fs) r w1))"
  using assms
proof (induction c w fs "Done r :: 'a world coroutine" w1 arbitrary: st rule: exec.induct)
  case (Stay w)
  show ?case by (simp add: ends_perform)
next
  case (Recv k x w es w')
  then show ?case by (auto intro: exec.Recv)
next
  case (Snd k x w es w' m)
  then show ?case using send_with_request_id_parts [of i st m] by (auto intro: exec.Snd)
next
  case (Work f w c w1 es w')
  then show ?case by (auto intro: exec.Work)
qed

lemma ends_logged_inversion:
  assumes "ends (logged sc i t st c) w es r w'"
  shows "\<exists>fs w1. es = stamped i fs \<and> ends c w fs r w1
    \<and> w' = snd (close_request sc t (status_after st fs) r w1)"
  using assms
proof (induction "logged sc i t st c" w es "Done r :: 'a world coroutine" w' arbitrary: st c rule: exec.induct)
  case (Stay w)
  then show ?case by (metis logged_not_Done)
next
  case (Recv k x w es w')
  then obtain k0 where c: "c = Receive k0" and k: "k x = logged sc i t st (k0 x)"
    by (cases c) (auto simp: perform_def)
  from Recv.hyps(2) [OF k] obtain fs w1 where
    "es = stamped i fs" "ends (k0 x) w fs r w1" "w' = snd (close_request sc t (status_after st fs) r w1)" by blast
  then have "Received x # es = stamped i (Received x # fs)" "ends c w (Received x # fs) r w1"
    "w' = snd (close_request sc t (status_after st (Received x # fs)) r w1)"
    by (auto simp: c intro: exec.Recv)
  then show ?case by blast
next
  case (Snd k x w es w' m)
  then obtain m0 k0 where c: "c = Send m0 k0" and m: "m = snd (send_with_request_id i st m0)"
    and k: "k x = logged sc i t (fst (send_with_request_id i st m0)) (k0 x)"
    by (cases c) (auto simp: perform_def)
  from Snd.hyps(2) [OF k] obtain fs w1 where
    "es = stamped i fs" "ends (k0 x) w fs r w1"
    "w' = snd (close_request sc t (status_after (fst (send_with_request_id i st m0)) fs) r w1)" by blast
  then have "Sent m x # es = stamped i (Sent m0 x # fs)" "ends c w (Sent m0 x # fs) r w1"
    "w' = snd (close_request sc t (status_after st (Sent m0 x # fs)) r w1)"
    using send_with_request_id_parts [of i st m0] by (auto simp: c m intro: exec.Snd)
  then show ?case by blast
next
  case (Work f w c1 w1 es w')
  show ?case
  proof (cases "\<exists>q. c = Done q")
    case True
    then obtain q where c: "c = Done q" by blast
    with Work.hyps(1,4) have "c1 = Done q" "w1 = snd (close_request sc t st q w)"
      by (auto simp: perform_def split: prod.splits)
    with Work.hyps(2) have "es = []" "q = r" "w' = snd (close_request sc t st q w)" by auto
    then show ?thesis using c by (intro exI [of _ "[]"] exI [of _ w]) (auto intro: exec.Stay)
  next
    case False
    with Work.hyps(4) obtain f0 where c: "c = Act f0"
      and "f = (\<lambda>w. map_prod (logged sc i t st) id (f0 w))" by (cases c) auto
    with Work.hyps(1) obtain c0 where f0: "f0 w = (c0, w1)" and c1: "c1 = logged sc i t st c0"
      by (cases "f0 w") auto
    have "ends c w fs r v" if "ends c0 w1 fs r v" for fs v
      unfolding c using f0 that by (rule exec.Work)
    with Work.hyps(3) [OF c1] show ?thesis by blast
  qed
qed

lemma ends_logged: "ends (logged sc i t st c) w es r w' \<longleftrightarrow>
  (\<exists>fs w1. es = stamped i fs \<and> ends c w fs r w1 \<and> w' = snd (close_request sc t (status_after st fs) r w1))"
  using ends_logged_converse ends_logged_inversion by metis

text \<open>Every partial run is a partial run of the application, stamped.\<close>

lemma exec_logged:
  assumes "exec (logged sc i t st c) w es c' w'"
  shows "\<exists>fs d w1. es = stamped i fs \<and> exec c w fs d w1"
  using assms
proof (induction "logged sc i t st c" w es c' w' arbitrary: st c rule: exec.induct)
  case (Stay w)
  show ?case by (metis exec.Stay stamped.simps(1))
next
  case (Recv k x w es c' w')
  then obtain k0 where c: "c = Receive k0" and k: "k x = logged sc i t st (k0 x)"
    by (cases c) (auto simp: perform_def)
  from Recv.hyps(2) [OF k] obtain fs d w1 where "es = stamped i fs" "exec (k0 x) w fs d w1" by blast
  then have "Received x # es = stamped i (Received x # fs)" "exec c w (Received x # fs) d w1"
    by (auto simp: c intro: exec.Recv)
  then show ?case by blast
next
  case (Snd k x w es c' w' m)
  then obtain m0 k0 where c: "c = Send m0 k0" and m: "m = snd (send_with_request_id i st m0)"
    and k: "k x = logged sc i t (fst (send_with_request_id i st m0)) (k0 x)"
    by (cases c) (auto simp: perform_def)
  from Snd.hyps(2) [OF k] obtain fs d w1 where "es = stamped i fs" "exec (k0 x) w fs d w1" by blast
  then have "Sent m x # es = stamped i (Sent m0 x # fs)" "exec c w (Sent m0 x # fs) d w1"
    using send_with_request_id_parts [of i st m0] by (auto simp: c m intro: exec.Snd)
  then show ?case by blast
next
  case (Work f w c1 w1 es c' w')
  show ?case
  proof (cases "\<exists>q. c = Done q")
    case True
    with Work.hyps(1,4) obtain q where "c1 = Done q" by (auto simp: perform_def split: prod.splits)
    with Work.hyps(2) have "es = []" by simp
    then show ?thesis by (metis exec.Stay stamped.simps(1))
  next
    case False
    with Work.hyps(4) obtain f0 where c: "c = Act f0"
      and "f = (\<lambda>w. map_prod (logged sc i t st) id (f0 w))" by (cases c) auto
    with Work.hyps(1) obtain c0 where f0: "f0 w = (c0, w1)" and c1: "c1 = logged sc i t st c0"
      by (cases "f0 w") auto
    have "exec c w fs d v" if "exec c0 w1 fs d v" for fs d v
      unfolding c using f0 that by (rule exec.Work)
    with Work.hyps(3) [OF c1] show ?thesis by blast
  qed
qed

lemma sent_stamped: "sent_messages (stamped i es) = map (\<lambda>m. snd (send_with_request_id i None m)) (sent_messages es)"
  by (induction i es rule: stamped.induct) auto

lemma halts_logged: "halts c \<Longrightarrow> halts (logged sc i t st c)"
  by (induction arbitrary: st rule: halts.induct) (auto intro: halts.intros halts_perform)

section \<open>Properties\<close>

text \<open>The records a request leaves, from the status that was sent and how the application ended.\<close>

definition request_records :: "scope \<Rightarrow> nat option \<Rightarrow> exn + unit \<Rightarrow> log_event list" where
  "request_records sc status_code outcome = (case outcome of
       Inr _ \<Rightarrow> [log_event_of INFO (lit ''http_request'') (summary_fields sc status_code)]
     | Inl e \<Rightarrow>
         if is_exception e
         then [(log_event_of ERROR (lit ''http_request_failed'') (failure_fields sc))\<lparr>ev_exc := Some e\<rparr>,
               log_event_of INFO (lit ''http_request'')
                 (summary_fields sc (Some (case status_code of None \<Rightarrow> 500 | Some n \<Rightarrow> n)))]
         else [log_event_of INFO (lit ''http_request'') (summary_fields sc status_code)])"

lemma close_request_run:
  "snd (close_request sc t st r w) = w\<lparr>journal := journal w @ request_records sc st r,
     bound_context := (bound_context w)(lit ''request_id'' := t)\<rparr>"
  by (cases r; cases st) (simp_all add: close_request_def request_records_def and_then_def bind_request_id_def)

abbreviation correlated :: "uuid \<Rightarrow> scope \<Rightarrow> scope" where
  "correlated fresh sc \<equiv> with_request_id sc (resolve_request_id fresh sc)"

abbreviation with_bound_id :: "'p world \<Rightarrow> pystr option \<Rightarrow> 'p world" where
  "with_bound_id w v \<equiv> w\<lparr>bound_context := (bound_context w)(lit ''request_id'' := v)\<rparr>"

text \<open>C20. Every HTTP request is correlated and logged, whatever the application does: a run of the wrapped
  application is a run of the application itself, with the correlation ID in its scope and bound
  in its logging context; when it ends, the journal gains the request's records (the failure
  first when an \<open>Exception\<close> escaped, and always one summary with the status that was sent, or
  \<open>500\<close> when an exception escaped before any), the context gets its previous value back, and
  the outcome, an exception included, is passed on.\<close>

theorem every_request_logged:
  assumes "sc_type sc = HTTP"
  shows "ends (request_logging fresh app sc) w es r w' \<longleftrightarrow>
    (\<exists>fs w1. ends (app (correlated fresh sc)) (with_bound_id w (Some (resolve_request_id fresh sc))) fs r w1
      \<and> es = stamped (resolve_request_id fresh sc) fs
      \<and> w' = with_bound_id (w1\<lparr>journal := journal w1 @
            request_records (correlated fresh sc) (status_after None fs) r\<rparr>) (bound_context w (lit ''request_id'')))"
  using assms unfolding request_logging_def
  by (simp add: Let_def ends_Act ends_logged close_request_run bind_request_id_def)
    blast

text \<open>A request with a header, and an application that starts a response and then fails.\<close>

definition tagged_scope :: "string \<Rightarrow> scope" where
  "tagged_scope rid = \<lparr>sc_type = HTTP, sc_headers = [(bytes_lit ''X-Request-ID'', bytes_lit rid)],
     sc_state = None, sc_method = lit ''GET'', sc_path = lit ''/x'', sc_client = None\<rparr>"

definition failing_app :: "'w application" where
  "failing_app sc = Send (Response_Start 200 None) (\<lambda>_. Done (Inl (Other_Exception 7)))"

definition quiet_world :: "unit world" where
  "quiet_world = \<lparr>part = (), journal = [], bound_context = Map.empty\<rparr>"

lemma tagged_scope_ids:
  "resolve_request_id 0 (tagged_scope ''job-7'') = lit ''job-7''"
  "resolve_request_id 0 (tagged_scope ''a b'') = lit ''00000000-0000-0000-0000-000000000000''"
  unfolding resolve_request_id_def fullmatch_iff SAFE_REQUEST_ID_def matches_between_Cls [OF one_le_numeral]
  by code_simp+

lemma every_request_logged_witness:
  "\<exists>w'. ends (request_logging 0 failing_app (tagged_scope ''job-7'')) quiet_world
      (stamped (lit ''job-7'') [Sent (Response_Start 200 None) (Inr ())]) (Inl (Other_Exception 7)) w'
    \<and> map ev_name (journal w') = [lit ''http_request_failed'', lit ''http_request'']
    \<and> bound_context w' (lit ''request_id'') = None"
proof -
  have http: "sc_type (tagged_scope ''job-7'') = HTTP" by (simp add: tagged_scope_def)
  let ?w = "with_bound_id quiet_world (Some (lit ''job-7''))"
  have "ends (failing_app (correlated 0 (tagged_scope ''job-7''))) ?w
      [Sent (Response_Start 200 None) (Inr ())] (Inl (Other_Exception 7)) ?w"
    by (simp add: failing_app_def ends_Send)
  then show ?thesis
    unfolding every_request_logged [OF http] tagged_scope_ids(1)
    by (intro exI conjI) (auto simp: request_records_def log_event_of_def quiet_world_def)
qed

text \<open>C36. No response leaves without its two fixed headers, and the identifier in them cannot split the
  response: at every moment of every run each response start that was sent ends with the
  correlation ID and \<open>nosniff\<close>, and the ID is one to 128 characters out of letters, digits, dots,
  underscores and dashes, whatever the client sent.\<close>

theorem responses_stamped:
  assumes "sc_type sc = HTTP" and "exec (request_logging fresh app sc) w es c w'"
    and "Response_Start status hs \<in> set (sent_messages es)"
  shows "(\<exists>hs0. hs = Some (hs0 @ [(REQUEST_ID_HEADER, ascii_bytes (resolve_request_id fresh sc)),
      (CONTENT_TYPE_OPTIONS_HEADER, bytes_lit ''nosniff'')]))
    \<and> 1 \<le> length (resolve_request_id fresh sc) \<and> length (resolve_request_id fresh sc) \<le> 128
    \<and> (\<forall>c\<in>set (resolve_request_id fresh sc). (65 \<le> c \<and> c \<le> 90) \<or> (97 \<le> c \<and> c \<le> 122)
        \<or> (48 \<le> c \<and> c \<le> 57) \<or> c = 46 \<or> c = 95 \<or> c = 45)"
proof -
  obtain m0 where "Response_Start status hs = snd (send_with_request_id (resolve_request_id fresh sc) None m0)"
    using assms exec_logged
    by (fastforce simp: request_logging_def Let_def exec_Act sent_stamped)
  then have "\<exists>hs0. hs = Some (hs0 @ [(REQUEST_ID_HEADER, ascii_bytes (resolve_request_id fresh sc)),
      (CONTENT_TYPE_OPTIONS_HEADER, NOSNIFF)])"
    by (cases m0) auto
  with resolved_request_id_safe [of fresh sc] show ?thesis
    unfolding safe_request_id_iff NOSNIFF_def by blast
qed

lemma responses_stamped_witness:
  "\<exists>c w' hs0. exec (request_logging 0 failing_app (tagged_scope ''a b'')) quiet_world
      [Sent (Response_Start 200 (Some (hs0 @ [(REQUEST_ID_HEADER, ascii_bytes (lit ''00000000-0000-0000-0000-000000000000'')),
        (CONTENT_TYPE_OPTIONS_HEADER, bytes_lit ''nosniff'')]))) (Inr ())] c w'"
proof -
  let ?sc = "tagged_scope ''a b''" and ?i = "lit ''00000000-0000-0000-0000-000000000000''"
  let ?hs = "Some [(REQUEST_ID_HEADER, ascii_bytes ?i), (CONTENT_TYPE_OPTIONS_HEADER, NOSNIFF)]"
  have http: "sc_type ?sc = HTTP" by (simp add: tagged_scope_def)
  have run: "exec (request_logging 0 failing_app ?sc) quiet_world [Sent (Response_Start 200 ?hs) (Inr ())]
      (logged (with_request_id ?sc ?i) ?i None (Some 200) (Done (Inl (Other_Exception 7)))) (with_bound_id quiet_world (Some ?i))"
    using http by (simp add: request_logging_def tagged_scope_ids failing_app_def exec_Act exec_Send bind_request_id_def
        quiet_world_def Let_def exec.Stay)
  have "Response_Start 200 ?hs \<in> set (sent_messages [Sent (Response_Start 200 ?hs) (Inr ())])" by simp
  from responses_stamped [OF http run this] obtain hs0 where
    "?hs = Some (hs0 @ [(REQUEST_ID_HEADER, ascii_bytes ?i), (CONTENT_TYPE_OPTIONS_HEADER, bytes_lit ''nosniff'')])"
    unfolding tagged_scope_ids by blast
  with run show ?thesis by metis
qed

end
