(* ===== verification/Json.thy ===== *)
theory Json
  imports Py_Strings
begin

text \<open>
  What the program uses of Python's \<open>json.dumps\<close>: a flat dictionary whose values are texts or
  \<open>None\<close>, with the default separators and \<open>ensure_ascii\<close>. Beside it a reader of such
  documents, in the grammar of RFC 8259, which the printed text is read back with.
\<close>

section \<open>Printing\<close>

definition u_escape :: "nat \<Rightarrow> pystr" where
  "u_escape n = [92, 117] @ hex_pad 4 n"

text \<open>The character escapes; a character beyond the basic plane is a surrogate pair.\<close>

definition json_char :: "nat \<Rightarrow> pystr" where
  "json_char c =
     (if c = 34 then [92, 34] else if c = 92 then [92, 92]
      else if c = 10 then [92, 110] else if c = 13 then [92, 114] else if c = 9 then [92, 116]
      else if c = 12 then [92, 102] else if c = 8 then [92, 98]
      else if 32 \<le> c \<and> c \<le> 126 then [c]
      else if c < 65536 then u_escape c
      else u_escape (55296 + (c - 65536) div 1024) @ u_escape (56320 + (c - 65536) mod 1024))"

definition json_string :: "pystr \<Rightarrow> pystr" where
  "json_string s = [34] @ concat (map json_char s) @ [34]"

definition json_scalar :: "pystr option \<Rightarrow> pystr" where
  "json_scalar v = (case v of None \<Rightarrow> lit ''null'' | Some s \<Rightarrow> json_string s)"

definition json_member :: "pystr \<times> pystr option \<Rightarrow> pystr" where
  "json_member kv = json_string (fst kv) @ lit '': '' @ json_scalar (snd kv)"

fun json_members :: "(pystr \<times> pystr option) list \<Rightarrow> pystr" where
  "json_members [] = []"
| "json_members [kv] = json_member kv"
| "json_members (kv # kvs) = json_member kv @ lit '', '' @ json_members kvs"

definition json_dumps :: "(pystr \<times> pystr option) list \<Rightarrow> pystr" where
  "json_dumps d = lit ''{'' @ json_members d @ lit ''}''"

section \<open>Reading\<close>

definition hex_value :: "nat \<Rightarrow> nat option" where
  "hex_value c = (if is_digit c then Some (c - 48) else if 97 \<le> c \<and> c \<le> 102 then Some (c - 87)
     else if 65 \<le> c \<and> c \<le> 70 then Some (c - 55) else None)"

definition read_hex4 :: "pystr \<Rightarrow> (nat \<times> pystr) option" where
  "read_hex4 s = (case s of a # b # c # d # rest \<Rightarrow>
       (case (hex_value a, hex_value b, hex_value c, hex_value d) of
          (Some w, Some x, Some y, Some z) \<Rightarrow> Some (((w * 16 + x) * 16 + y) * 16 + z, rest)
        | _ \<Rightarrow> None)
     | _ \<Rightarrow> None)"

definition plain_escape :: "nat \<Rightarrow> nat option" where
  "plain_escape c = map_of [(34, 34), (92, 92), (47, 47), (98, 8), (102, 12), (110, 10), (114, 13), (116, 9)] c"

text \<open>One character, or one escape, and what follows it; a surrogate pair is one character.\<close>

definition read_unit :: "pystr \<Rightarrow> (nat \<times> pystr) option" where
  "read_unit s = (case s of
       [] \<Rightarrow> None
     | c # rest \<Rightarrow>
         if c = 34 \<or> c < 32 then None
         else if c \<noteq> 92 then Some (c, rest)
         else (case rest of
             [] \<Rightarrow> None
           | e # rest1 \<Rightarrow>
               if e \<noteq> 117 then map_option (\<lambda>x. (x, rest1)) (plain_escape e)
               else (case read_hex4 rest1 of
                   None \<Rightarrow> None
                 | Some (hi, rest2) \<Rightarrow>
                     if 55296 \<le> hi \<and> hi < 56320 \<and> take 2 rest2 = [92, 117] then
                       (case read_hex4 (drop 2 rest2) of
                          Some (lo, rest3) \<Rightarrow>
                            if 56320 \<le> lo \<and> lo < 57344
                            then Some (65536 + (hi - 55296) * 1024 + (lo - 56320), rest3)
                            else Some (hi, rest2)
                        | None \<Rightarrow> Some (hi, rest2))
                     else Some (hi, rest2))))"

lemma read_hex4_shorter: "read_hex4 s = Some (n, t) \<Longrightarrow> length t < length s"
  by (auto simp: read_hex4_def split: list.splits option.splits)

lemma read_unit_shorter: "read_unit s = Some (c, t) \<Longrightarrow> length t < length s"
  by (auto simp: read_unit_def split: list.splits if_splits option.splits dest!: read_hex4_shorter)

text \<open>The characters up to the closing quote, and what follows it.\<close>

function read_chars :: "pystr \<Rightarrow> (pystr \<times> pystr) option" where
  "read_chars s = (if s \<noteq> [] \<and> hd s = 34 then Some ([], tl s)
     else (case read_unit s of
         None \<Rightarrow> None
       | Some (c, t) \<Rightarrow> map_option (\<lambda>(cs, rest). (c # cs, rest)) (read_chars t)))"
  by pat_completeness auto
termination
  by (relation "measure length") (auto dest: read_unit_shorter)

declare read_chars.simps [simp del]

fun skip_blanks :: "pystr \<Rightarrow> pystr" where
  "skip_blanks [] = []"
| "skip_blanks (c # cs) = (if c \<in> {9, 10, 13, 32} then skip_blanks cs else c # cs)"

definition read_string :: "pystr \<Rightarrow> (pystr \<times> pystr) option" where
  "read_string s = (if s \<noteq> [] \<and> hd s = 34 then read_chars (tl s) else None)"

definition read_scalar :: "pystr \<Rightarrow> (pystr option \<times> pystr) option" where
  "read_scalar s = (if starts_with s (lit ''null'') then Some (None, drop 4 s)
     else map_option (\<lambda>(v, rest). (Some v, rest)) (read_string s))"

text \<open>One member, its blanks, and the comma or brace after it, which is kept.\<close>

definition read_member :: "pystr \<Rightarrow> ((pystr \<times> pystr option) \<times> pystr) option" where
  "read_member s = (case read_string (skip_blanks s) of
       None \<Rightarrow> None
     | Some (k, rest) \<Rightarrow> (case skip_blanks rest of
           [] \<Rightarrow> None
         | c # rest1 \<Rightarrow> if c \<noteq> 58 then None
             else map_option (\<lambda>(v, rest2). ((k, v), skip_blanks rest2)) (read_scalar (skip_blanks rest1))))"

text \<open>Members separated by commas, at most as many as the first argument, up to the brace.\<close>

fun read_members :: "nat \<Rightarrow> pystr \<Rightarrow> ((pystr \<times> pystr option) list \<times> pystr) option" where
  "read_members 0 s = None"
| "read_members (Suc n) s = (case read_member s of
       None \<Rightarrow> None
     | Some (m, []) \<Rightarrow> None
     | Some (m, c # rest) \<Rightarrow>
         if c = 125 then Some ([m], rest)
         else if c = 44 then map_option (\<lambda>(ms, t). (m # ms, t)) (read_members n rest)
         else None)"

definition json_loads :: "pystr \<Rightarrow> (pystr \<times> pystr option) list option" where
  "json_loads s = (case skip_blanks s of
       [] \<Rightarrow> None
     | c # rest \<Rightarrow>
         if c \<noteq> 123 then None
         else if skip_blanks rest = [] then None
         else if hd (skip_blanks rest) = 125
         then (if skip_blanks (tl (skip_blanks rest)) = [] then Some [] else None)
         else (case read_members (length rest) rest of
             None \<Rightarrow> None
           | Some (ms, t) \<Rightarrow> if skip_blanks t = [] then Some ms else None))"

section \<open>Reading back what was printed\<close>

text \<open>A code point that is a character: surrogates are not.\<close>

definition unicode_scalar :: "nat \<Rightarrow> bool" where
  "unicode_scalar c \<longleftrightarrow> c < 55296 \<or> (57344 \<le> c \<and> c < 1114112)"

lemma hex_value_digit: "d < 16 \<Longrightarrow> hex_value (hex_digit d) = Some d"
  by (auto simp: hex_value_def hex_digit_def is_digit_def)

lemma read_hex4_pad:
  assumes "n < 65536"
  shows "read_hex4 (hex_pad 4 n @ rest) = Some (n, rest)"
proof -
  let ?q = "n div 16" let ?r = "?q div 16" let ?t = "?r div 16"
  have pad: "hex_pad 4 n = map hex_digit [?t mod 16, ?r mod 16, ?q mod 16, n mod 16]"
  proof -
    have four: "(4::nat) = Suc (Suc (Suc (Suc 0)))" by simp
    show ?thesis unfolding four by simp
  qed
  have "?t < 16" using assms by (simp add: div_mult2_eq [symmetric] less_mult_imp_div_less)
  then have "((?t mod 16 * 16 + ?r mod 16) * 16 + ?q mod 16) * 16 + n mod 16 = n"
    by (simp only: mod_less div_mult_mod_eq)
  then show ?thesis unfolding pad by (simp add: read_hex4_def hex_value_digit)
qed

lemma read_unit_u_escape:
  assumes "n < 65536" and "\<not> (55296 \<le> n \<and> n < 56320)"
  shows "read_unit (u_escape n @ rest) = Some (n, rest)"
  using assms by (auto simp: u_escape_def read_unit_def read_hex4_pad)

lemma read_unit_pair:
  assumes "hi < 1024" and "lo < 1024"
  shows "read_unit (u_escape (55296 + hi) @ u_escape (56320 + lo) @ rest) = Some (65536 + hi * 1024 + lo, rest)"
proof -
  have "read_hex4 (hex_pad 4 (55296 + hi) @ [92, 117] @ hex_pad 4 (56320 + lo) @ rest) =
      Some (55296 + hi, [92, 117] @ hex_pad 4 (56320 + lo) @ rest)"
    using assms by (intro read_hex4_pad) simp
  moreover have "read_hex4 (hex_pad 4 (56320 + lo) @ rest) = Some (56320 + lo, rest)"
    using assms by (intro read_hex4_pad) simp
  ultimately show ?thesis using assms by (simp add: u_escape_def read_unit_def)
qed

lemma read_unit_char:
  assumes "unicode_scalar c"
  shows "read_unit (json_char c @ rest) = Some (c, rest)"
proof (cases "c < 65536")
  case True
  with assms read_unit_u_escape [of c rest] show ?thesis
    by (auto simp: json_char_def unicode_scalar_def read_unit_def plain_escape_def)
next
  case False
  let ?hi = "(c - 65536) div 1024" and ?lo = "(c - 65536) mod 1024"
  have "?hi < 1024" "?lo < 1024" using assms False by (auto simp: unicode_scalar_def)
  from read_unit_pair [OF this, of rest] False show ?thesis
    by (simp add: json_char_def)
qed

lemma json_char_start: "\<exists>x xs. json_char c = x # xs \<and> x \<noteq> 34"
  by (auto simp: json_char_def u_escape_def)

lemma read_chars_printed:
  assumes "\<forall>c\<in>set s. unicode_scalar c"
  shows "read_chars (concat (map json_char s) @ 34 # rest) = Some (s, rest)"
  using assms
proof (induction s)
  case Nil
  show ?case by (simp add: read_chars.simps)
next
  case (Cons c s)
  obtain x xs where x: "json_char c = x # xs" "x \<noteq> 34" using json_char_start by blast
  have "read_unit (json_char c @ concat (map json_char s) @ 34 # rest) =
      Some (c, concat (map json_char s) @ 34 # rest)"
    using Cons.prems by (intro read_unit_char) simp
  then show ?case
    using Cons x by (subst read_chars.simps) simp
qed

lemma read_string_printed:
  "\<forall>c\<in>set s. unicode_scalar c \<Longrightarrow> read_string (json_string s @ rest) = Some (s, rest)"
  using read_chars_printed [of s rest] by (simp add: read_string_def json_string_def)

lemma json_string_start: "\<exists>xs. json_string s = 34 # xs"
  by (simp add: json_string_def)

lemma skip_blanks_string [simp]: "skip_blanks (json_string s @ rest) = json_string s @ rest"
  using json_string_start [of s] by auto

lemma read_scalar_printed:
  assumes "\<forall>s. v = Some s \<longrightarrow> (\<forall>c\<in>set s. unicode_scalar c)"
  shows "read_scalar (json_scalar v @ rest) = Some (v, rest)"
proof (cases v)
  case None
  then show ?thesis by (simp add: read_scalar_def json_scalar_def starts_with_def)
next
  case (Some s)
  obtain xs where "json_string s = 34 # xs" using json_string_start by blast
  then have "\<not> starts_with (json_string s @ rest) (lit ''null'')"
    by (simp add: starts_with_def lit_def)
  with Some assms read_string_printed [of s rest] show ?thesis
    by (simp add: read_scalar_def json_scalar_def)
qed

definition printable_member :: "pystr \<times> pystr option \<Rightarrow> bool" where
  "printable_member kv \<longleftrightarrow> (\<forall>c\<in>set (fst kv). unicode_scalar c)
     \<and> (\<forall>s. snd kv = Some s \<longrightarrow> (\<forall>c\<in>set s. unicode_scalar c))"

lemma read_member_printed:
  assumes "printable_member kv" and "c \<noteq> 9" "c \<noteq> 10" "c \<noteq> 13" "c \<noteq> 32"
  shows "read_member (json_member kv @ c # rest) = Some (kv, c # rest)"
    and "read_member (32 # json_member kv @ c # rest) = Some (kv, c # rest)"
proof -
  obtain k v where kv: "kv = (k, v)" by fastforce
  have k: "\<forall>c\<in>set k. unicode_scalar c" and v: "\<forall>s. v = Some s \<longrightarrow> (\<forall>c\<in>set s. unicode_scalar c)"
    using assms(1) by (auto simp: kv printable_member_def)
  have "\<exists>x xs. json_scalar v = x # xs \<and> x \<notin> {9, 10, 13, 32}"
    by (cases v) (auto simp: json_scalar_def json_string_def lit_def)
  then obtain x xs where x: "json_scalar v = x # xs" "x \<notin> {9, 10, 13, 32}" by blast
  then have skip: "skip_blanks (json_scalar v @ c # rest) = json_scalar v @ c # rest" by simp
  show "read_member (json_member kv @ c # rest) = Some (kv, c # rest)"
    using assms(2-) by (simp add: kv json_member_def read_member_def read_string_printed [OF k] lit_def skip
        read_scalar_printed [OF v])
  then show "read_member (32 # json_member kv @ c # rest) = Some (kv, c # rest)"
    by (simp add: read_member_def)
qed

lemma read_members_printed:
  assumes "\<forall>kv\<in>set d. printable_member kv" and "d \<noteq> []" and "length d \<le> n"
  shows "read_members n (json_members d @ 125 # rest) = Some (d, rest)
    \<and> read_members n (32 # json_members d @ 125 # rest) = Some (d, rest)"
  using assms
proof (induction d arbitrary: n rule: json_members.induct)
  case (2 kv)
  then obtain m where "n = Suc m" by (cases n) auto
  with 2 show ?case by (simp add: read_member_printed)
next
  case (3 kv kv' kvs)
  then obtain m where n: "n = Suc m" by (cases n) auto
  have "read_members m (32 # json_members (kv' # kvs) @ 125 # rest) = Some (kv' # kvs, rest)"
    using 3 n by simp
  with 3 n show ?case by (simp add: read_member_printed lit_def)
qed simp

lemma json_loads_dumps:
  assumes "\<forall>kv\<in>set d. printable_member kv"
  shows "json_loads (json_dumps d) = Some d"
proof (cases "d = []")
  case True
  then show ?thesis by (simp add: json_loads_def json_dumps_def lit_def)
next
  case False
  let ?r = "json_members d @ [125]"
  obtain kv kvs where d: "d = kv # kvs" using False by (cases d) auto
  obtain x xs where x: "json_members d = 34 # xs"
    using json_string_start [of "fst kv"] unfolding d by (cases kvs) (auto simp: json_member_def)
  have "length d \<le> length (json_members d)"
    by (induction d rule: json_members.induct) (auto simp: json_member_def json_string_def lit_def)
  then have "read_members (length ?r) ?r = Some (d, [])"
    using read_members_printed [OF assms False, of "length ?r" "[]"] by simp
  then show ?thesis
    using x by (simp add: json_loads_def json_dumps_def lit_def)
qed

lemma json_dumps_ascii: "\<forall>c\<in>set (json_dumps d). c < 128"
proof -
  have hex: "c < 128" if "is_hex c" for c using that by (auto simp: is_hex_def is_digit_def)
  have u: "\<forall>x\<in>set (u_escape n). x < 128" for n
    using hex_pad_hex [of 4 n] hex by (auto simp: u_escape_def)
  then have char: "\<forall>x\<in>set (json_char c). x < 128" for c
    by (auto simp: json_char_def)
  then have str: "\<forall>x\<in>set (json_string s). x < 128" for s
    by (auto simp: json_string_def)
  then have member: "\<forall>x\<in>set (json_member kv). x < 128" for kv
    by (auto simp: json_member_def json_scalar_def lit_def split: option.splits)
  then have "\<forall>x\<in>set (json_members d). x < 128"
    by (induction d rule: json_members.induct) (auto simp: lit_def)
  then show ?thesis by (auto simp: json_dumps_def lit_def)
qed

end
