(* ===== verification/Max_Body.thy ===== *)
theory Max_Body
  imports Asgi Json
begin

text \<open>
  Request body size enforcement (\<open>api/middleware/max_body_size.py\<close>): the middleware as a
  transformer of coroutines, and its correctness for every application it may wrap.
\<close>

definition CONTENT_LENGTH_HEADER :: bytes where
  "CONTENT_LENGTH_HEADER = bytes_lit ''content-length''"

definition TOO_LARGE_STATUS :: nat where
  "TOO_LARGE_STATUS = 413"

definition TOO_LARGE_CODE :: pystr where
  "TOO_LARGE_CODE = lit ''payload_too_large''"

definition TOO_LARGE_MESSAGE :: pystr where
  "TOO_LARGE_MESSAGE = lit ''Request body exceeds the maximum accepted size''"

definition CLOSE_CONNECTION_HEADERS :: "(bytes \<times> bytes) list" where
  "CLOSE_CONNECTION_HEADERS = [(bytes_lit ''connection'', bytes_lit ''close'')]"

section \<open>The middleware\<close>

definition read_header :: "scope \<Rightarrow> bytes \<Rightarrow> pystr option" where
  "read_header sc name = header_value name (sc_headers sc)"

definition declared_body_size :: "scope \<Rightarrow> int option" where
  "declared_body_size sc = (case read_header sc CONTENT_LENGTH_HEADER of
       None \<Rightarrow> None
     | Some declared \<Rightarrow> latin1_int declared)"

definition scope_request_id :: "scope \<Rightarrow> pystr option" where
  "scope_request_id sc = (case sc_state sc of None \<Rightarrow> None | Some d \<Rightarrow> d (lit ''request_id''))"

definition rejection_body :: "scope \<Rightarrow> bytes" where
  "rejection_body sc =
     (let request_id = scope_request_id sc
      in utf8_encode (json_dumps
           [(lit ''code'', Some TOO_LARGE_CODE),
            (lit ''message'', Some TOO_LARGE_MESSAGE),
            (lit ''request_id'', request_id)]))"

definition rejection_start :: "bytes \<Rightarrow> message" where
  "rejection_start body = Response_Start TOO_LARGE_STATUS (Some
     ([(bytes_lit ''content-type'', bytes_lit ''application/json''),
       (bytes_lit ''content-length'', ascii_bytes (nat_dec (length body)))]
      @ CLOSE_CONNECTION_HEADERS))"

definition reject :: "scope \<Rightarrow> 'w coroutine" where
  "reject sc =
     (let body = rejection_body sc
      in Send (rejection_start body) (\<lambda>r. case r of
           Inl e \<Rightarrow> Done (Inl e)
         | Inr _ \<Rightarrow> Send (Response_Body body False) Done))"

text \<open>
  \<open>receive_counting_body\<close>, after \<open>receive\<close> has answered: the count of body bytes and what the
  application is given.
\<close>

fun receive_counting_body :: "int \<Rightarrow> int \<Rightarrow> exn + message \<Rightarrow> int \<times> (exn + message)" where
  "receive_counting_body max_bytes received (Inr (Http_Request b more_body)) =
     (let received' = received + int (length (request_body b))
      in if max_bytes < received' then (received', Inl BodyTooLarge)
         else (received', Inr (Http_Request b more_body)))"
| "receive_counting_body max_bytes received r = (received, r)"

text \<open>The application under the wrapped \<open>receive\<close> and \<open>send\<close>, inside the \<open>try\<close>.\<close>

primcorec limited :: "scope \<Rightarrow> int \<Rightarrow> int \<Rightarrow> bool \<Rightarrow> 'w coroutine \<Rightarrow> 'w coroutine" where
  "limited sc max_bytes received response_started c = (case c of
       Done r \<Rightarrow> (if r = Inl BodyTooLarge \<and> \<not> response_started then reject sc else Done r)
     | Receive k \<Rightarrow> Receive (\<lambda>r.
         limited sc max_bytes (fst (receive_counting_body max_bytes received r)) response_started
           (k (snd (receive_counting_body max_bytes received r))))
     | Send m k \<Rightarrow> Send m (\<lambda>r.
         limited sc max_bytes received (is_response_start m \<or> response_started) (k r))
     | Act f \<Rightarrow> Act (\<lambda>w. map_prod (limited sc max_bytes received response_started) id (f w)))"

definition max_body_size :: "int \<Rightarrow> 'w application \<Rightarrow> 'w application" where
  "max_body_size max_bytes app sc =
     (if sc_type sc \<noteq> HTTP then app sc
      else (case declared_body_size sc of
          Some declared \<Rightarrow> if declared > max_bytes then reject sc else limited sc max_bytes 0 False (app sc)
        | None \<Rightarrow> limited sc max_bytes 0 False (app sc)))"

lemma limited_simps [simp]:
  "limited sc mx n b (Done r) = (if r = Inl BodyTooLarge \<and> \<not> b then reject sc else Done r)"
  "limited sc mx n b (Receive k) = Receive (\<lambda>r. limited sc mx (fst (receive_counting_body mx n r)) b
     (k (snd (receive_counting_body mx n r))))"
  "limited sc mx n b (Send m k') = Send m (\<lambda>r. limited sc mx n (is_response_start m \<or> b) (k' r))"
  "limited sc mx n b (Act f) = Act (\<lambda>w. map_prod (limited sc mx n b) id (f w))"
  by (subst limited.code; simp)+

lemma limited_Done_iff: "limited sc mx n b c = Done r \<longleftrightarrow> c = Done r \<and> (r = Inl BodyTooLarge \<longrightarrow> b)"
  by (cases c) (auto simp: reject_def Let_def)

section \<open>What the application sees\<close>

text \<open>The exchange as the application sees it, from a count of bytes on.\<close>

fun app_view :: "int \<Rightarrow> int \<Rightarrow> event list \<Rightarrow> event list" where
  "app_view mx n [] = []"
| "app_view mx n (Received r # es) =
     Received (snd (receive_counting_body mx n r)) # app_view mx (fst (receive_counting_body mx n r)) es"
| "app_view mx n (Sent m r # es) = Sent m r # app_view mx n es"

fun count_after :: "int \<Rightarrow> int \<Rightarrow> event list \<Rightarrow> int" where
  "count_after mx n [] = n"
| "count_after mx n (Received r # es) = count_after mx (fst (receive_counting_body mx n r)) es"
| "count_after mx n (Sent m r # es) = count_after mx n es"

lemma receive_counting_count:
  "fst (receive_counting_body mx n r) = n + int (length (reply_body r))"
  by (cases "(mx, n, r)" rule: receive_counting_body.cases) (auto simp: Let_def)

lemma receive_counting_reply:
  "snd (receive_counting_body mx n r) =
    (if (\<exists>b more_body. r = Inr (Http_Request b more_body)) \<and> mx < n + int (length (reply_body r))
     then Inl BodyTooLarge else r)"
  by (cases "(mx, n, r)" rule: receive_counting_body.cases) (auto simp: Let_def)

lemma reply_body_other: "\<nexists>b more_body. r = Inr (Http_Request b more_body) \<Longrightarrow> reply_body r = []"
  by (cases r rule: reply_body.cases) auto

lemma app_view_past: "mx < n \<Longrightarrow> body_received (app_view mx n es) = []"
  by (induction mx n es rule: app_view.induct)
    (auto simp: receive_counting_count receive_counting_reply reply_body_other)

lemma app_view_bound: "n \<le> mx \<Longrightarrow> n + int (length (body_received (app_view mx n es))) \<le> mx"
proof (induction mx n es rule: app_view.induct)
  case (2 mx n r es)
  show ?case
  proof (cases "n + int (length (reply_body r)) \<le> mx")
    case True
    with 2 show ?thesis by (simp add: receive_counting_count receive_counting_reply)
  next
    case False
    then have "reply_body r \<noteq> []" using 2 by auto
    then have "reply_body (snd (receive_counting_body mx n r)) = []"
      using False reply_body_other by (auto simp: receive_counting_reply)
    with False 2 show ?thesis by (simp add: receive_counting_count app_view_past)
  qed
qed simp_all

lemma app_view_within:
  "n + int (length (body_received es)) \<le> mx \<Longrightarrow> app_view mx n es = es"
  by (induction mx n es rule: app_view.induct) (auto simp: receive_counting_count receive_counting_reply)

lemma sent_app_view [simp]: "sent_messages (app_view mx n es) = sent_messages es"
  by (induction mx n es rule: app_view.induct) auto

lemma started_app_view [simp]: "started (app_view mx n es) = started es"
  by (simp add: started_def)

section \<open>Simulation\<close>

text \<open>
  A run of the wrapped application is the run of the application on what it sees, and after
  the end of that run, when it ended in \<open>BodyTooLarge\<close> before a response was started, the
  rejection.
\<close>

lemma exec_limited:
  assumes "exec (limited sc mx n b c) w es c' w'"
  shows "(\<exists>d. exec c w (app_view mx n es) d w' \<and> c' = limited sc mx (count_after mx n es) (started es \<or> b) d)
    \<or> (\<exists>es1 es2 w1. es = es1 @ es2 \<and> ends c w (app_view mx n es1) (Inl BodyTooLarge) w1
        \<and> \<not> started es1 \<and> \<not> b \<and> exec (reject sc) w1 es2 c' w')"
  using assms
proof (induction "limited sc mx n b c" w es c' w' arbitrary: n b c rule: exec.induct)
  case (Stay w)
  then show ?case by (auto intro: exec.Stay)
next
  case (Recv k r w es c' w')
  from Recv.hyps(3) obtain k0 where c: "c = Receive k0"
    and k: "k r = limited sc mx (fst (receive_counting_body mx n r)) b (k0 (snd (receive_counting_body mx n r)))"
    by (cases c) (auto simp: reject_def Let_def split: if_splits)
  from Recv.hyps(2) [OF k] show ?case
  proof (elim disjE exE conjE)
    fix d
    assume "exec (k0 (snd (receive_counting_body mx n r))) w (app_view mx (fst (receive_counting_body mx n r)) es) d w'"
      and "c' = limited sc mx (count_after mx (fst (receive_counting_body mx n r)) es) (started es \<or> b) d"
    then show ?thesis by (auto simp: c intro: exec.Recv)
  next
    fix es1 es2 w1
    assume "es = es1 @ es2" "\<not> started es1" "\<not> b" "exec (reject sc) w1 es2 c' w'"
      and "ends (k0 (snd (receive_counting_body mx n r))) w (app_view mx (fst (receive_counting_body mx n r)) es1) (Inl BodyTooLarge) w1"
    then have "Received r # es = (Received r # es1) @ es2" "\<not> started (Received r # es1)"
      "ends c w (app_view mx n (Received r # es1)) (Inl BodyTooLarge) w1"
      by (auto simp: c intro: exec.Recv)
    with \<open>\<not> b\<close> \<open>exec (reject sc) w1 es2 c' w'\<close> show ?thesis by blast
  qed
next
  case (Snd k r w es c' w' m)
  show ?case
  proof (cases "\<exists>q. c = Done q")
    case True
    with Snd.hyps(3) have "c = Done (Inl BodyTooLarge)" "\<not> b" "reject sc = Send m k"
      by (auto split: if_splits)
    then have "Sent m r # es = [] @ Sent m r # es" "ends c w (app_view mx n []) (Inl BodyTooLarge) w"
      "exec (reject sc) w (Sent m r # es) c' w'"
      using Snd.hyps(1) by (auto intro: exec.intros)
    with \<open>\<not> b\<close> show ?thesis by (metis started_simps(1))
  next
    case False
    with Snd.hyps(3) obtain k0 where c: "c = Send m k0"
      and k: "k r = limited sc mx n (is_response_start m \<or> b) (k0 r)"
      by (cases c) auto
    from Snd.hyps(2) [OF k] show ?thesis
    proof (elim disjE exE conjE)
      fix d
      assume "exec (k0 r) w (app_view mx n es) d w'"
        and "c' = limited sc mx (count_after mx n es) (started es \<or> is_response_start m \<or> b) d"
      then show ?thesis by (auto simp: c disj_ac intro: exec.Snd)
    next
      fix es1 es2 w1
      assume "es = es1 @ es2" "\<not> started es1" "\<not> (is_response_start m \<or> b)" "exec (reject sc) w1 es2 c' w'"
        and "ends (k0 r) w (app_view mx n es1) (Inl BodyTooLarge) w1"
      then have "Sent m r # es = (Sent m r # es1) @ es2" "\<not> started (Sent m r # es1)" "\<not> b"
        "ends c w (app_view mx n (Sent m r # es1)) (Inl BodyTooLarge) w1"
        by (auto simp: c intro: exec.Snd)
      with \<open>exec (reject sc) w1 es2 c' w'\<close> show ?thesis by blast
    qed
  qed
next
  case (Work f w c1 w1 es c' w')
  from Work.hyps(4) obtain f0 where c: "c = Act f0"
    and "f = (\<lambda>w. map_prod (limited sc mx n b) id (f0 w))"
    by (cases c) (auto simp: reject_def Let_def split: if_splits)
  with Work.hyps(1) obtain c0 where f0: "f0 w = (c0, w1)" and c1: "c1 = limited sc mx n b c0"
    by (cases "f0 w") auto
  have step: "exec c w fs d v" if "exec c0 w1 fs d v" for fs d v
    unfolding c using f0 that by (rule exec.Work)
  from Work.hyps(3) [OF c1] show ?case using step by blast
qed

lemma exec_limited_converse:
  assumes "exec c w vs d w'" and "vs = app_view mx n es"
  shows "exec (limited sc mx n b c) w es (limited sc mx (count_after mx n es) (started es \<or> b) d) w'"
  using assms
proof (induction arbitrary: n b es rule: exec.induct)
  case (Stay c w)
  then have "es = []" by (cases "(mx, n, es)" rule: app_view.cases) auto
  then show ?case by (auto intro: exec.Stay)
next
  case (Recv k r w vs c' w')
  then obtain x fs where "es = Received x # fs" "r = snd (receive_counting_body mx n x)"
    "vs = app_view mx (fst (receive_counting_body mx n x)) fs"
    by (cases "(mx, n, es)" rule: app_view.cases) auto
  with Recv.IH [of _ fs b] show ?case by (auto intro: exec.Recv)
next
  case (Snd k r w vs c' w' m)
  then obtain fs where "es = Sent m r # fs" "vs = app_view mx n fs"
    by (cases "(mx, n, es)" rule: app_view.cases) auto
  with Snd.IH [of n fs "is_response_start m \<or> b"] show ?case by (auto simp: disj_ac intro: exec.Snd)
next
  case (Work f w c w1 vs c' w')
  then show ?case by (auto intro: exec.Work)
qed

lemma exec_reject_keeps_world: "exec (reject sc) w es c w' \<Longrightarrow> w' = w"
  by (auto simp: reject_def Let_def exec_Send_cases)

lemma ends_reject:
  "ends (reject sc) w es r w' \<longleftrightarrow> w' = w \<and>
    ((\<exists>e. es = [Sent (rejection_start (rejection_body sc)) (Inl e)] \<and> r = Inl e)
     \<or> (\<exists>x. es = [Sent (rejection_start (rejection_body sc)) (Inr ()), Sent (Response_Body (rejection_body sc) False) x] \<and> r = x))"
  by (cases r) (auto simp: reject_def Let_def ends_Send_cases)

lemma ends_limited:
  "ends (limited sc mx n b c) w es r w' \<longleftrightarrow>
     (ends c w (app_view mx n es) r w' \<and> (r = Inl BodyTooLarge \<longrightarrow> started es \<or> b))
     \<or> (\<exists>es1 es2. es = es1 @ es2 \<and> ends c w (app_view mx n es1) (Inl BodyTooLarge) w'
        \<and> \<not> started es1 \<and> \<not> b \<and> ends (reject sc) w' es2 r w')" (is "?l \<longleftrightarrow> ?run \<or> ?rejected")
proof
  assume ?l
  from exec_limited [OF this] show "?run \<or> ?rejected"
  proof (elim disjE exE conjE)
    fix d assume run: "exec c w (app_view mx n es) d w'"
      and d: "Done r = limited sc mx (count_after mx n es) (started es \<or> b) d"
    from d [symmetric] have dr: "d = Done r" "r = Inl BodyTooLarge \<longrightarrow> started es \<or> b"
      unfolding limited_Done_iff by (rule conjunct1, rule conjunct2)
    from run have "ends c w (app_view mx n es) r w'" unfolding dr(1) .
    with dr(2) show ?thesis by blast
  next
    fix es1 es2 w1
    assume "ends (reject sc) w1 es2 r w'"
    moreover from this have "w' = w1" by (rule exec_reject_keeps_world)
    moreover assume "es = es1 @ es2" "ends c w (app_view mx n es1) (Inl BodyTooLarge) w1" "\<not> started es1" "\<not> b"
    ultimately show ?thesis by blast
  qed
next
  assume "?run \<or> ?rejected"
  then show ?l
  proof
    assume ?run
    with exec_limited_converse [of c w "app_view mx n es" "Done r" w' mx n es sc b] show ?l
      by (auto split: if_splits)
  next
    assume ?rejected
    then obtain es1 es2 where es: "es = es1 @ es2" "\<not> started es1" "\<not> b" "ends (reject sc) w' es2 r w'"
      and "ends c w (app_view mx n es1) (Inl BodyTooLarge) w'" by blast
    with exec_limited_converse [of c w "app_view mx n es1" _ w' mx n es1 sc b]
    have "exec (limited sc mx n b c) w es1 (reject sc) w'" by fastforce
    then show ?l unfolding es(1) using es(4) by (rule exec_trans)
  qed
qed

lemma halts_reject: "halts (reject sc)"
  by (auto simp: reject_def Let_def intro!: halts.intros split: sum.split)

lemma halts_limited: "halts c \<Longrightarrow> halts (limited sc mx n b c)"
  by (induction arbitrary: n b rule: halts.induct) (auto intro: halts.intros halts_reject)

text \<open>A request, and an application that reads one message and answers with a status.\<close>

definition sample_scope :: "string \<Rightarrow> scope" where
  "sample_scope declared = \<lparr>sc_type = HTTP, sc_headers = [(bytes_lit ''Content-Length'', bytes_lit declared)],
     sc_state = Some [lit ''request_id'' \<mapsto> lit ''r-1''], sc_method = lit ''POST'', sc_path = lit ''/'', sc_client = None\<rparr>"

definition one_read_app :: "nat \<Rightarrow> 'w application" where
  "one_read_app status sc = Receive (\<lambda>r. case r of
       Inl e \<Rightarrow> Done (Inl e)
     | Inr _ \<Rightarrow> Send (Response_Start status (Some [])) (\<lambda>r. case r of
           Inl e \<Rightarrow> Done (Inl e)
         | Inr _ \<Rightarrow> Send (Response_Body [] False) Done))"

lemma sample_declared:
  "declared_body_size (sample_scope ''6'') = Some 6" "declared_body_size (sample_scope ''2'') = Some 2"
  "declared_body_size (sample_scope ''oops'') = None"
  by code_simp+

lemma sample_scope_simps [simp]:
  "sc_type (sample_scope d) = HTTP" "scope_request_id (sample_scope d) = Some (lit ''r-1'')"
  by (simp_all add: sample_scope_def scope_request_id_def)

section \<open>Properties\<close>

definition undeclared_or_within :: "int \<Rightarrow> scope \<Rightarrow> bool" where
  "undeclared_or_within mx sc \<longleftrightarrow> (case declared_body_size sc of None \<Rightarrow> True | Some d \<Rightarrow> d \<le> mx)"

lemma max_body_size_limited:
  "sc_type sc = HTTP \<Longrightarrow> undeclared_or_within mx sc \<Longrightarrow> max_body_size mx app sc = limited sc mx 0 False (app sc)"
  by (simp add: max_body_size_def undeclared_or_within_def split: option.splits)

text \<open>C10. The limit is enforced on every application, and in no other way than the documentation says.
  The application is given at most the configured number of body bytes, however the server
  splits or repeats its messages; a run of the wrapped application is either a run of the
  application on what it was given, or a run that \<open>BodyTooLarge\<close> ended before a response was
  started, followed by the rejection.\<close>

theorem limit_enforced:
  assumes "sc_type sc = HTTP" and "undeclared_or_within mx sc" and "0 \<le> mx"
  shows "(\<forall>es. int (length (body_received (app_view mx 0 es))) \<le> mx)
    \<and> (ends (max_body_size mx app sc) w es r w' \<longleftrightarrow>
        (ends (app sc) w (app_view mx 0 es) r w' \<and> (r = Inl BodyTooLarge \<longrightarrow> started es))
      \<or> (\<exists>es1 es2. es = es1 @ es2 \<and> ends (app sc) w (app_view mx 0 es1) (Inl BodyTooLarge) w'
          \<and> \<not> started es1 \<and> ends (reject sc) w' es2 r w'))"
  using app_view_bound [of 0 mx] assms(3)
  unfolding max_body_size_limited [OF assms(1,2)] ends_limited by simp

lemma limit_enforced_witness:
  "ends (max_body_size 3 (one_read_app 201) (sample_scope ''oops'')) ()
     [Received (Inr (Http_Request (Some [1, 2, 3, 4]) False)),
      Sent (rejection_start (rejection_body (sample_scope ''oops''))) (Inr ()),
      Sent (Response_Body (rejection_body (sample_scope ''oops'')) False) (Inr ())] (Inr ()) ()"
proof -
  let ?sc = "sample_scope ''oops''"
  let ?es1 = "[Received (Inr (Http_Request (Some [1, 2, 3, 4]) False))]"
  let ?es2 = "[Sent (rejection_start (rejection_body ?sc)) (Inr ()), Sent (Response_Body (rejection_body ?sc) False) (Inr ())]"
  have "sc_type ?sc = HTTP" and "undeclared_or_within 3 ?sc" and "0 \<le> (3::int)"
    by (simp_all add: undeclared_or_within_def sample_declared)
  from limit_enforced [OF this, of "one_read_app 201" "()" "?es1 @ ?es2" "Inr ()" "()"] show ?thesis
    by (force simp: ends_reject one_read_app_def ends_Receive request_body_def intro!: exI [of _ ?es1])
qed

text \<open>C33. A request within the limit is served as if the middleware were not there: the exchanges that
  carry at most the configured number of body bytes, and their outcomes, are the application's.\<close>

theorem within_limit_transparent:
  assumes "sc_type sc = HTTP" and "undeclared_or_within mx sc"
    and "int (length (body_received es)) \<le> mx" and "r \<noteq> Inl BodyTooLarge"
    and "\<forall>es1 w1. (\<exists>es2. es = es1 @ es2) \<longrightarrow> \<not> ends (app sc) w es1 (Inl BodyTooLarge) w1"
  shows "ends (max_body_size mx app sc) w es r w' \<longleftrightarrow> ends (app sc) w es r w'"
proof -
  have "app_view mx 0 es1 = es1" if "es = es1 @ es2" for es1 es2
    using assms(3) that by (intro app_view_within) auto
  then show ?thesis
    using assms(4,5) unfolding max_body_size_limited [OF assms(1,2)] ends_limited
    by (metis append_Nil2)
qed

definition rejection_document :: "scope \<Rightarrow> (pystr \<times> pystr option) list" where
  "rejection_document sc = [(lit ''code'', Some (lit ''payload_too_large'')),
     (lit ''message'', Some (lit ''Request body exceeds the maximum accepted size'')),
     (lit ''request_id'', scope_request_id sc)]"

lemma rejection_body_text: "latin1_decode (rejection_body sc) = json_dumps (rejection_document sc)"
  unfolding rejection_body_def rejection_document_def Let_def TOO_LARGE_CODE_def TOO_LARGE_MESSAGE_def
  by (simp only: utf8_encode_ascii [OF json_dumps_ascii] latin1_ascii_bytes [OF json_dumps_ascii])

lemma unicode_scalar_lit [simp]: "\<forall>c\<in>set (lit cs). unicode_scalar c"
proof -
  have "unicode_scalar (of_char c)" for c
    using nat_of_char_less_256 [of c] unfolding unicode_scalar_def by linarith
  then show ?thesis by (simp add: lit_def)
qed

lemma rejection_body_reads:
  assumes "\<forall>t. scope_request_id sc = Some t \<longrightarrow> (\<forall>c\<in>set t. unicode_scalar c)"
  shows "json_loads (latin1_decode (rejection_body sc)) = Some (rejection_document sc)"
  unfolding rejection_body_text
  by (rule json_loads_dumps) (use assms unicode_scalar_lit in \<open>simp add: rejection_document_def printable_member_def\<close>)

lemma header_value_find:
  "header_value name ((k, v) # hs) = (if bytes_lower k = name then Some (latin1_decode v) else header_value name hs)"
  by (simp add: header_value_def)

lemma rejection_start_headers:
  "\<exists>hs. rejection_start body = Response_Start 413 (Some hs)
    \<and> header_value CONTENT_LENGTH_HEADER hs = Some (nat_dec (length body))
    \<and> header_value (bytes_lit ''connection'') hs = Some (lit ''close'')"
proof -
  have "\<forall>c\<in>set (nat_dec (length body)). c < 128"
    using nat_dec_digits [of "length body"] by (auto simp: is_digit_def)
  from latin1_ascii_bytes [OF this] show ?thesis
    by (simp add: rejection_start_def TOO_LARGE_STATUS_def CLOSE_CONNECTION_HEADERS_def header_value_find
        CONTENT_LENGTH_HEADER_def bytes_lit_def bytes_lower_def lit_def latin1_decode_def)
qed

lemma within_limit_transparent_witness:
  "ends (max_body_size 3 (one_read_app 201) (sample_scope ''2'')) ()
     [Received (Inr (Http_Request (Some [1, 2]) False)),
      Sent (Response_Start 201 (Some [])) (Inr ()), Sent (Response_Body [] False) (Inr ())] (Inr ()) ()"
proof -
  let ?sc = "sample_scope ''2''"
  let ?es = "[Received (Inr (Http_Request (Some [1, 2]) False)),
      Sent (Response_Start 201 (Some [])) (Inr ()), Sent (Response_Body [] False) (Inr ())]"
  have "sc_type ?sc = HTTP" and "undeclared_or_within 3 ?sc"
    and "int (length (body_received ?es)) \<le> 3" and "Inr () \<noteq> Inl BodyTooLarge"
    by (simp_all add: undeclared_or_within_def sample_declared request_body_def)
  moreover have "\<forall>es1 w1. (\<exists>es2. ?es = es1 @ es2) \<longrightarrow> \<not> ends (one_read_app 201 ?sc) () es1 (Inl BodyTooLarge) w1"
    by (auto simp: one_read_app_def ends_Receive ends_Send Cons_eq_append_conv)
  ultimately show ?thesis
    using within_limit_transparent [of ?sc 3 ?es "Inr ()" "one_read_app 201" "()" "()"]
    by (simp add: one_read_app_def ends_Receive ends_Send)
qed

text \<open>A declared size over the limit is refused at once: the application does not run, the world is
  untouched, no message is received, and the client is answered \<open>413\<close> with a JSON document that
  reads back as the code, the message and the correlation ID, under a content length that is its
  length and a header that closes the connection.\<close>

theorem declared_oversize_refused:
  assumes "sc_type sc = HTTP" and "declared_body_size sc = Some d" and "mx < d"
    and "\<forall>t. scope_request_id sc = Some t \<longrightarrow> (\<forall>c\<in>set t. unicode_scalar c)"
  shows "\<exists>hs body. (\<forall>w es w'. ends (max_body_size mx app sc) w es (Inr ()) w' \<longleftrightarrow>
        w' = w \<and> es = [Sent (Response_Start 413 (Some hs)) (Inr ()), Sent (Response_Body body False) (Inr ())])
    \<and> json_loads (latin1_decode body) = Some (rejection_document sc)
    \<and> header_value CONTENT_LENGTH_HEADER hs = Some (nat_dec (length body))
    \<and> header_value (bytes_lit ''connection'') hs = Some (lit ''close'')"
proof -
  have reject: "max_body_size mx app sc = reject sc"
    using assms(1-3) by (simp add: max_body_size_def)
  obtain hs where hs: "rejection_start (rejection_body sc) = Response_Start 413 (Some hs)"
    "header_value CONTENT_LENGTH_HEADER hs = Some (nat_dec (length (rejection_body sc)))"
    "header_value (bytes_lit ''connection'') hs = Some (lit ''close'')"
    using rejection_start_headers by blast
  show ?thesis
    using hs(2,3) rejection_body_reads [OF assms(4)] unfolding reject ends_reject hs(1) by blast
qed

lemma declared_oversize_refused_witness:
  "\<exists>hs body. ends (max_body_size 3 (one_read_app 201) (sample_scope ''6'')) ()
      [Sent (Response_Start 413 (Some hs)) (Inr ()), Sent (Response_Body body False) (Inr ())] (Inr ()) ()
    \<and> json_loads (latin1_decode body) = Some (rejection_document (sample_scope ''6''))"
proof -
  have "sc_type (sample_scope ''6'') = HTTP" and "declared_body_size (sample_scope ''6'') = Some 6" and "3 < (6::int)"
    and "\<forall>t. scope_request_id (sample_scope ''6'') = Some t \<longrightarrow> (\<forall>c\<in>set t. unicode_scalar c)"
    by (simp_all add: sample_declared)
  from declared_oversize_refused [OF this, of "one_read_app 201 :: unit application"] obtain hs body where
    run: "\<And>w es w'. ends (max_body_size 3 (one_read_app 201 :: unit application) (sample_scope ''6'')) w es (Inr ()) w' \<longleftrightarrow>
        w' = w \<and> es = [Sent (Response_Start 413 (Some hs)) (Inr ()), Sent (Response_Body body False) (Inr ())]"
    and doc: "json_loads (latin1_decode body) = Some (rejection_document (sample_scope ''6''))" by metis
  have "ends (max_body_size 3 (one_read_app 201) (sample_scope ''6'')) ()
      [Sent (Response_Start 413 (Some hs)) (Inr ()), Sent (Response_Body body False) (Inr ())] (Inr ()) ()"
    unfolding run by simp
  with doc show ?thesis by (intro exI conjI)
qed

end
