(* ===== verification/Asgi_Stack.thy ===== *)
theory Asgi_Stack
  imports Request_Log Max_Body Settings
begin

text \<open>
  The application as it is served (\<open>main.py\<close>): the request log around the body limit around
  the routed application, which is an argument, and what holds of the whole stack.
\<close>

definition asgi_app :: "settings \<Rightarrow> uuid \<Rightarrow> 'p world application \<Rightarrow> 'p world application" where
  "asgi_app get_settings fresh app = request_logging fresh (max_body_size (max_upload_bytes get_settings) app)"

section \<open>The query string of a span\<close>

text \<open>A tracing span: whether it is the SDK's, whether it records, and its attributes.\<close>

datatype attribute = Str_Attr pystr | Other_Attr nat

record span =
  sp_is_sdk :: bool
  sp_recording :: bool
  sp_attributes :: "(pystr \<rightharpoonup> attribute) option"

definition strip_query_string :: "span \<Rightarrow> span" where
  "strip_query_string span =
     (if \<not> sp_is_sdk span \<or> \<not> sp_recording span then span
      else (case (case sp_attributes span of None \<Rightarrow> Map.empty | Some d \<Rightarrow> d) (lit ''http.url'') of
          Some (Str_Attr url) \<Rightarrow> span\<lparr>sp_attributes := Some ((case sp_attributes span of None \<Rightarrow> Map.empty | Some d \<Rightarrow> d)
              (lit ''http.url'' \<mapsto> Str_Attr (hd (split_on 63 url))))\<rparr>
        | _ \<Rightarrow> span))"

section \<open>The protocol of a response\<close>

text \<open>One start, then body messages of which the last says so.\<close>

datatype phase = Awaiting_Start | Awaiting_Body | Complete

fun phase_step :: "phase \<Rightarrow> message \<Rightarrow> phase option" where
  "phase_step Awaiting_Start (Response_Start st hs) = Some Awaiting_Body"
| "phase_step Awaiting_Body (Response_Body b more_body) = Some (if more_body then Awaiting_Body else Complete)"
| "phase_step _ _ = None"

fun phase_after :: "phase \<Rightarrow> message list \<Rightarrow> phase option" where
  "phase_after p [] = Some p"
| "phase_after p (m # ms) = (case phase_step p m of None \<Rightarrow> None | Some q \<Rightarrow> phase_after q ms)"

definition follows_protocol :: "'w application \<Rightarrow> bool" where
  "follows_protocol app \<longleftrightarrow> (\<forall>sc w es c w'. sc_type sc = HTTP \<longrightarrow> exec (app sc) w es c w' \<longrightarrow>
     phase_after Awaiting_Start (sent_messages es) \<noteq> None)"

lemma phase_step_stamped [simp]: "phase_step p (snd (send_with_request_id i None m)) = phase_step p m"
  by (cases m; cases p) auto

lemma phase_after_stamped: "phase_after p (sent_messages (stamped i es)) = phase_after p (sent_messages es)"
proof -
  have "phase_after p (map (\<lambda>m. snd (send_with_request_id i None m)) ms) = phase_after p ms" for ms
    by (induction ms arbitrary: p) (auto split: option.split)
  then show ?thesis by (simp add: sent_stamped)
qed

lemma phase_after_unstarted:
  "phase_after Awaiting_Start ms \<noteq> None \<Longrightarrow> \<not> (\<exists>m\<in>set ms. is_response_start m) \<Longrightarrow> ms = []"
  by (cases ms) (auto elim: phase_step.elims split: option.splits)

lemma follows_protocolD:
  "follows_protocol app \<Longrightarrow> sc_type sc = HTTP \<Longrightarrow> exec (app sc) w es c w' \<Longrightarrow>
    phase_after Awaiting_Start (sent_messages es) \<noteq> None"
  by (simp only: follows_protocol_def) blast

lemma follows_protocol_logged:
  assumes "follows_protocol app"
  shows "follows_protocol (request_logging fresh app)"
  unfolding follows_protocol_def
proof (intro allI impI)
  fix sc w es c w'
  assume http: "sc_type sc = HTTP" and "exec (request_logging fresh app sc) w es c w'"
  then have "es = [] \<or> (\<exists>t w1. exec (logged (correlated fresh sc) (resolve_request_id fresh sc) t None (app (correlated fresh sc))) w1 es c w')"
    by (auto simp: request_logging_def Let_def exec_Act)
  then show "phase_after Awaiting_Start (sent_messages es) \<noteq> None"
  proof (elim disjE exE)
    fix t w1
    assume "exec (logged (correlated fresh sc) (resolve_request_id fresh sc) t None (app (correlated fresh sc))) w1 es c w'"
    then obtain fs d w2 where "es = stamped (resolve_request_id fresh sc) fs" "exec (app (correlated fresh sc)) w1 fs d w2"
      using exec_logged by blast
    moreover from this(2) have "phase_after Awaiting_Start (sent_messages fs) \<noteq> None"
      by (rule follows_protocolD [OF assms, rotated]) (simp add: http)
    ultimately show ?thesis by (simp add: phase_after_stamped)
  qed simp
qed

lemma exec_reject_protocol:
  "exec (reject sc) w es c w' \<Longrightarrow> phase_after Awaiting_Start (sent_messages es) \<noteq> None"
  by (auto simp: reject_def Let_def exec_Send_cases rejection_start_def)

lemma follows_protocol_limited:
  assumes "follows_protocol app"
  shows "follows_protocol (max_body_size mx app)"
  unfolding follows_protocol_def
proof (intro allI impI)
  fix sc w es c w'
  assume http: "sc_type sc = HTTP" and run: "exec (max_body_size mx app sc) w es c w'"
  show "phase_after Awaiting_Start (sent_messages es) \<noteq> None"
  proof (cases "undeclared_or_within mx sc")
    case False
    with http run have "exec (reject sc) w es c w'"
      by (auto simp: max_body_size_def undeclared_or_within_def split: option.splits)
    then show ?thesis by (rule exec_reject_protocol)
  next
    case True
    with http run have "exec (limited sc mx 0 False (app sc)) w es c w'" by (simp add: max_body_size_limited)
    from exec_limited [OF this] show ?thesis
    proof (elim disjE exE conjE)
      fix d assume "exec (app sc) w (app_view mx 0 es) d w'"
      from follows_protocolD [OF assms http this] show ?thesis by simp
    next
      fix es1 es2 w1
      assume es: "es = es1 @ es2" and "ends (app sc) w (app_view mx 0 es1) (Inl BodyTooLarge) w1"
        and "\<not> started es1" and es2: "exec (reject sc) w1 es2 c w'"
      from follows_protocolD [OF assms http this(2)] this(3) have "sent_messages es1 = []"
        by (auto simp: started_def intro: phase_after_unstarted)
      with exec_reject_protocol [OF es2] show ?thesis by (simp add: es)
    qed
  qed
qed

lemma halts_asgi_app:
  assumes "\<And>sc. halts (app sc)"
  shows "halts (asgi_app st fresh app sc)"
proof -
  have "halts (max_body_size mx app sc)" for mx sc
    using assms by (simp add: max_body_size_def halts_limited halts_reject split: option.split)
  then show ?thesis
    by (auto simp: asgi_app_def request_logging_def Let_def intro!: halts.intros halts_logged)
qed

section \<open>Applications that parse the body first\<close>

text \<open>
  The framework reads the whole body of a request before it calls an endpoint that takes a
  form or a document, and lets what is no \<open>Exception\<close> pass: until the last chunk has arrived
  the coroutine only receives, and \<open>BodyTooLarge\<close> ends it.
\<close>

coinductive buffering :: "'w coroutine \<Rightarrow> bool" where
  "k (Inl BodyTooLarge) = Done (Inl BodyTooLarge) \<Longrightarrow> (\<And>b. buffering (k (Inr (Http_Request (Some b) True))))
   \<Longrightarrow> buffering (Receive k)"

inductive_cases bufferingE: "buffering c"

definition chunk_event :: "bool \<Rightarrow> bytes \<Rightarrow> event" where
  "chunk_event more_body b = Received (Inr (Http_Request (Some b) more_body))"

lemma buffering_oversize:
  assumes "buffering c" and "n + int (length (concat bs)) \<le> mx" and "mx < n + int (length (concat bs) + length b)"
  shows "ends c w (app_view mx n (map (chunk_event True) bs @ [chunk_event more_body b])) (Inl BodyTooLarge) w"
  using assms
proof (induction bs arbitrary: c n)
  case Nil
  from Nil(1) obtain k where "c = Receive k" "k (Inl BodyTooLarge) = Done (Inl BodyTooLarge)"
    by (rule bufferingE)
  with Nil(3) show ?case by (simp add: chunk_event_def request_body_def ends_Receive)
next
  case (Cons x bs)
  from Cons.prems(1) obtain k where c: "c = Receive k" and "buffering (k (Inr (Http_Request (Some x) True)))"
    by (rule bufferingE) blast
  from Cons.IH [OF this(2), of "n + int (length x)"] Cons.prems(2,3) show ?case
    by (simp add: c chunk_event_def request_body_def ends_Receive algebra_simps)
qed

text \<open>An application of this kind: it collects the body, and continues with it.\<close>

fun body_part :: "exn + message \<Rightarrow> exn + bytes \<times> bool" where
  "body_part (Inl e) = Inl e"
| "body_part (Inr (Http_Request b more_body)) = Inr (request_body b, more_body)"
| "body_part (Inr _) = Inl (Other_Exception 1)"

primcorec collect :: "bytes \<Rightarrow> (bytes \<Rightarrow> 'w coroutine) \<Rightarrow> 'w coroutine" where
  "collect acc k = Receive (\<lambda>r. case body_part r of
       Inl e \<Rightarrow> Done (Inl e)
     | Inr x \<Rightarrow> if snd x then collect (acc @ fst x) k else k (acc @ fst x))"

lemma buffering_collect: "buffering (collect acc k)"
proof (coinduction arbitrary: acc)
  case buffering
  show ?case by (subst collect.code) auto
qed

text \<open>It answers \<open>201\<close> when it has the body.\<close>

definition collecting_app :: "'w application" where
  "collecting_app sc = collect [] (\<lambda>body. Send (Response_Start 201 None) (\<lambda>_. Send (Response_Body [] False) Done))"

definition small_settings :: settings where
  "small_settings = \<lparr>database_url = [], log_level = lit ''INFO'', otel_exporter_otlp_endpoint = [],
     otel_console_export_enabled = True, storage_backend = lit ''filesystem'', set_storage_root = lit ''/srv'',
     max_upload_bytes = 3\<rparr>"

section \<open>Properties\<close>

text \<open>C35. The stack speaks ASGI when the application does: if at every moment of every run the messages an
  application has sent are a beginning of one response, so are those that leave the stack, the
  rejection of an oversized request included. No response is started twice.\<close>

theorem stack_follows_protocol:
  assumes "follows_protocol app" and "sc_type sc = HTTP" and "exec (asgi_app st fresh app sc) w es c w'"
  shows "phase_after Awaiting_Start (sent_messages es) \<noteq> None"
  using follows_protocolD [OF follows_protocol_logged [OF follows_protocol_limited [OF assms(1)]] assms(2)] assms(3)
  unfolding asgi_app_def .

lemma stack_follows_protocol_witness:
  "phase_after Awaiting_Start (sent_messages (stamped (lit ''job-7'') [Sent (Response_Start 200 None) (Inr ())])) \<noteq> None"
proof -
  let ?sc = "tagged_scope ''job-7''" and ?i = "lit ''job-7''"
  have typed: "follows_protocol (failing_app :: unit world application)"
    by (auto simp: follows_protocol_def failing_app_def exec_Send)
  have http: "sc_type ?sc = HTTP" by (simp add: tagged_scope_def)
  have "declared_body_size (with_request_id ?sc ?i) = None"
    by (simp add: declared_body_size_def read_header_def header_value_def tagged_scope_def
        CONTENT_LENGTH_HEADER_def bytes_lit_def bytes_lower_def)
  then have inner: "max_body_size 3 failing_app (with_request_id ?sc ?i) =
      limited (with_request_id ?sc ?i) 3 0 False (failing_app (with_request_id ?sc ?i))"
    by (simp add: max_body_size_def http)
  have "\<exists>c w'. exec (asgi_app small_settings 0 failing_app ?sc) quiet_world
      (stamped ?i [Sent (Response_Start 200 None) (Inr ())]) c w'"
    unfolding asgi_app_def request_logging_def Let_def tagged_scope_ids(1)
    by (simp add: http small_settings_def inner failing_app_def exec_Act exec_Send) (metis exec.Stay)
  with stack_follows_protocol [OF typed http] show ?thesis by blast
qed

text \<open>C34. The middleware adds no way to hang: if every run of the application ends whatever the server
  answers, and for whatever correlation identifier it is called with, so does every run of the stack.\<close>

theorem stack_halts:
  assumes "\<And>sc. halts (app sc)"
  shows "halts (asgi_app st fresh app sc)"
  using assms by (rule halts_asgi_app)

lemma stack_halts_witness: "halts (asgi_app small_settings 0 (failing_app :: unit world application) (tagged_scope ''job-7''))"
  by (rule stack_halts) (simp add: failing_app_def halts.intros)

lemma scope_request_id_correlated [simp]: "scope_request_id (with_request_id sc i) = Some i"
  by (simp add: scope_request_id_def with_request_id_def)

lemma undeclared_correlated [simp]: "undeclared_or_within mx (with_request_id sc i) = undeclared_or_within mx sc"
  by (simp add: undeclared_or_within_def declared_body_size_def read_header_def)

lemma stamped_append: "stamped i (es @ fs) = stamped i es @ stamped i fs"
  by (induction i es rule: stamped.induct) auto

lemma stamped_chunks [simp]: "stamped i (map (chunk_event b) bs) = map (chunk_event b) bs"
  by (induction bs) (auto simp: chunk_event_def)

lemma status_after_append: "status_after st (es @ fs) = status_after (status_after st es) fs"
  by (induction st es rule: status_after.induct) auto

lemma status_after_chunks [simp]: "status_after st (map (chunk_event b) bs) = st"
  by (induction bs) (auto simp: chunk_event_def)

lemma started_append: "started (es @ fs) \<longleftrightarrow> started es \<or> started fs"
  by (auto simp: started_def)

lemma started_chunks [simp]: "\<not> started (map (chunk_event b) bs)"
  by (induction bs) (auto simp: chunk_event_def)

text \<open>The start of the rejection, as it leaves the stack.\<close>

definition refusal_start :: "scope \<Rightarrow> pystr \<Rightarrow> message" where
  "refusal_start sc i = snd (send_with_request_id i None (rejection_start (rejection_body (with_request_id sc i))))"

text \<open>C9. An oversized upload is answered and leaves no trace but its log record. Whatever way the body is
  split and whether or not its size was declared truthfully, once the chunks exceed the limit an
  application that parses the body first never acts: the client gets the \<open>413\<close> that carries its
  correlation ID, the call returns, and the world is as before but for one summary record with
  status \<open>413\<close>. This is the only outcome of the exchange.\<close>

theorem oversize_upload_refused:
  assumes "sc_type sc = HTTP" and "undeclared_or_within (max_upload_bytes st) sc"
    and "buffering (app (correlated fresh sc))"
    and "int (length (concat bs)) \<le> max_upload_bytes st" and "max_upload_bytes st < int (length (concat bs) + length b)"
    and "i = resolve_request_id fresh sc" and "body = rejection_body (correlated fresh sc)"
  shows "ends (asgi_app st fresh app sc) w
      (map (chunk_event True) bs @ [chunk_event more_body b, Sent (refusal_start sc i) (Inr ()), Sent (Response_Body body False) (Inr ())]) r w'
    \<longleftrightarrow> r = Inr () \<and> w' = w\<lparr>journal := journal w @
        [log_event_of INFO (lit ''http_request'') (summary_fields (correlated fresh sc) (Some 413))]\<rparr>"
    (is "ends ?c w ?es r w' \<longleftrightarrow> r = Inr () \<and> w' = ?w'")
proof -
  let ?up = "map (chunk_event True) bs @ [chunk_event more_body b]"
  let ?fin = "[Sent (rejection_start body) (Inr ()), Sent (Response_Body body False) (Inr ())]"
  let ?wb = "with_bound_id w (Some i)"
  have app: "ends (app (correlated fresh sc)) ?wb (app_view (max_upload_bytes st) 0 ?up) (Inl BodyTooLarge) ?wb"
    using assms(3-5) by (intro buffering_oversize) auto
  have fin: "ends (reject (correlated fresh sc)) ?wb ?fin (Inr ()) ?wb"
    by (simp add: ends_reject assms(7))
  have quiet: "\<not> started ?up" by (simp add: started_append) (simp add: chunk_event_def)
  have lim: "max_body_size (max_upload_bytes st) app (correlated fresh sc) =
      limited (correlated fresh sc) (max_upload_bytes st) 0 False (app (correlated fresh sc))"
    using assms(1,2) by (intro max_body_size_limited) simp_all
  have inner: "ends (max_body_size (max_upload_bytes st) app (correlated fresh sc)) ?wb (?up @ ?fin) (Inr ()) ?wb"
    unfolding lim ends_limited
    by (intro disjI2 exI [of _ ?up] exI [of _ ?fin] conjI app fin quiet refl) simp
  have es: "?es = stamped i (?up @ ?fin)"
    by (simp add: stamped_append) (simp add: chunk_event_def refusal_start_def assms(6,7))
  have status: "status_after None (?up @ ?fin) = Some 413"
    by (simp add: status_after_append) (simp add: chunk_event_def rejection_start_def TOO_LARGE_STATUS_def)
  have w': "?w' = with_bound_id (?wb\<lparr>journal := journal ?wb @
      request_records (correlated fresh sc) (status_after None (?up @ ?fin)) (Inr ())\<rparr>) (bound_context w (lit ''request_id''))"
    unfolding status by (simp add: request_records_def)
  have run: "ends ?c w ?es (Inr ()) ?w'"
    unfolding asgi_app_def every_request_logged [OF assms(1)]
    by (intro exI [of _ "?up @ ?fin"] exI [of _ ?wb] conjI)
      (use inner es w' in \<open>simp_all only: assms(6)\<close>)
  show ?thesis using ends_deterministic [OF run] run by blast
qed

lemma oversize_upload_refused_witness:
  "ends (asgi_app small_settings 0 collecting_app (sample_scope ''oops'')) quiet_world
      [chunk_event True [1, 2], chunk_event True [3, 4],
       Sent (refusal_start (sample_scope ''oops'') (uuid_str 0)) (Inr ()),
       Sent (Response_Body (rejection_body (with_request_id (sample_scope ''oops'') (uuid_str 0))) False) (Inr ())]
      (Inr ())
      (quiet_world\<lparr>journal := [log_event_of INFO (lit ''http_request'')
         (summary_fields (with_request_id (sample_scope ''oops'') (uuid_str 0)) (Some 413))]\<rparr>)"
proof -
  let ?sc = "sample_scope ''oops''"
  have i: "uuid_str 0 = resolve_request_id 0 ?sc"
    by (simp add: resolve_request_id_def read_request_header_def header_value_def sample_scope_def
        REQUEST_ID_HEADER_def bytes_lit_def bytes_lower_def)
  have "sc_type ?sc = HTTP" and "undeclared_or_within (max_upload_bytes small_settings) ?sc"
    and "buffering (collecting_app (correlated 0 ?sc) :: unit world coroutine)"
    and "int (length (concat [[1, 2 :: byte]])) \<le> max_upload_bytes small_settings"
    and "max_upload_bytes small_settings < int (length (concat [[1, 2 :: byte]]) + length [3, 4 :: byte])"
    by (simp_all add: undeclared_or_within_def sample_declared collecting_app_def buffering_collect small_settings_def)
  from oversize_upload_refused [where app = collecting_app and fresh = 0, OF this i refl, of quiet_world True "Inr ()"]
  show ?thesis by (simp add: i [symmetric] quiet_world_def)
qed

end
