(* ===== verification/Assembly.thy ===== *)
theory Assembly
  imports Api Asgi_Stack
begin

text \<open>
  The module \<open>main.py\<close>: what importing it registers with the framework, in its order, and the
  application it ends up serving. The framework turns what was registered into an ASGI application
  (\<open>serve\<close>).
\<close>

record 'p fastapi =
  fa_title :: pystr
  fa_span_hook :: "(span \<Rightarrow> span) option"
  fa_excluded_spans :: "pystr list"
  fa_handlers :: "(exn_class \<times> 'p handler) list"
  fa_routes :: "route list"

definition new_app :: "'p fastapi" where
  "new_app = \<lparr>fa_title = lit ''Wooloo'', fa_span_hook = None, fa_excluded_spans = [], fa_handlers = [], fa_routes = []\<rparr>"

definition instrument_app :: "'p fastapi \<Rightarrow> 'p fastapi" where
  "instrument_app app = app\<lparr>fa_span_hook := Some strip_query_string, fa_excluded_spans := [lit ''send'', lit ''receive'']\<rparr>"

text \<open>\<open>add_exception_handler\<close> keeps one handler for a class, the last one registered.\<close>

definition add_exception_handler :: "exn_class \<times> 'p handler \<Rightarrow> 'p fastapi \<Rightarrow> 'p fastapi" where
  "add_exception_handler h app = app\<lparr>fa_handlers := filter (\<lambda>(c, _). c \<noteq> fst h) (fa_handlers app) @ [h]\<rparr>"

definition include_routes :: "route list \<Rightarrow> 'p fastapi \<Rightarrow> 'p fastapi" where
  "include_routes rs app = app\<lparr>fa_routes := fa_routes app @ rs\<rparr>"

definition app_module :: "'p fastapi" where
  "app_module = include_routes API_ROUTES (fold add_exception_handler EXCEPTION_HANDLERS (instrument_app new_app))"

text \<open>The last statement of the module reads the settings, so importing it raises what loading them raises.\<close>

definition main_module ::
  "('p fastapi \<Rightarrow> 'p world application) \<Rightarrow> uuid \<Rightarrow> exn + settings \<Rightarrow> (settings option, exn, 'p world application) action" where
  "main_module serve fresh load =
     and_then (process_settings load) (\<lambda>settings. returning (asgi_app settings fresh (serve app_module)))"

lemma app_module_contents:
  "fa_handlers app_module = EXCEPTION_HANDLERS" "fa_routes app_module = API_ROUTES"
  "fa_span_hook app_module = Some strip_query_string"
  by (simp_all add: app_module_def include_routes_def instrument_app_def new_app_def add_exception_handler_def EXCEPTION_HANDLERS_def)

text \<open>
  Importing the module either yields the middleware stack around the application that has every
  handler and every route, with the limit of the settings, and keeps the settings for the process, or
  raises what loading the settings raised and keeps nothing.
\<close>

lemma main_module_import:
  "main_module serve fresh load None = (case load of
      Inl e \<Rightarrow> (Inl e, None)
    | Inr st \<Rightarrow> (Inr (request_logging fresh (max_body_size (max_upload_bytes st) (serve app_module))), Some st))"
  by (simp add: main_module_def process_settings_def and_then_def asgi_app_def split: sum.split)

text \<open>A path and method belong to one endpoint, and a class of exceptions to one handler.\<close>

lemma app_module_unambiguous:
  "distinct (map (\<lambda>r. (rt_method r, rt_path r)) (fa_routes app_module)) \<and> distinct (map fst (fa_handlers app_module))"
  using routes_distinct unfolding app_module_contents by (simp add: EXCEPTION_HANDLERS_def)

end
