(* ===== verification/Engine.thy ===== *)
theory Engine
  imports Settings Events
begin

text \<open>
  The database engine's providers (\<open>infrastructure/database/engine.py\<close>): the engine and the
  session factory, each created on first use and cached for the process, the session of a
  request, and the disposal of the engine. Disposal waits for the pool to close, so other
  tasks run in between: the providers are also a step relation, over whose reachable states the
  invariant is proved.
\<close>

definition POOL_SIZE :: nat where
  "POOL_SIZE = 5"

definition MAX_OVERFLOW :: nat where
  "MAX_OVERFLOW = 10"

definition POOL_RECYCLE_SECONDS :: nat where
  "POOL_RECYCLE_SECONDS = 1800"

text \<open>Timeouts, in milliseconds.\<close>

definition POOL_TIMEOUT :: nat where
  "POOL_TIMEOUT = 5000"

definition CONNECT_TIMEOUT :: nat where
  "CONNECT_TIMEOUT = 3000"

definition COMMAND_TIMEOUT :: nat where
  "COMMAND_TIMEOUT = 3000"

record engine_config =
  en_url :: pystr
  en_hide_parameters :: bool
  en_pool_size :: nat
  en_max_overflow :: nat
  en_pre_ping :: bool
  en_recycle :: nat
  en_pool_timeout :: nat
  en_connect_timeout :: nat
  en_command_timeout :: nat

section \<open>State\<close>

text \<open>
  Engines are numbered as they are created. \<open>live\<close> are the engines whose pool is open, and
  \<open>disposing\<close> is the engine a disposal is waiting for.
\<close>

record engines =
  engine_cache :: "nat option"
  factory_cache :: "nat option"
  created :: "engine_config list"
  live :: "nat list"
  disposing :: "nat option"
  open_sessions :: nat

text \<open>
  The process's settings, or what loading them raises, and what \<open>create_async_engine\<close> raises on
  a URL it cannot parse, if it does; and what disposing an engine raises.
\<close>

record environment =
  env_settings :: "exn + settings"
  env_bad_url :: "pystr \<Rightarrow> exn option"
  env_dispose_error :: "nat \<Rightarrow> exn option"

section \<open>Operations\<close>

definition create_async_engine :: "environment \<Rightarrow> engine_config \<Rightarrow> (engines, exn, nat) action" where
  "create_async_engine env config s = (case env_bad_url env (en_url config) of
       Some e \<Rightarrow> (Inl e, s)
     | None \<Rightarrow> (Inr (length (created s)), s\<lparr>created := created s @ [config], live := live s @ [length (created s)]\<rparr>))"

definition get_engine :: "environment \<Rightarrow> (engines, exn, nat) action" where
  "get_engine env s = (case engine_cache s of
       Some e \<Rightarrow> (Inr e, s)
     | None \<Rightarrow> (case env_settings env of
           Inl e \<Rightarrow> (Inl e, s)
         | Inr settings \<Rightarrow> (case create_async_engine env
               \<lparr>en_url = database_url settings, en_hide_parameters = True, en_pool_size = POOL_SIZE,
                en_max_overflow = MAX_OVERFLOW, en_pre_ping = True, en_recycle = POOL_RECYCLE_SECONDS,
                en_pool_timeout = POOL_TIMEOUT, en_connect_timeout = CONNECT_TIMEOUT,
                en_command_timeout = COMMAND_TIMEOUT\<rparr> s of
               (Inl e, s') \<Rightarrow> (Inl e, s')
             | (Inr e, s') \<Rightarrow> (Inr e, s'\<lparr>engine_cache := Some e\<rparr>))))"

text \<open>The factory is the engine it is bound to.\<close>

definition get_session_factory :: "environment \<Rightarrow> (engines, exn, nat) action" where
  "get_session_factory env s = (case factory_cache s of
       Some e \<Rightarrow> (Inr e, s)
     | None \<Rightarrow> (case get_engine env s of
           (Inl e, s') \<Rightarrow> (Inl e, s')
         | (Inr e, s') \<Rightarrow> (Inr e, s'\<lparr>factory_cache := Some e\<rparr>)))"

definition open_session :: "nat \<Rightarrow> (engines, exn, nat) action" where
  "open_session e s = (Inr e, s\<lparr>open_sessions := Suc (open_sessions s)\<rparr>)"

definition close_session :: "(engines, exn, unit) action" where
  "close_session s = (Inr (), s\<lparr>open_sessions := open_sessions s - 1\<rparr>)"

text \<open>The session of a request: \<open>use\<close> is what happens while it is yielded.\<close>

definition get_db_session :: "environment \<Rightarrow> (nat \<Rightarrow> (engines, exn, 'a) action) \<Rightarrow> (engines, exn, 'a) action" where
  "get_db_session env use =
     and_then (get_session_factory env) (\<lambda>factory.
     and_then (open_session factory) (\<lambda>session.
     finally_do (use session) close_session))"

text \<open>Disposal up to its wait, and from it on.\<close>

definition dispose_begin :: "engines \<Rightarrow> engines" where
  "dispose_begin s = (case engine_cache s of
       None \<Rightarrow> s
     | Some e \<Rightarrow> s\<lparr>disposing := Some e, live := removeAll e (live s)\<rparr>)"

definition dispose_end :: "engines \<Rightarrow> engines" where
  "dispose_end s = s\<lparr>engine_cache := None, factory_cache := None, disposing := None\<rparr>"

definition dispose_engine :: "environment \<Rightarrow> (engines, exn, unit) action" where
  "dispose_engine env s = (case engine_cache s of
       None \<Rightarrow> (Inr (), s)
     | Some e \<Rightarrow> (case env_dispose_error env e of
           Some x \<Rightarrow> (Inl x, s)
         | None \<Rightarrow> (Inr (), dispose_end (dispose_begin s))))"

section \<open>Interleavings\<close>

text \<open>One task disposes at a time, as the shutdown does; any number of others use the providers.\<close>

inductive provider_step :: "environment \<Rightarrow> engines \<Rightarrow> engines \<Rightarrow> bool" for env where
  Engine: "get_engine env s = (r, s') \<Longrightarrow> provider_step env s s'"
| Factory: "get_session_factory env s = (r, s') \<Longrightarrow> provider_step env s s'"
| Begin: "disposing s = None \<Longrightarrow> engine_cache s = Some e \<Longrightarrow> provider_step env s (dispose_begin s)"
| End: "disposing s = Some e \<Longrightarrow> provider_step env s (dispose_end s)"

inductive_cases provider_stepE: "provider_step env s s'"

definition no_engines :: engines where
  "no_engines = \<lparr>engine_cache = None, factory_cache = None, created = [], live = [], disposing = None, open_sessions = 0\<rparr>"

inductive provided :: "environment \<Rightarrow> engines \<Rightarrow> bool" for env where
  Start: "provided env no_engines"
| Step: "provided env s \<Longrightarrow> provider_step env s s' \<Longrightarrow> provided env s'"

text \<open>
  The cached engine is the only one that is open, unless it is being disposed; a factory is
  bound to the cached engine.
\<close>

definition providers_ok :: "engines \<Rightarrow> bool" where
  "providers_ok s \<longleftrightarrow>
     (case engine_cache s of
        None \<Rightarrow> live s = [] \<and> factory_cache s = None \<and> disposing s = None
      | Some e \<Rightarrow> e < length (created s) \<and> factory_cache s \<in> {None, Some e}
          \<and> (disposing s = None \<and> live s = [e] \<or> disposing s = Some e \<and> live s = []))"

lemma get_engine_ok:
  assumes "providers_ok s" and "get_engine env s = (r, s')"
  shows "providers_ok s' \<and> (case r of Inr e \<Rightarrow> engine_cache s' = Some e | Inl e \<Rightarrow> s' = s)"
proof (cases "engine_cache s")
  case (Some e)
  with assms show ?thesis by (auto simp: get_engine_def)
next
  case None
  with assms show ?thesis
    by (auto simp: get_engine_def create_async_engine_def providers_ok_def split: option.splits sum.splits prod.splits)
qed

lemma get_session_factory_ok:
  assumes "providers_ok s" and "get_session_factory env s = (r, s')"
  shows "providers_ok s' \<and> (case r of Inr e \<Rightarrow> engine_cache s' = Some e \<and> factory_cache s' = Some e | Inl e \<Rightarrow> s' = s)"
proof (cases "factory_cache s")
  case (Some e)
  with assms(2) have "r = Inr e" "s' = s" by (simp_all add: get_session_factory_def)
  with Some assms(1) show ?thesis by (auto simp: providers_ok_def split: option.splits)
next
  case None
  obtain q s1 where g: "get_engine env s = (q, s1)" by fastforce
  with None assms(2) get_engine_ok [OF assms(1) g] show ?thesis
    by (cases q) (auto simp: get_session_factory_def providers_ok_def split: option.splits)
qed

lemma dispose_begin_ok: "providers_ok s \<Longrightarrow> providers_ok (dispose_begin s)"
  by (auto simp: providers_ok_def dispose_begin_def split: option.splits)

lemma dispose_end_ok: "providers_ok s \<Longrightarrow> disposing s \<noteq> None \<Longrightarrow> providers_ok (dispose_end s)"
  by (auto simp: providers_ok_def dispose_end_def split: option.splits)

lemma dispose_engine_ok:
  assumes "providers_ok s" and "dispose_engine env s = (r, s')"
  shows "providers_ok s' \<and> (case r of Inr _ \<Rightarrow> live s' = [] \<and> engine_cache s' = None | Inl e \<Rightarrow> s' = s)"
  using assms by (auto simp: dispose_engine_def dispose_begin_def dispose_end_def providers_ok_def split: option.splits)

lemma provider_step_ok: "provider_step env s s' \<Longrightarrow> providers_ok s \<Longrightarrow> providers_ok s'"
  by (erule provider_stepE) (auto dest: get_engine_ok get_session_factory_ok intro: dispose_begin_ok dispose_end_ok)

lemma no_engines_ok: "providers_ok no_engines"
  by (simp add: providers_ok_def no_engines_def)

lemma provided_ok: "provided env s \<Longrightarrow> providers_ok s"
  by (induction rule: provided.induct) (auto intro: no_engines_ok provider_step_ok)

section \<open>Properties\<close>


definition sample_environment :: environment where
  "sample_environment = \<lparr>env_settings = (case load_settings plain_unicode bare_settings of Inl e \<Rightarrow> Inl (Other_Exception 2) | Inr st \<Rightarrow> Inr st),
     env_bad_url = (\<lambda>_. None), env_dispose_error = (\<lambda>_. None)\<rparr>"

lemma sample_environment_settings: "\<exists>st. env_settings sample_environment = Inr st"
  by (simp add: sample_environment_def load_settings_def supplied_def bare_settings_def)

lemma sample_engine: "\<exists>s. get_session_factory sample_environment no_engines = (Inr 0, s) \<and> engine_cache s = Some 0"
  using sample_environment_settings
  by (auto simp: get_session_factory_def get_engine_def create_async_engine_def no_engines_def)
    (simp add: sample_environment_def)


text \<open>A request's session is closed whatever the request does with it: as many sessions are open
  after a request as before it, provided the request itself does not open any that stay open.\<close>

theorem sessions_closed:
  assumes "\<And>e t. open_sessions (snd (use e t)) = open_sessions t"
  shows "open_sessions (snd (get_db_session env use s)) = open_sessions s"
proof -
  obtain r s1 where f: "get_session_factory env s = (r, s1)" by fastforce
  then have same: "open_sessions s1 = open_sessions s"
    by (auto simp: get_session_factory_def get_engine_def create_async_engine_def split: option.splits sum.splits prod.splits)
  show ?thesis
  proof (cases r)
    case (Inl e)
    with f same show ?thesis by (simp add: get_db_session_def and_then_def)
  next
    case (Inr e)
    obtain q s2 where "use e (s1\<lparr>open_sessions := Suc (open_sessions s1)\<rparr>) = (q, s2)" by fastforce
    with assms [of e "s1\<lparr>open_sessions := Suc (open_sessions s1)\<rparr>"] f Inr same show ?thesis
      by (simp add: get_db_session_def and_then_def open_session_def close_session_def finally_do_def)
  qed
qed

end
