(* ===== verification/Logging_Config.thy ===== *)
theory Logging_Config
  imports Settings Events
begin

text \<open>
  Logging configuration (\<open>infrastructure/logging/config.py\<close>): the loggers of the standard library
  as a tree of named loggers with handlers and levels, the configuration function on it, and
  which records reach the output afterwards.
\<close>

section \<open>Levels\<close>

text \<open>The levels are ordered by their numbers.\<close>

fun level_number :: "level \<Rightarrow> nat" where
  "level_number DEBUG = 10"
| "level_number INFO = 20"
| "level_number WARNING = 30"
| "level_number ERROR = 40"
| "level_number CRITICAL = 50"

lemma level_number_inject [simp]: "level_number a = level_number b \<longleftrightarrow> a = b"
  by (cases a; cases b) simp_all

instantiation level :: linorder
begin

definition less_eq_level :: "level \<Rightarrow> level \<Rightarrow> bool" where
  "less_eq_level a b \<longleftrightarrow> level_number a \<le> level_number b"

definition less_level :: "level \<Rightarrow> level \<Rightarrow> bool" where
  "less_level a b \<longleftrightarrow> level_number a < level_number b"

instance
  by standard (auto simp: less_eq_level_def less_level_def)

end

lemma level_numbers: "INFO \<le> l \<longleftrightarrow> 20 \<le> level_number l"
  by (simp add: less_eq_level_def)

section \<open>Processors and handlers\<close>

datatype processor =
    Merge_Contextvars | Service_Metadata service_metadata | Extra_Adder | Add_Logger_Name | Add_Log_Level
  | Time_Stamper | Filter_By_Level | Wrap_For_Formatter
  | Remove_Processors_Meta | Exception_Renderer bool | Json_Renderer

definition SERVICE_NAME :: pystr where
  "SERVICE_NAME = lit ''wooloo''"

definition DISTRIBUTION_NAME :: pystr where
  "DISTRIBUTION_NAME = lit ''wooloo''"

text \<open>\<open>importlib.metadata.version\<close> of a distribution is an argument; \<open>Inl\<close> when it is not installed.\<close>

definition build_shared_processors :: "(pystr \<Rightarrow> exn + pystr) \<Rightarrow> exn + processor list" where
  "build_shared_processors version = (case version DISTRIBUTION_NAME of
       Inl e \<Rightarrow> Inl e
     | Inr v \<Rightarrow> Inr
         [Merge_Contextvars,
          Service_Metadata \<lparr>md_service = SERVICE_NAME, md_version = v\<rparr>,
          Extra_Adder, Add_Logger_Name, Add_Log_Level, Time_Stamper])"

definition RENDER_PROCESSORS :: "processor list" where
  "RENDER_PROCESSORS = [Remove_Processors_Meta, Exception_Renderer False, Json_Renderer]"

record formatter =
  fm_foreign_pre_chain :: "processor list"
  fm_processors :: "processor list"

text \<open>A handler writes to standard output; level 0 is \<open>NOTSET\<close>.\<close>

record log_handler =
  hd_level :: nat
  hd_formatter :: "formatter option"

record logger_state =
  lg_handlers :: "log_handler list"
  lg_level :: nat
  lg_propagate :: bool
  lg_disabled :: bool

text \<open>
  A logger is named by the components of its dotted name, the root by none. A logger that
  nobody has configured has no handlers, no level, and propagates.
\<close>

type_synonym logger_name = "pystr list"

record logging_state =
  loggers :: "logger_name \<Rightarrow> logger_state"
  structlog_processors :: "processor list option"

definition unset_logger :: logger_state where
  "unset_logger = \<lparr>lg_handlers = [], lg_level = 0, lg_propagate = True, lg_disabled = False\<rparr>"

definition logger_named :: "string \<Rightarrow> logger_name" where
  "logger_named t = split_on 46 (lit t)"

definition change_logger :: "logger_name \<Rightarrow> (logger_state \<Rightarrow> logger_state) \<Rightarrow> logging_state \<Rightarrow> logging_state" where
  "change_logger n f s = s\<lparr>loggers := (loggers s)(n := f (loggers s n))\<rparr>"

section \<open>The configuration\<close>

text \<open>\<open>for name in ("uvicorn", "uvicorn.error")\<close>.\<close>

definition uvicorn_reset :: "logger_state \<Rightarrow> logger_state" where
  "uvicorn_reset l = l\<lparr>lg_handlers := [], lg_propagate := True\<rparr>"

text \<open>
  Up to the lookup of the level, which needs the settings; the handler's level is set after
  it, on the handler that the root already has.
\<close>

definition install_handlers :: "formatter \<Rightarrow> logging_state \<Rightarrow> logging_state" where
  "install_handlers fmt s =
     change_logger (logger_named ''uvicorn.access'') (\<lambda>l. l\<lparr>lg_disabled := True\<rparr>)
       (fold (\<lambda>name. change_logger name uvicorn_reset) [logger_named ''uvicorn'', logger_named ''uvicorn.error'']
         (change_logger [] (\<lambda>l. l\<lparr>lg_handlers := [\<lparr>hd_level = 0, hd_formatter = Some fmt\<rparr>]\<rparr>) s))"

definition set_levels :: "nat \<Rightarrow> logging_state \<Rightarrow> logging_state" where
  "set_levels lvl s =
     change_logger [] (\<lambda>l. l\<lparr>lg_level := 20\<rparr>)
       (change_logger (logger_named ''wooloo'') (\<lambda>l. l\<lparr>lg_level := lvl\<rparr>)
         (change_logger [] (\<lambda>l. l\<lparr>lg_handlers := map (\<lambda>h. h\<lparr>hd_level := lvl\<rparr>) (lg_handlers l)\<rparr>) s))"

definition configure_logging ::
  "unicode_data \<Rightarrow> (pystr \<Rightarrow> exn + pystr) \<Rightarrow> exn + settings \<Rightarrow> (logging_state, exn, unit) action" where
  "configure_logging u version get_settings s = (case build_shared_processors version of
       Inl e \<Rightarrow> (Inl e, s)
     | Inr shared_processors \<Rightarrow>
         (let s1 = install_handlers \<lparr>fm_foreign_pre_chain = shared_processors, fm_processors = RENDER_PROCESSORS\<rparr> s
          in case get_settings of
               Inl e \<Rightarrow> (Inl e, s1)
             | Inr settings \<Rightarrow> (case resolve_level u (log_level settings) of
                   Inl e \<Rightarrow> (Inl e, s1)
                 | Inr lvl \<Rightarrow> (Inr (), (set_levels lvl s1)
                     \<lparr>structlog_processors := Some (Filter_By_Level # shared_processors @ [Wrap_For_Formatter])\<rparr>))))"

section \<open>What reaches the output\<close>

text \<open>
  \<open>isEnabledFor\<close> and \<open>callHandlers\<close> of the standard library: the effective level is that of the
  nearest logger up the tree that has one; a record is offered to the handlers of its logger
  and, while the loggers propagate, of its ancestors.
\<close>

fun ancestry :: "logger_name \<Rightarrow> logger_name list" where
  "ancestry [] = [[]]"
| "ancestry (c # cs) = map ((#) c) (ancestry cs) @ [[]]"

fun effective_level :: "logging_state \<Rightarrow> logger_name list \<Rightarrow> nat" where
  "effective_level s [] = 0"
| "effective_level s (n # ns) = (if lg_level (loggers s n) \<noteq> 0 then lg_level (loggers s n) else effective_level s ns)"

fun offered :: "logging_state \<Rightarrow> logger_name list \<Rightarrow> log_handler list" where
  "offered s [] = []"
| "offered s (n # ns) = lg_handlers (loggers s n) @ (if lg_propagate (loggers s n) then offered s ns else [])"

definition lines_written :: "logging_state \<Rightarrow> logger_name \<Rightarrow> nat \<Rightarrow> nat" where
  "lines_written s n lvl =
     (if lg_disabled (loggers s n) \<or> lvl < effective_level s (ancestry n) then 0
      else length (filter (\<lambda>h. hd_level h \<le> lvl) (offered s (ancestry n))))"

text \<open>A process before configuration: only the server has touched its own loggers.\<close>

definition only_uvicorn_configured :: "logging_state \<Rightarrow> bool" where
  "only_uvicorn_configured s \<longleftrightarrow> (\<forall>n. n \<noteq> [] \<longrightarrow>
     n \<notin> {logger_named ''uvicorn'', logger_named ''uvicorn.error'', logger_named ''uvicorn.access''} \<longrightarrow> loggers s n = unset_logger)"

lemma names_eval:
  "logger_named ''uvicorn'' = [lit ''uvicorn'']" "logger_named ''uvicorn.error'' = [lit ''uvicorn'', lit ''error'']"
  "logger_named ''uvicorn.access'' = [lit ''uvicorn'', lit ''access'']" "logger_named ''wooloo'' = [lit ''wooloo'']"
  by (simp_all add: logger_named_def lit_def)

lemma name_texts: "lit ''uvicorn'' \<noteq> lit ''wooloo''" "lit ''error'' \<noteq> lit ''access''"
  by (simp_all add: lit_def)

lemma configured_loggers:
  "loggers (set_levels lvl (install_handlers fmt s)) n =
    (if n = [] then (loggers s [])\<lparr>lg_handlers := [\<lparr>hd_level = lvl, hd_formatter = Some fmt\<rparr>], lg_level := 20\<rparr>
     else if n = [lit ''wooloo''] then (loggers s n)\<lparr>lg_level := lvl\<rparr>
     else if n = [lit ''uvicorn''] \<or> n = [lit ''uvicorn'', lit ''error''] then uvicorn_reset (loggers s n)
     else if n = [lit ''uvicorn'', lit ''access''] then (loggers s n)\<lparr>lg_disabled := True\<rparr>
     else loggers s n)"
  using name_texts by (simp add: set_levels_def install_handlers_def change_logger_def names_eval)

lemma configure_logging_Inr:
  assumes "configure_logging u version (Inr st) s = (Inr (), s')"
  shows "\<exists>lvl fmt. resolve_level u (log_level st) = Inr lvl \<and> loggers s' = loggers (set_levels lvl (install_handlers fmt s))"
  using assms by (auto simp: configure_logging_def Let_def split: sum.splits)

lemma set_install_twice:
  "set_levels lvl (install_handlers fmt (set_levels lvl (install_handlers fmt s)\<lparr>structlog_processors := p\<rparr>))
     \<lparr>structlog_processors := p\<rparr> = set_levels lvl (install_handlers fmt s)\<lparr>structlog_processors := p\<rparr>"
proof (rule logging_state.equality)
  let ?f = "\<lambda>s. set_levels lvl (install_handlers fmt s)"
  have sub: "loggers (?f (t\<lparr>structlog_processors := p\<rparr>)) = loggers (?f t)" for t
    by (simp add: set_levels_def install_handlers_def change_logger_def)
  have "loggers (?f (?f s)) = loggers (?f s)"
    by (rule ext) (simp add: configured_loggers uvicorn_reset_def)
  then show "loggers (?f (?f s\<lparr>structlog_processors := p\<rparr>)\<lparr>structlog_processors := p\<rparr>)
      = loggers (?f s\<lparr>structlog_processors := p\<rparr>)"
    using sub by simp
qed simp_all

lemma untouched_logger:
  assumes "only_uvicorn_configured s" and "m \<noteq> []" and "m \<noteq> [lit ''uvicorn'']"
    and "m \<noteq> [lit ''uvicorn'', lit ''error'']" and "m \<noteq> [lit ''uvicorn'', lit ''access'']"
  shows "loggers s m = unset_logger"
  using assms(1) [unfolded only_uvicorn_configured_def names_eval, rule_format, OF assms(2)] assms(3-5) by blast

lemma configure_logging_success:
  "configure_logging u version get_settings s = (Inr (), s') \<longleftrightarrow>
    (\<exists>ps st lvl. build_shared_processors version = Inr ps \<and> get_settings = Inr st \<and> resolve_level u (log_level st) = Inr lvl
      \<and> s' = set_levels lvl (install_handlers \<lparr>fm_foreign_pre_chain = ps, fm_processors = RENDER_PROCESSORS\<rparr> s)
          \<lparr>structlog_processors := Some (Filter_By_Level # ps @ [Wrap_For_Formatter])\<rparr>)"
  by (auto simp: configure_logging_def Let_def split: sum.splits)

lemma ancestry_front: "\<exists>front. ancestry n = front @ [[]] \<and> (\<forall>m\<in>set front. m \<noteq> [] \<and> hd m = hd n)"
  by (cases n) auto

lemma offered_front:
  "\<forall>m\<in>set front. lg_handlers (loggers s m) = [] \<and> lg_propagate (loggers s m)
   \<Longrightarrow> offered s (front @ [[]]) = lg_handlers (loggers s [])"
  by (induction front) auto

lemma effective_front:
  "\<forall>m\<in>set front. lg_level (loggers s m) = 0 \<Longrightarrow> effective_level s (front @ ns) = effective_level s ns"
  by (induction front) auto

text \<open>A child of the program's logger: the loggers up to that one are unset.\<close>

lemma ancestry_child: "\<exists>front. ancestry (c # cs) = front @ [[c], []] \<and> (\<forall>m\<in>set front. m \<noteq> [] \<and> hd m = c \<and> m \<noteq> [c])"
proof -
  obtain front where "ancestry cs = front @ [[]]" "\<forall>m\<in>set front. m \<noteq> []" using ancestry_front by blast
  then show ?thesis by (intro exI [of _ "map ((#) c) front"]) auto
qed

fun level_name :: "level \<Rightarrow> pystr" where
  "level_name DEBUG = lit ''DEBUG''"
| "level_name INFO = lit ''INFO''"
| "level_name WARNING = lit ''WARNING''"
| "level_name ERROR = lit ''ERROR''"
| "level_name CRITICAL = lit ''CRITICAL''"

lemma valid_level_name:
  assumes "t \<in> set VALID_LOG_LEVELS"
  obtains l where "t = level_name l"
proof -
  have "\<forall>t\<in>set VALID_LOG_LEVELS. t \<in> level_name ` {DEBUG, INFO, WARNING, ERROR, CRITICAL}"
    by (simp add: VALID_LOG_LEVELS_def lit_def)
  with assms show ?thesis using that by blast
qed

lemma loaded_level:
  assumes "load_settings u raw = Inr st"
  shows "\<exists>l. log_level st = level_name l \<and> resolve_level u (log_level st) = Inr (level_number l)"
proof -
  have "log_level st \<in> set VALID_LOG_LEVELS"
    using load_settings_Inr(2) [OF assms] by (rule supplied_level)
  then obtain l where l: "log_level st = level_name l" by (rule valid_level_name)
  have "str_upper u (level_name l) = level_name l"
    using level_names_upper \<open>log_level st \<in> set VALID_LOG_LEVELS\<close> unfolding l by blast
  moreover have "map_of level_names_mapping (level_name l) = Some (level_number l)"
    by (cases l) (simp_all add: level_names_mapping_def lit_def)
  ultimately show ?thesis using l by (simp add: resolve_level_def)
qed

section \<open>A configured process\<close>

definition configured_at :: "nat \<Rightarrow> logging_state \<Rightarrow> bool" where
  "configured_at lvl s \<longleftrightarrow>
     (\<exists>fmt. lg_handlers (loggers s []) = [\<lparr>hd_level = lvl, hd_formatter = Some fmt\<rparr>])
     \<and> lg_level (loggers s []) = 20
     \<and> loggers s [lit ''wooloo''] = unset_logger\<lparr>lg_level := lvl\<rparr>
     \<and> (\<forall>m. m \<noteq> [] \<longrightarrow> hd m \<noteq> lit ''uvicorn'' \<longrightarrow> m \<noteq> [lit ''wooloo''] \<longrightarrow> loggers s m = unset_logger)"

lemma configured_at_set_levels:
  assumes "only_uvicorn_configured s"
  shows "configured_at lvl (set_levels lvl (install_handlers fmt s)\<lparr>structlog_processors := p\<rparr>)"
proof -
  have "loggers (set_levels lvl (install_handlers fmt s)) m = unset_logger"
    if "m \<noteq> []" "hd m \<noteq> lit ''uvicorn''" "m \<noteq> [lit ''wooloo'']" for m
  proof -
    have other: "m \<noteq> [lit ''uvicorn'']" "m \<noteq> [lit ''uvicorn'', lit ''error'']" "m \<noteq> [lit ''uvicorn'', lit ''access'']"
      using that(2) by auto
    with that(1,3) have "loggers (set_levels lvl (install_handlers fmt s)) m = loggers s m" by (simp add: configured_loggers)
    with other that(1) show ?thesis using untouched_logger [OF assms] by simp
  qed
  moreover have "loggers s [lit ''wooloo''] = unset_logger" using untouched_logger [OF assms] name_texts(1) by simp
  then have "loggers (set_levels lvl (install_handlers fmt s)) [lit ''wooloo''] = unset_logger\<lparr>lg_level := lvl\<rparr>"
    by (simp add: configured_loggers)
  ultimately show ?thesis by (simp add: configured_at_def configured_loggers [of lvl fmt s "[]"])
qed

lemma configured_at_quiet:
  assumes "configured_at lvl s" and "m \<noteq> []" and "hd m \<noteq> lit ''uvicorn''"
  shows "lg_handlers (loggers s m) = [] \<and> lg_propagate (loggers s m) \<and> \<not> lg_disabled (loggers s m)
    \<and> (m \<noteq> [lit ''wooloo''] \<longrightarrow> lg_level (loggers s m) = 0)"
  using assms by (cases "m = [lit ''wooloo'']") (simp_all add: configured_at_def unset_logger_def)

lemma lines_written_configured:
  assumes "configured_at lvl s" and "n \<noteq> []" and "hd n \<noteq> lit ''uvicorn''"
  shows "lines_written s n l = (if max (effective_level s (ancestry n)) lvl \<le> l then 1 else 0)"
proof -
  obtain front where front: "ancestry n = front @ [[]]" "\<forall>m\<in>set front. m \<noteq> [] \<and> hd m = hd n" using ancestry_front by blast
  then have "\<forall>m\<in>set front. lg_handlers (loggers s m) = [] \<and> lg_propagate (loggers s m)"
    using configured_at_quiet [OF assms(1)] assms(3) by metis
  then have "offered s (ancestry n) = lg_handlers (loggers s [])" unfolding front(1) by (rule offered_front)
  moreover obtain fmt where "lg_handlers (loggers s []) = [\<lparr>hd_level = lvl, hd_formatter = Some fmt\<rparr>]"
    using assms(1) by (auto simp: configured_at_def)
  ultimately show ?thesis using configured_at_quiet [OF assms] by (simp add: lines_written_def)
qed

lemma effective_level_own:
  assumes "configured_at lvl s" and "lvl \<noteq> 0"
  shows "effective_level s (ancestry (lit ''wooloo'' # rest)) = lvl"
proof -
  obtain front where front: "ancestry (lit ''wooloo'' # rest) = front @ [[lit ''wooloo''], []]"
    "\<forall>m\<in>set front. m \<noteq> [] \<and> hd m = lit ''wooloo'' \<and> m \<noteq> [lit ''wooloo'']" using ancestry_child by blast
  then have "\<forall>m\<in>set front. lg_level (loggers s m) = 0"
    using configured_at_quiet [OF assms(1)] name_texts(1) by metis
  then show ?thesis using assms unfolding front(1) by (simp add: effective_front configured_at_def)
qed

lemma effective_level_foreign:
  assumes "configured_at lvl s" and "n \<noteq> []" and "hd n \<notin> {lit ''wooloo'', lit ''uvicorn''}"
  shows "effective_level s (ancestry n) = 20"
proof -
  obtain front where front: "ancestry n = front @ [[]]" "\<forall>m\<in>set front. m \<noteq> [] \<and> hd m = hd n" using ancestry_front by blast
  have "lg_level (loggers s m) = 0" if "m \<in> set front" for m
  proof -
    have "m \<noteq> []" "hd m \<noteq> lit ''uvicorn''" "m \<noteq> [lit ''wooloo'']" using front(2) that assms(3) by auto
    with configured_at_quiet [OF assms(1)] show ?thesis by blast
  qed
  then show ?thesis using assms(1) unfolding front(1) by (simp add: effective_front configured_at_def)
qed

section \<open>Properties\<close>

text \<open>C37. Configured once or twice, each record comes out once: after the configuration with settings that
  load, a record of the program's loggers is written as exactly one line when its level is at
  least the configured one and not at all otherwise; for the loggers of libraries the threshold is
  at least \<open>INFO\<close>; the server's access log is silent. Configuring again changes nothing.\<close>

theorem records_written_once:
  assumes "load_settings u raw = Inr st" and "only_uvicorn_configured s"
    and "configure_logging u version (Inr st) s = (Inr (), s')"
  shows "\<exists>configured. log_level st = level_name configured
    \<and> (\<forall>rest l. lines_written s' (lit ''wooloo'' # rest) (level_number l) = (if configured \<le> l then 1 else 0))
    \<and> (\<forall>n l. n \<noteq> [] \<and> hd n \<notin> {lit ''wooloo'', lit ''uvicorn''} \<longrightarrow>
        lines_written s' n (level_number l) = (if max INFO configured \<le> l then 1 else 0))
    \<and> (\<forall>l. lines_written s' (logger_named ''uvicorn.access'') (level_number l) = 0)
    \<and> configure_logging u version (Inr st) s' = (Inr (), s')"
proof -
  obtain cl where cl: "log_level st = level_name cl" "resolve_level u (log_level st) = Inr (level_number cl)"
    using loaded_level [OF assms(1)] by blast
  obtain ps where ps: "build_shared_processors version = Inr ps"
    and s': "s' = set_levels (level_number cl) (install_handlers \<lparr>fm_foreign_pre_chain = ps, fm_processors = RENDER_PROCESSORS\<rparr> s)
          \<lparr>structlog_processors := Some (Filter_By_Level # ps @ [Wrap_For_Formatter])\<rparr>"
    using assms(3) cl(2) unfolding configure_logging_success by auto
  have at: "configured_at (level_number cl) s'"
    unfolding s' using assms(2) by (rule configured_at_set_levels)
  have "level_number cl \<noteq> 0" by (cases cl) simp_all
  then have "lines_written s' (lit ''wooloo'' # rest) (level_number l) = (if cl \<le> l then 1 else 0)" for rest l
    using name_texts(1) by (simp add: lines_written_configured [OF at] effective_level_own [OF at] less_eq_level_def del: ancestry.simps)
  moreover have "lines_written s' n (level_number l) = (if max INFO cl \<le> l then 1 else 0)"
    if "n \<noteq> [] \<and> hd n \<notin> {lit ''wooloo'', lit ''uvicorn''}" for n l
    using that by (simp add: lines_written_configured [OF at] effective_level_foreign [OF at])
      (simp add: max_def less_eq_level_def)
  moreover have "lines_written s' (logger_named ''uvicorn.access'') (level_number l) = 0" for l
    using name_texts by (simp add: lines_written_def s' configured_loggers names_eval)
  moreover have "configure_logging u version (Inr st) s' = (Inr (), s')"
    unfolding configure_logging_success using ps cl(2) set_install_twice by (auto simp: s')
  ultimately show ?thesis using cl(1) by blast
qed

definition untouched_logging :: logging_state where
  "untouched_logging = \<lparr>loggers = (\<lambda>_. unset_logger), structlog_processors = None\<rparr>"

lemma records_written_once_witness:
  "\<exists>st s'. load_settings plain_unicode bare_settings = Inr st
    \<and> configure_logging plain_unicode (\<lambda>_. Inr (lit ''0.1.0'')) (Inr st) untouched_logging = (Inr (), s')
    \<and> lines_written s' (logger_named ''uvicorn.access'') (level_number ERROR) = 0
    \<and> (\<exists>configured. lines_written s' [lit ''wooloo'', lit ''api''] (level_number CRITICAL) = (if configured \<le> CRITICAL then 1 else 0))"
proof -
  obtain st where st: "load_settings plain_unicode bare_settings = Inr st"
    by (simp add: load_settings_def supplied_def bare_settings_def)
  obtain l where "resolve_level plain_unicode (log_level st) = Inr (level_number l)"
    using loaded_level [OF st] by blast
  then obtain s' where s': "configure_logging plain_unicode (\<lambda>_. Inr (lit ''0.1.0'')) (Inr st) untouched_logging = (Inr (), s')"
    by (simp add: configure_logging_def build_shared_processors_def)
  have "only_uvicorn_configured untouched_logging"
    by (simp add: only_uvicorn_configured_def untouched_logging_def)
  from records_written_once [OF st this s'] st s' show ?thesis by blast
qed

end
