(* ===== verification/Tracing.thy ===== *)
theory Tracing
  imports Logging_Config
begin

text \<open>
  Tracing (\<open>infrastructure/telemetry/tracing.py\<close>): the span processors and the provider the
  process registers at startup. The \<open>opentelemetry\<close> package is not modelled: what registering
  a provider does to the one in force, and what shutting one down returns, are arguments.
\<close>

definition TRACE_SERVICE_NAME :: pystr where
  "TRACE_SERVICE_NAME = lit ''wooloo''"

definition TRACE_DISTRIBUTION_NAME :: pystr where
  "TRACE_DISTRIBUTION_NAME = lit ''wooloo''"

lemma one_distribution [simp]: "TRACE_DISTRIBUTION_NAME = DISTRIBUTION_NAME"
  by (simp add: TRACE_DISTRIBUTION_NAME_def DISTRIBUTION_NAME_def)

definition OTLP_EXPORT_TIMEOUT_SECONDS :: nat where
  "OTLP_EXPORT_TIMEOUT_SECONDS = 2"

text \<open>A processor exports each span when it ends, or in batches to an endpoint under a timeout.\<close>

datatype span_processor =
    Simple_Console
  | Batch_Otlp (otlp_endpoint: pystr) (otlp_timeout: nat)

record tracer_provider =
  tp_resource :: "(pystr \<times> pystr) list"
  tp_processors :: "span_processor list"
  tp_shut :: bool

text \<open>
  \<open>tel_set\<close> is \<open>set_tracer_provider\<close>, on the SDK provider in force, if there is one;
  \<open>tel_shutdown\<close> is \<open>TracerProvider.shutdown\<close>.
\<close>

record telemetry =
  tel_set :: "tracer_provider \<Rightarrow> tracer_provider option \<Rightarrow> tracer_provider option"
  tel_shutdown :: "tracer_provider \<Rightarrow> (exn + unit) \<times> tracer_provider"

definition build_span_processors :: "settings \<Rightarrow> span_processor list" where
  "build_span_processors settings =
     (let processors = [];
          processors = (if otel_console_export_enabled settings then processors @ [Simple_Console] else processors)
      in processors @ [Batch_Otlp (otel_exporter_otlp_endpoint settings) OTLP_EXPORT_TIMEOUT_SECONDS])"

definition tracing_fields :: "settings \<Rightarrow> (pystr \<times> field_value) list" where
  "tracing_fields settings =
     [(lit ''endpoint'', Text (otel_exporter_otlp_endpoint settings)),
      (lit ''console_export_enabled'', Truth (otel_console_export_enabled settings)),
      (lit ''export_timeout_seconds'', Number (int OTLP_EXPORT_TIMEOUT_SECONDS))]"

definition configure_tracing ::
  "telemetry \<Rightarrow> (pystr \<Rightarrow> exn + pystr) \<Rightarrow> exn + settings \<Rightarrow> (tracer_provider option, unit) app" where
  "configure_tracing tel version get_settings w = (case get_settings of
       Inl e \<Rightarrow> (Inl e, w)
     | Inr settings \<Rightarrow> (case version TRACE_DISTRIBUTION_NAME of
           Inl e \<Rightarrow> (Inl e, w)
         | Inr v \<Rightarrow>
             (let provider =
                \<lparr>tp_resource = [(lit ''service.name'', TRACE_SERVICE_NAME), (lit ''service.version'', v)],
                 tp_processors = [], tp_shut = False\<rparr>;
                provider = fold (\<lambda>processor p. p\<lparr>tp_processors := tp_processors p @ [processor]\<rparr>)
                  (build_span_processors settings) provider
              in log_as INFO (lit ''tracing_configured'') (tracing_fields settings)
                   (w\<lparr>part := tel_set tel provider (part w)\<rparr>))))"

text \<open>The provider that registration aims at.\<close>

definition wanted_provider :: "settings \<Rightarrow> pystr \<Rightarrow> tracer_provider" where
  "wanted_provider settings v =
     \<lparr>tp_resource = [(lit ''service.name'', lit ''wooloo''), (lit ''service.version'', v)],
      tp_processors = (if otel_console_export_enabled settings then [Simple_Console] else [])
        @ [Batch_Otlp (otel_exporter_otlp_endpoint settings) 2],
      tp_shut = False\<rparr>"

lemma fold_add_processor:
  "fold (\<lambda>processor p. p\<lparr>tp_processors := tp_processors p @ [processor]\<rparr>) ps p = p\<lparr>tp_processors := tp_processors p @ ps\<rparr>"
  by (induction ps arbitrary: p) simp_all

lemma configure_tracing_run:
  assumes "get_settings = Inr settings" and "version DISTRIBUTION_NAME = Inr v"
  shows "configure_tracing tel version get_settings w =
    (Inr (), w\<lparr>part := tel_set tel (wanted_provider settings v) (part w),
       journal := journal w @ [log_event_of INFO (lit ''tracing_configured'') (tracing_fields settings)]\<rparr>)"
  using assms
  by (simp add: configure_tracing_def Let_def fold_add_processor build_span_processors_def wanted_provider_def
      TRACE_SERVICE_NAME_def OTLP_EXPORT_TIMEOUT_SECONDS_def)

end
