(* ===== verification/Lifecycle.thy ===== *)
theory Lifecycle
  imports Engine Tracing
begin

text \<open>
  Startup and shutdown (\<open>application/lifecycle.py\<close>): the \<open>lifespan\<close> context manager, which
  configures logging, loads the settings, creates the engine, probes the database and
  registers the tracer provider before it yields to the running application, and releases
  the engine and the provider after it.
\<close>

section \<open>State\<close>

record process =
  pr_logging :: logging_state
  pr_engines :: engines
  pr_tracer :: "tracer_provider option"

text \<open>
  What the code obtains from its surroundings: the character database, the installed
  distributions' versions, the settings and the engine's behaviour, the telemetry library,
  what \<open>SELECT 1\<close> returns on a session of an engine, and how an exception prints.
\<close>

record surroundings =
  su_unicode :: unicode_data
  su_version :: "pystr \<Rightarrow> exn + pystr"
  su_env :: environment
  su_telemetry :: telemetry
  su_probe :: "nat \<Rightarrow> exn + unit"
  su_str :: "exn \<Rightarrow> pystr"
  su_type_name :: "exn \<Rightarrow> pystr"

definition on_logging :: "(logging_state, exn, 'a) action \<Rightarrow> (process, 'a) app" where
  "on_logging m = on_part (lifting pr_logging (\<lambda>l p. p\<lparr>pr_logging := l\<rparr>) m)"

definition on_engines :: "(engines, exn, 'a) action \<Rightarrow> (process, 'a) app" where
  "on_engines m = on_part (lifting pr_engines (\<lambda>s p. p\<lparr>pr_engines := s\<rparr>) m)"

text \<open>An action on the tracer provider that also writes records.\<close>

definition on_tracer :: "(tracer_provider option, 'a) app \<Rightarrow> (process, 'a) app" where
  "on_tracer m w =
     (case m \<lparr>part = pr_tracer (part w), journal = journal w, bound_context = bound_context w\<rparr> of
        (r, v) \<Rightarrow> (r, w\<lparr>part := (part w)\<lparr>pr_tracer := part v\<rparr>, journal := journal v, bound_context := bound_context v\<rparr>))"

section \<open>Operations\<close>

definition from_result :: "exn + 'a \<Rightarrow> ('s, exn, 'a) action" where
  "from_result r = (\<lambda>s. (r, s))"

definition verify_database_connectivity :: "surroundings \<Rightarrow> (process, unit) app" where
  "verify_database_connectivity su =
     and_then
       (trying
         (and_then
           (on_engines
             (and_then (get_session_factory (su_env su)) (\<lambda>factory.
              and_then (open_session factory) (\<lambda>session.
              finally_do (from_result (su_probe su session)) close_session))))
           (\<lambda>_. returning True))
         (\<lambda>exc. if is_exception exc
            then and_then (log_as WARNING (lit ''database_unreachable_at_startup'')
                   [(lit ''error'', Text (su_str su exc)), (lit ''error_type'', Text (su_type_name su exc))])
                 (\<lambda>_. returning False)
            else raising exc))
       (\<lambda>reached. if reached then log_as INFO (lit ''database_connectivity_verified'') [] else returning ())"

text \<open>A global provider that is not the SDK's is left alone.\<close>

definition flush_tracer_provider :: "surroundings \<Rightarrow> (process, unit) app" where
  "flush_tracer_provider su w = (case pr_tracer (part w) of
       None \<Rightarrow> (Inr (), w)
     | Some provider \<Rightarrow> (case tel_shutdown (su_telemetry su) provider of
           (r, provider') \<Rightarrow> (r, w\<lparr>part := (part w)\<lparr>pr_tracer := Some provider'\<rparr>\<rparr>)))"

text \<open>\<open>serve\<close> is what the server does while the context manager is suspended at its \<open>yield\<close>.\<close>

definition lifespan :: "surroundings \<Rightarrow> (process, 'a) app \<Rightarrow> (process, 'a) app" where
  "lifespan su serve =
     and_then (on_logging (configure_logging (su_unicode su) (su_version su) (env_settings (su_env su)))) (\<lambda>_.
     and_then (from_result (env_settings (su_env su))) (\<lambda>_.
     and_then (on_engines (get_engine (su_env su))) (\<lambda>_.
     and_then (verify_database_connectivity su) (\<lambda>_.
     and_then (on_tracer (configure_tracing (su_telemetry su) (su_version su) (env_settings (su_env su)))) (\<lambda>_.
     and_then (log_as INFO (lit ''application_started'') []) (\<lambda>_.
     finally_do serve
       (and_then (on_engines (dispose_engine (su_env su))) (\<lambda>_.
        and_then (flush_tracer_provider su) (\<lambda>_.
        log_as INFO (lit ''application_stopped'') [])))))))))"

section \<open>Runs\<close>

text \<open>What stops the startup, if anything does, in the order in which it is met.\<close>

definition boot_error :: "surroundings \<Rightarrow> exn option" where
  "boot_error su = (case su_version su DISTRIBUTION_NAME of
       Inl e \<Rightarrow> Some e
     | Inr _ \<Rightarrow> (case env_settings (su_env su) of
         Inl e \<Rightarrow> Some e
       | Inr st \<Rightarrow> (case resolve_level (su_unicode su) (log_level st) of
           Inl e \<Rightarrow> Some e
         | Inr _ \<Rightarrow> env_bad_url (su_env su) (database_url st))))"

definition probe_record :: "surroundings \<Rightarrow> nat \<Rightarrow> log_event" where
  "probe_record su engine = (case su_probe su engine of
       Inl exc \<Rightarrow> log_event_of WARNING (lit ''database_unreachable_at_startup'')
         [(lit ''error'', Text (su_str su exc)), (lit ''error_type'', Text (su_type_name su exc))]
     | Inr _ \<Rightarrow> log_event_of INFO (lit ''database_connectivity_verified'') [])"

lemma from_result_run [simp]: "from_result r s = (r, s)"
  by (simp add: from_result_def)

lemma on_logging_run: "m (pr_logging (part w)) = (r, l) \<Longrightarrow> on_logging m w = (r, w\<lparr>part := (part w)\<lparr>pr_logging := l\<rparr>\<rparr>)"
  by (simp add: on_logging_def on_part_def lifting_def)

lemma on_engines_run: "m (pr_engines (part w)) = (r, s) \<Longrightarrow> on_engines m w = (r, w\<lparr>part := (part w)\<lparr>pr_engines := s\<rparr>\<rparr>)"
  by (simp add: on_engines_def on_part_def lifting_def)

lemma cached_factory:
  assumes "providers_ok s" and "engine_cache s = Some e"
  shows "get_session_factory env s = (Inr e, s\<lparr>factory_cache := Some e\<rparr>)"
  using assms by (auto simp: get_session_factory_def get_engine_def providers_ok_def)

lemma verify_run:
  assumes "providers_ok (pr_engines (part w))" and "engine_cache (pr_engines (part w)) = Some e"
    and "\<And>x. su_probe su e = Inl x \<Longrightarrow> is_exception x"
  shows "verify_database_connectivity su w =
    (Inr (), w\<lparr>part := (part w)\<lparr>pr_engines := (pr_engines (part w))\<lparr>factory_cache := Some e\<rparr>\<rparr>,
       journal := journal w @ [probe_record su e]\<rparr>)"
proof -
  let ?s = "(pr_engines (part w))\<lparr>factory_cache := Some e\<rparr>"
  let ?session = "and_then (get_session_factory (su_env su)) (\<lambda>factory. and_then (open_session factory)
    (\<lambda>session. finally_do (from_result (su_probe su session)) close_session))"
  have session: "on_engines ?session w = (su_probe su e, w\<lparr>part := (part w)\<lparr>pr_engines := ?s\<rparr>\<rparr>)"
    by (rule on_engines_run)
      (simp add: and_then_def cached_factory [OF assms(1,2)] open_session_def close_session_def finally_do_def)
  show ?thesis
  proof (cases "su_probe su e")
    case (Inl x)
    with assms(3) session show ?thesis
      by (simp add: verify_database_connectivity_def and_then_def trying_def probe_record_def)
  next
    case (Inr v)
    with session show ?thesis
      by (simp add: verify_database_connectivity_def and_then_def trying_def probe_record_def)
  qed
qed

text \<open>The first engine of a process.\<close>

definition first_engine :: "settings \<Rightarrow> engine_config" where
  "first_engine st =
     \<lparr>en_url = database_url st, en_hide_parameters = True, en_pool_size = 5, en_max_overflow = 10, en_pre_ping = True,
      en_recycle = 1800, en_pool_timeout = 5000, en_connect_timeout = 3000, en_command_timeout = 3000\<rparr>"

definition running_engines :: "settings \<Rightarrow> engines" where
  "running_engines st = no_engines\<lparr>engine_cache := Some 0, factory_cache := Some 0, created := [first_engine st], live := [0]\<rparr>"

lemma get_first_engine:
  assumes "env_settings env = Inr st"
  shows "get_engine env no_engines = (case env_bad_url env (database_url st) of
      Some e \<Rightarrow> (Inl e, no_engines)
    | None \<Rightarrow> (Inr 0, no_engines\<lparr>engine_cache := Some 0, created := [first_engine st], live := [0]\<rparr>))"
  using assms
  by (auto simp: get_engine_def create_async_engine_def no_engines_def first_engine_def POOL_SIZE_def MAX_OVERFLOW_def
      POOL_RECYCLE_SECONDS_def POOL_TIMEOUT_def CONNECT_TIMEOUT_def COMMAND_TIMEOUT_def split: option.split)

lemma running_engines_ok: "providers_ok (running_engines st)"
  by (simp add: providers_ok_def running_engines_def no_engines_def)

lemma first_engine_ok: "providers_ok (no_engines\<lparr>engine_cache := Some 0, created := [c], live := [0]\<rparr>)"
  by (simp add: providers_ok_def no_engines_def)

text \<open>The part of a process that is new: no engine has been asked for, no provider registered.\<close>

definition fresh_process :: "process world \<Rightarrow> bool" where
  "fresh_process w \<longleftrightarrow> pr_engines (part w) = no_engines \<and> pr_tracer (part w) = None"

definition startup_records :: "surroundings \<Rightarrow> settings \<Rightarrow> log_event list" where
  "startup_records su st =
     [probe_record su 0, log_event_of INFO (lit ''tracing_configured'') (tracing_fields st),
      log_event_of INFO (lit ''application_started'') []]"

lemma boot_error_NoneE:
  assumes "boot_error su = None"
  obtains v st lvl where "su_version su DISTRIBUTION_NAME = Inr v" and "env_settings (su_env su) = Inr st"
    and "resolve_level (su_unicode su) (log_level st) = Inr lvl" and "env_bad_url (su_env su) (database_url st) = None"
  using assms by (auto simp: boot_error_def split: sum.splits)

lemma configure_logging_runs:
  assumes "version DISTRIBUTION_NAME = Inr v" and "resolve_level u (log_level st) = Inr lvl"
  shows "\<exists>l'. configure_logging u version (Inr st) l = (Inr (), l')"
  using assms by (simp add: configure_logging_def build_shared_processors_def Let_def)

text \<open>The clean-up of the context manager.\<close>

definition shutdown :: "surroundings \<Rightarrow> (process, unit) app" where
  "shutdown su =
     and_then (on_engines (dispose_engine (su_env su))) (\<lambda>_.
     and_then (flush_tracer_provider su) (\<lambda>_.
     log_as INFO (lit ''application_stopped'') []))"

lemma lifespan_run:
  assumes "fresh_process w" and "boot_error su = None" and "env_settings (su_env su) = Inr st"
    and "\<And>x. su_probe su 0 = Inl x \<Longrightarrow> is_exception x"
  shows "\<exists>l' v. su_version su DISTRIBUTION_NAME = Inr v \<and> lifespan su serve w = finally_do serve (shutdown su)
    (w\<lparr>part := \<lparr>pr_logging = l', pr_engines = running_engines st,
        pr_tracer = tel_set (su_telemetry su) (wanted_provider st v) None\<rparr>,
       journal := journal w @ startup_records su st\<rparr>)"
proof -
  obtain v lvl where v: "su_version su DISTRIBUTION_NAME = Inr v" and lvl: "resolve_level (su_unicode su) (log_level st) = Inr lvl"
    and url: "env_bad_url (su_env su) (database_url st) = None"
    using boot_error_NoneE [OF assms(2)] assms(3) by (metis sum.inject(2))
  obtain l' where l': "configure_logging (su_unicode su) (su_version su) (Inr st) (pr_logging (part w)) = (Inr (), l')"
    using configure_logging_runs [where version = "su_version su", OF v lvl] by blast
  note logging = on_logging_run [where m = "configure_logging (su_unicode su) (su_version su) (Inr st)", OF l']
  let ?p = "\<lparr>pr_logging = l', pr_engines = no_engines\<lparr>engine_cache := Some 0, created := [first_engine st], live := [0]\<rparr>, pr_tracer = None\<rparr>"
  have fresh: "(part w)\<lparr>pr_logging := l'\<rparr> = \<lparr>pr_logging = l', pr_engines = no_engines, pr_tracer = None\<rparr>"
    using assms(1) by (simp add: fresh_process_def)
  have engine: "on_engines (get_engine (su_env su)) (w\<lparr>part := (part w)\<lparr>pr_logging := l'\<rparr>\<rparr>) = (Inr 0, w\<lparr>part := ?p\<rparr>)"
    using get_first_engine [OF assms(3)] url
      on_engines_run [where m = "get_engine (su_env su)" and w = "w\<lparr>part := (part w)\<lparr>pr_logging := l'\<rparr>\<rparr>"]
    by (simp add: fresh)
  have probe: "verify_database_connectivity su (w\<lparr>part := ?p\<rparr>) =
      (Inr (), w\<lparr>part := ?p\<lparr>pr_engines := running_engines st\<rparr>, journal := journal w @ [probe_record su 0]\<rparr>)"
    using verify_run [where w = "w\<lparr>part := ?p\<rparr>" and e = 0 and su = su] first_engine_ok assms(4)
    by (simp add: running_engines_def no_engines_def)
  have tracing: "on_tracer (configure_tracing (su_telemetry su) (su_version su) (Inr st)) x =
      (Inr (), x\<lparr>part := (part x)\<lparr>pr_tracer := tel_set (su_telemetry su) (wanted_provider st v) (pr_tracer (part x))\<rparr>,
         journal := journal x @ [log_event_of INFO (lit ''tracing_configured'') (tracing_fields st)]\<rparr>)" for x
    by (simp add: on_tracer_def configure_tracing_run [where settings = st and v = v] v)
  show ?thesis
    by (intro exI [of _ l'] exI [of _ v])
      (simp add: v lifespan_def shutdown_def [symmetric] assms(3) logging engine probe tracing and_then_Inr startup_records_def)
qed

lemma lifespan_startedE:
  fixes serve :: "(process, 'a) app"
  assumes "fresh_process w" and "boot_error su = None" and "\<And>x. su_probe su 0 = Inl x \<Longrightarrow> is_exception x"
    and "\<And>p. tel_set (su_telemetry su) p None = Some p"
  obtains st started v where "env_settings (su_env su) = Inr st"
    and "pr_engines (part started) = running_engines st" and "pr_tracer (part started) = Some (wanted_provider st v)"
    and "journal started = journal w @ startup_records su st"
    and "lifespan su serve w = finally_do serve (shutdown su) started"
proof -
  obtain st where st: "env_settings (su_env su) = Inr st" using boot_error_NoneE [OF assms(2)] by blast
  from lifespan_run [where serve = serve, OF assms(1,2) st assms(3)] obtain l' v where
    "lifespan su serve w = finally_do serve (shutdown su)
      (w\<lparr>part := \<lparr>pr_logging = l', pr_engines = running_engines st,
          pr_tracer = tel_set (su_telemetry su) (wanted_provider st v) None\<rparr>,
         journal := journal w @ startup_records su st\<rparr>)"
    by blast
  from that [OF st _ _ _ this] show thesis by (simp add: assms(4))
qed

lemma configure_logging_Inl:
  assumes "configure_logging u version get_settings l = (r, l')"
  shows "r = (case version DISTRIBUTION_NAME of Inl e \<Rightarrow> Inl e | Inr _ \<Rightarrow> (case get_settings of Inl e \<Rightarrow> Inl e
      | Inr st \<Rightarrow> (case resolve_level u (log_level st) of Inl e \<Rightarrow> Inl e | Inr _ \<Rightarrow> Inr ())))"
  using assms by (auto simp: configure_logging_def build_shared_processors_def Let_def split: sum.splits)

section \<open>Properties\<close>

text \<open>C38. A process with a bad configuration never serves and leaves nothing open: if the distribution is not
  installed, the settings do not load, or the database URL does not parse, the startup raises the
  first of these errors, without creating an engine, registering a provider or writing a
  record, and what the server would do is not run.\<close>

theorem bad_configuration_stops_startup:
  assumes "fresh_process w" and "boot_error su = Some e"
  shows "\<exists>l. lifespan su serve w = (Inl e, w\<lparr>part := (part w)\<lparr>pr_logging := l\<rparr>\<rparr>)"
proof -
  let ?m = "configure_logging (su_unicode su) (su_version su) (env_settings (su_env su))"
  obtain r l where m: "?m (pr_logging (part w)) = (r, l)" by fastforce
  have logging: "on_logging ?m w = (r, w\<lparr>part := (part w)\<lparr>pr_logging := l\<rparr>\<rparr>)"
    using m by (rule on_logging_run)
  show ?thesis
  proof (cases r)
    case (Inl e')
    moreover from this configure_logging_Inl [OF m] assms(2) have "e' = e"
      by (auto simp: boot_error_def split: sum.splits)
    ultimately show ?thesis using logging
      by (intro exI [of _ l]) (simp add: lifespan_def and_then_Inl)
  next
    case (Inr x)
    with configure_logging_Inl [OF m] assms(2) obtain st where st: "env_settings (su_env su) = Inr st"
      and url: "env_bad_url (su_env su) (database_url st) = Some e"
      by (auto simp: boot_error_def split: sum.splits)
    have "on_engines (get_engine (su_env su)) (w\<lparr>part := (part w)\<lparr>pr_logging := l\<rparr>\<rparr>) =
        (Inl e, w\<lparr>part := (part w)\<lparr>pr_logging := l\<rparr>\<rparr>)"
      using get_first_engine [OF st] url assms(1)
        on_engines_run [where m = "get_engine (su_env su)" and w = "w\<lparr>part := (part w)\<lparr>pr_logging := l\<rparr>\<rparr>"]
      by (simp add: fresh_process_def)
    with Inr logging st show ?thesis
      by (intro exI [of _ l]) (simp add: lifespan_def and_then_Inr and_then_Inl)
  qed
qed

text \<open>C21. With a good configuration the process serves, whatever the database answers to the probe, and gives
  back what it holds when it stops: the engine, the cached session factory and the provider are
  in place and the startup's records written before the server runs; and however the server
  ends, afterwards no engine is open, the provider that was registered is shut down, the last record is
  \<open>application_stopped\<close>, and the server's own outcome is reported.\<close>

theorem lifespan_serves_and_releases:
  fixes serve :: "(process, 'a) app"
  assumes "fresh_process w" and "boot_error su = None" and "\<And>x. su_probe su 0 = Inl x \<Longrightarrow> is_exception x"
    and "\<And>p. tel_set (su_telemetry su) p None = Some p"
    and "\<And>p. tel_shutdown (su_telemetry su) p = (Inr (), p\<lparr>tp_shut := True\<rparr>)"
    and "\<And>e. env_dispose_error (su_env su) e = None"
    and "\<And>v. providers_ok (pr_engines (part v)) \<Longrightarrow>
      providers_ok (pr_engines (part (snd (serve v)))) \<and> pr_tracer (part (snd (serve v))) = pr_tracer (part v)"
  shows "\<exists>st started served stopped r provider.
    env_settings (su_env su) = Inr st
    \<and> pr_engines (part started) = running_engines st \<and> pr_tracer (part started) = Some provider
    \<and> otel_exporter_otlp_endpoint st \<in> otlp_endpoint ` set (tp_processors provider)
    \<and> journal started = journal w @ startup_records su st
    \<and> serve started = (r, served) \<and> lifespan su serve w = (r, stopped)
    \<and> engine_cache (pr_engines (part stopped)) = None \<and> live (pr_engines (part stopped)) = []
    \<and> pr_tracer (part stopped) = Some (provider\<lparr>tp_shut := True\<rparr>)
    \<and> journal stopped = journal served @ [log_event_of INFO (lit ''application_stopped'') []]"
proof -
  obtain st started v where st: "env_settings (su_env su) = Inr st"
    and started: "pr_engines (part started) = running_engines st" "pr_tracer (part started) = Some (wanted_provider st v)"
      "journal started = journal w @ startup_records su st"
    and run: "lifespan su serve w = finally_do serve (shutdown su) started"
    using assms(1-4) by (rule lifespan_startedE)
  obtain r served where served: "serve started = (r, served)" by fastforce
  with assms(7) [of started] started have ok: "providers_ok (pr_engines (part served))"
    and tracer: "pr_tracer (part served) = Some (wanted_provider st v)"
    by (simp_all add: running_engines_ok)
  obtain d s' where d: "dispose_engine (su_env su) (pr_engines (part served)) = (d, s')" by fastforce
  moreover from this assms(6) have "d = Inr ()" by (auto simp: dispose_engine_def split: option.splits)
  ultimately have s': "live s' = []" "engine_cache s' = None"
    and dispose: "on_engines (dispose_engine (su_env su)) served = (Inr (), served\<lparr>part := (part served)\<lparr>pr_engines := s'\<rparr>\<rparr>)"
    using dispose_engine_ok [OF ok d] on_engines_run [of "dispose_engine (su_env su)"] by simp_all
  let ?stopped = "served\<lparr>part := (part served)\<lparr>pr_engines := s', pr_tracer := Some (wanted_provider st v\<lparr>tp_shut := True\<rparr>)\<rparr>,
      journal := journal served @ [log_event_of INFO (lit ''application_stopped'') []]\<rparr>"
  have "shutdown su served = (Inr (), ?stopped)"
    using dispose tracer by (simp add: shutdown_def and_then_Inr flush_tracer_provider_def assms(5) and_then_def)
  with run served have "lifespan su serve w = (r, ?stopped)" by (simp add: finally_do_def)
  moreover have "otel_exporter_otlp_endpoint st \<in> otlp_endpoint ` set (tp_processors (wanted_provider st v))"
    by (simp add: wanted_provider_def)
  ultimately show ?thesis
    using st started served s'
    by (intro exI [of _ st] exI [of _ started] exI [of _ served] exI [of _ ?stopped] exI [of _ r] exI [of _ "wanted_provider st v"])
      simp
qed

text \<open>A disposal that raises ends the clean-up: the provider is not shut down, the spans it still holds are not
  exported, and the stop is not recorded.\<close>

theorem failed_disposal_skips_flush:
  fixes serve :: "(process, 'a) app"
  assumes "fresh_process w" and "boot_error su = None" and "\<And>x. su_probe su 0 = Inl x \<Longrightarrow> is_exception x"
    and "\<And>p. tel_set (su_telemetry su) p None = Some p"
    and "\<And>v. fst (serve v) = Inr a \<and> part (snd (serve v)) = part v" and "env_dispose_error (su_env su) 0 = Some x"
  shows "\<exists>started stopped p. serve started = (Inr a, stopped) \<and> lifespan su serve w = (Inl x, stopped)
    \<and> pr_tracer (part stopped) = Some p \<and> \<not> tp_shut p"
proof -
  obtain st started v where started: "pr_engines (part started) = running_engines st"
      "pr_tracer (part started) = Some (wanted_provider st v)"
    and run: "lifespan su serve w = finally_do serve (shutdown su) started"
    using assms(1-4) by (rule lifespan_startedE)
  obtain stopped where stopped: "serve started = (Inr a, stopped)" "part stopped = part started"
    using assms(5) [of started] by (cases "serve started") simp
  have "dispose_engine (su_env su) (pr_engines (part stopped)) = (Inl x, pr_engines (part stopped))"
    by (simp add: stopped(2) started(1) dispose_engine_def running_engines_def assms(6))
  then have "on_engines (dispose_engine (su_env su)) stopped = (Inl x, stopped)"
    using on_engines_run [of "dispose_engine (su_env su)" stopped] by simp
  then have "shutdown su stopped = (Inl x, stopped)" by (simp add: shutdown_def and_then_Inl)
  with run stopped(1) have "lifespan su serve w = (Inl x, stopped)" by (simp add: finally_do_def)
  with stopped started(2) show ?thesis by (auto simp: wanted_provider_def)
qed

section \<open>A sample process\<close>

definition sample_telemetry :: telemetry where
  "sample_telemetry = \<lparr>tel_set = (\<lambda>p current. case current of None \<Rightarrow> Some p | Some c \<Rightarrow> Some c),
     tel_shutdown = (\<lambda>p. (Inr (), p\<lparr>tp_shut := True\<rparr>))\<rparr>"

definition sample_surroundings :: surroundings where
  "sample_surroundings = \<lparr>su_unicode = plain_unicode, su_version = (\<lambda>_. Inr (lit ''0.1.0'')), su_env = sample_environment,
     su_telemetry = sample_telemetry, su_probe = (\<lambda>_. Inl TimeoutError), su_str = (\<lambda>_. []),
     su_type_name = (\<lambda>_. lit ''TimeoutError'')\<rparr>"

definition sample_process :: "process world" where
  "sample_process = \<lparr>part = \<lparr>pr_logging = untouched_logging, pr_engines = no_engines, pr_tracer = None\<rparr>,
     journal = [], bound_context = Map.empty\<rparr>"

lemma sample_process_fresh: "fresh_process sample_process"
  by (simp add: fresh_process_def sample_process_def)

lemma sample_boots: "boot_error sample_surroundings = None"
proof -
  obtain st where st: "load_settings plain_unicode bare_settings = Inr st"
    by (simp add: load_settings_def supplied_def bare_settings_def)
  with loaded_level [OF this] show ?thesis
    by (auto simp: boot_error_def sample_surroundings_def sample_environment_def)
qed

text \<open>Not installed: nothing is served.\<close>

lemma bad_configuration_stops_startup_witness:
  "\<exists>l. lifespan (sample_surroundings\<lparr>su_version := (\<lambda>_. Inl (Other_Exception 7))\<rparr>) (returning ()) sample_process
    = (Inl (Other_Exception 7), sample_process\<lparr>part := (part sample_process)\<lparr>pr_logging := l\<rparr>\<rparr>)"
  by (rule bad_configuration_stops_startup [OF sample_process_fresh]) (simp add: boot_error_def)

text \<open>The database cannot be reached and the process serves; it records the stop when it ends.\<close>

lemma lifespan_serves_and_releases_witness:
  "\<exists>w. lifespan sample_surroundings (returning (5 :: nat)) sample_process = (Inr 5, w) \<and> live (pr_engines (part w)) = []"
  using lifespan_serves_and_releases [OF sample_process_fresh sample_boots, of "returning (5 :: nat)"]
  by (auto simp: sample_surroundings_def sample_telemetry_def sample_environment_def)

end
