(* ===== verification/Spec2Isabelle.thy ===== *)
theory Spec2Isabelle
  imports Blob_History Storage_Stack Repo_Properties Registry_History Migration_Env Assembly Lifecycle
begin

text \<open>
  Wooloo: a service that keeps blobs, addressed by the SHA-256 of their content, in a directory, and
  named repositories in PostgreSQL, behind an HTTP interface. This library models the Python code
  under \<open>src/src/wooloo/\<close> (paths below are relative to it) and proves what makes it correct.

  \<^bold>\<open>How the code is modelled.\<close> A function that reads or changes state, or may raise, is an action of
  \<open>Prelude\<close>: from a state to the raised exception or the result, with the state left behind. \<open>try/except\<close>,
  \<open>try/finally\<close> and sequencing are its combinators. \<open>Exceptions\<close> holds the exceptions of the code base, of the
  operating system and of the database driver, with \<open>is_exception\<close> telling \<open>Exception\<close> from the rest of
  \<open>BaseException\<close>. \<open>Py_Strings\<close> and \<open>Regex\<close> are the string operations and regular expressions the code
  uses; the tables of Unicode that they consult are an argument (\<open>unicode_data\<close>). \<open>Sha256\<close> is the hash, \<open>Json\<close>
  the standard library's \<open>dumps\<close>, with a reader that proves it loses nothing. \<open>Events\<close> adds the journal of
  structured records (\<open>logger.info\<close> and the like) and structlog's bound context to a component's state.
  A coroutine that speaks ASGI is a resumption (\<open>Asgi\<close>): a codatatype of the calls it makes of \<open>receive\<close> and
  \<open>send\<close> and of its effects, run by an inductive relation, so that middleware is corecursion over the
  application it wraps and no run is bounded by fuel.

  \<^bold>\<open>Blob storage.\<close>
  \<open>OS_Files\<close>: a tree of files with descriptors; every system call may be made to fail by the state, every wait for a
  thread may be cancelled, before the thread starts or with the thread running on (\<open>to_thread\<close>), and other
  processes may change the tree between calls. \<open>OS_Quiet\<close>: the calls when nothing interferes. The count \<open>open_fds\<close> is of
  descriptors that no call has closed: a file object that is dropped open counts until the garbage collector, which is
  not modelled, closes it.
  \<open>Blob_Port\<close>: \<open>domain/storage/contracts.py\<close> as a record of operations and as a locale of laws.
  \<open>Filesystem_Blobs\<close>: \<open>infrastructure/storage/filesystem.py\<close>, function by function. \<open>Filesystem_Laws\<close>,
  \<open>Filesystem_Contract\<close>: each operation on every branch, and the interpretation of the port's locale (a
  refinement: the directory as a map from keys to contents). \<open>Filesystem_Faults\<close>: what holds when calls fail or their
  waits are cancelled.
  \<open>Filesystem_Properties\<close>: the properties. \<open>Adapter_Steps\<close>: what any call of the adapter does to the tree, as a step
  relation, and each call of an operation specified with any number of steps of other tasks and processes
  before it (their scratch names and files distinct from this task's). \<open>Filesystem_Concurrent\<close>: over these, a store,
  a read and a delete each take effect, or are true, at one moment of the call. Both theories hold while calls are
  refused and waits cancelled; their parameter \<open>calm\<close> says that none is, and then gives the clauses on scratch files
  and descriptors. \<open>Blob_History\<close>: any list of calls one after the other, alone as exactly the calls of a map, and among
  others as calls that each take effect at one moment (\<open>Histories\<close> holds both notions), with the invariant that a key
  names the digest of its content.
  \<open>Storage_Service\<close>: \<open>application/services/storage_service.py\<close> over any backend that keeps the contract.
  \<open>Storage_Stack\<close>: \<open>infrastructure/storage/factory.py\<close> and \<open>deps.py\<close>, and the service on the file system.

  \<^bold>\<open>Repositories.\<close>
  \<open>Repo_Name\<close>: \<open>domain/repositories/name.py\<close>, with a one-pass scanner that the pattern is proved equivalent to.
  \<open>Repo_Port\<close>: \<open>domain/repositories/contracts.py\<close> and \<open>entity.py\<close>, as a locale over an abstract table.
  \<open>Sql_Engine\<close>: the reference database behind the SQLAlchemy session, with transactions, the unique index of
  \<open>CITEXT\<close> names and the constraints of the migrations, and faults: a statement may raise, and a commit may raise on either
  side of the moment it becomes durable. \<open>Sql_Store\<close>:
  \<open>infrastructure/repositories/store.py\<close> over any session. \<open>Use_Cases\<close>: the four modules of
  \<open>application/use_cases/\<close>. \<open>Repo_Properties\<close>: the properties. \<open>Sql_Concurrent\<close>: the same store in a session among
  others at the isolation level read committed, with the locks a session holds until it commits; what other sessions commit
  in between is a step relation on the table, and \<open>others_only\<close> is what they alone make of it. Statements and commits may
  fail there too, unless \<open>calm\<close>. \<open>Registry_History\<close>: any list of requests, each in a session that is closed at its end, is
  linearizable to atomic operations on the table; a listing is not, since it reads twice. \<open>Migrations\<close>: the three migrations under
  \<open>src/migrations/versions/\<close> on a catalogue of tables, indexes and constraints, run in one transaction, against the table
  and naming convention of \<open>infrastructure/database/models/\<close>. \<open>Migration_Env\<close>: \<open>src/migrations/env.py\<close>, the two ways a run goes.

  \<^bold>\<open>HTTP interface.\<close>
  \<open>Max_Body\<close>: \<open>api/middleware/max_body_size.py\<close>; every run of the guarded application is a run of the
  application on a shorter body, cut off where the body passes the limit and then answered \<open>413\<close>.
  \<open>Request_Log\<close>: \<open>api/middleware/request_logging.py\<close>; one summary record per request, and the headers it adds.
  \<open>Asgi_Stack\<close>: the composition of both at the end of \<open>main.py\<close>, and its span hook; protocol, termination and
  the refusal of an upload that is too large, end to end.
  \<open>Http_Errors\<close>: \<open>api/errors/handlers.py\<close>, \<open>exceptions.py\<close>, \<open>responses.py\<close> and the registrations of \<open>main.py\<close>; every
  exception meets exactly the documented answer.
  \<open>Health\<close>: \<open>application/services/health_service.py\<close> and \<open>api/routes/health.py\<close>.
  \<open>Storage_Routes\<close>, \<open>Repository_Routes\<close>: \<open>api/routes/storage.py\<close> and \<open>repositories.py\<close>, with \<open>api/schemas/\<close>.
  \<open>Api\<close>: the route table of \<open>main.py\<close>, and the life of a blob and of a repository through endpoints,
  services, stores and exception handlers. \<open>Assembly\<close>: what importing \<open>main.py\<close> registers, and what it serves.

  \<^bold>\<open>Process.\<close>
  \<open>Settings\<close>: \<open>config/settings.py\<close> and \<open>config/storage.py\<close>, and the level lookup and service stamp of
  \<open>infrastructure/logging/config.py\<close>. \<open>Logging_Config\<close>: the rest of that file, on the standard library's tree of
  loggers, and what reaches the output. \<open>Engine\<close>: \<open>infrastructure/database/engine.py\<close>; the cached providers as a
  step relation in which a disposal waits while others run, with its invariant by rule induction.
  \<open>Tracing\<close>: \<open>infrastructure/telemetry/tracing.py\<close>. \<open>Lifecycle\<close>: \<open>application/lifecycle.py\<close>.

  \<^bold>\<open>Correspondence.\<close> A Python name keeps its name without the leading underscore; a method of a class carries a
  prefix of its component (\<open>fs_put\<close> for \<open>FilesystemBlobStorage.put\<close>, \<open>sql_create\<close>, \<open>service_store\<close>,
  \<open>create_execute\<close>). An asynchronous generator is a state with a step: a request body is the list of its
  chunks and the exception it may end with (\<open>byte_stream\<close>), a download is a \<open>generator\<close> resumed by \<open>stream_next\<close>.
  A function that is split in several definitions has each of them mapped to its lines:
  \<open>MaxBodySizeMiddleware.__call__\<close> is \<open>max_body_size\<close> (up to the call of the application), \<open>limited\<close> (the wrapped
  \<open>receive\<close> and \<open>send\<close>, and the \<open>except\<close>) and \<open>receive_counting_body\<close>; \<open>RequestLoggingMiddleware.__call__\<close> is
  \<open>request_logging\<close>, \<open>logged\<close>, \<open>send_with_request_id\<close> and \<open>close_request\<close>; \<open>dispose_engine\<close> is also \<open>dispose_begin\<close>
  and \<open>dispose_end\<close>, around its wait.

  \<^bold>\<open>Arguments for code outside the repository.\<close> Starlette's and FastAPI's lookup of exception handlers and
  their answers are an argument with their documentation as a named hypothesis (\<open>looks_up_nearest\<close>,
  \<open>answers_as_documented\<close>), which concrete functions satisfy. The SQLAlchemy session is an argument of the store; the
  reference session instantiates it. What other processes do between the calls is an argument too, with the law that they take the steps of the
  code (\<open>among_peers\<close>) or respect the locks (\<open>lawful_peers\<close>). The database's case folding, Alembic's choice of operations, the OpenTelemetry SDK, the versions of installed
  distributions, the expiry of deadlines and the application under the middleware are arguments as well.
  Every hypothesis of a property is met by a concrete instance in the theorem named after it with the suffix
  \<open>_witness\<close>.

  \<^bold>\<open>What the model showed.\<close> \<open>fdopen_failure_leaks_descriptor\<close>: in \<open>_spool\<close> a failing \<open>os.fdopen\<close> leaves the
  scratch descriptor open. \<open>cancelled_mkstemp_leaves_scratch\<close>: an upload cancelled while \<open>tempfile.mkstemp\<close> runs in its
  thread leaves the scratch file and its descriptor. \<open>failed_disposal_skips_flush\<close>: a disposal that raises at shutdown skips the flush of
  the spans. \<open>page_and_total_may_disagree\<close>: the page and the total of a listing are read by two statements, and
  another session's commit can come between them. \<open>minio_and_gcs_rejected\<close>: two documented backends are not recognised. \<open>taken_name_conflicts\<close>: a
  conflict carries no message, so its answer does not name the name.

  \<^bold>\<open>Not modelled.\<close> The construction of the OpenAPI document, parameter parsing and JSON validation of bodies, which
  FastAPI and pydantic do; the parsing of an environment file; the SQL text that SQLAlchemy and Alembic emit, and what a migration does to
  rows; isolation levels other than the default, and a rollback that fails itself;
  \<open>infrastructure/telemetry/config.py\<close> and \<open>infrastructure/logging/logger.py\<close>, which only call a library; the contents of
  the clock and of random identifiers, which are arguments.
\<close>

end
